(* ===== verification/KPrelude.thy ===== *)
theory KPrelude
  imports Main "HOL-Library.Word"
begin

text \<open>
  Shared vocabulary of the development: the machine-integer types of the kernel
  (\<^verbatim>\<open>uint8_t\<close>, \<^verbatim>\<open>uint16_t\<close>, \<^verbatim>\<open>uint32_t\<close>), the sequencing of operations that can
  fail (\<open>bindR\<close>, over the sum type, \<open>Inl\<close> being the failure), the collections the
  component theories put their rules into, and word arithmetic used by several of them.
\<close>

unbundle bit_operations_syntax

type_synonym u8 = "8 word"
type_synonym u16 = "16 word"
type_synonym u32 = "32 word"

named_theorems frame_simps "an operation leaves the state of another component alone"
named_theorems inv_intros "an operation preserves the invariant of its component"

subsection \<open>Sequencing of fallible operations\<close>

definition bindR :: "'e + 'a \<Rightarrow> ('a \<Rightarrow> 'e + 'b) \<Rightarrow> 'e + 'b" where
  "bindR r f = (case r of Inl e \<Rightarrow> Inl e | Inr x \<Rightarrow> f x)"

lemma bindR_simps [simp]:
  "bindR (Inl e) f = Inl e"
  "bindR (Inr x) f = f x"
  by (simp_all add: bindR_def)

lemma bindR_eq_Inr [simp]:
  "bindR r f = Inr y \<longleftrightarrow> (\<exists>x. r = Inr x \<and> f x = Inr y)"
  by (cases r) simp_all

lemma bindR_assoc: "bindR (bindR r f) g = bindR r (\<lambda>x. bindR (f x) g)"
  by (cases r) simp_all

lemma bindR_cong [fundef_cong]:
  "r = r' \<Longrightarrow> (\<And>x. r' = Inr x \<Longrightarrow> f x = f' x) \<Longrightarrow> bindR r f = bindR r' f'"
  by (cases r') simp_all

subsection \<open>Word arithmetic\<close>

text \<open>Offsets below \<open>2 ^ 32\<close> are told apart by the addresses they give.\<close>

lemma unat_of_nat_u32: "a < 2 ^ 32 \<Longrightarrow> unat (of_nat a :: u32) = a"
  by (simp add: unsigned_of_nat take_bit_nat_eq_self)

lemma of_nat_u32_inj:
  "a < 2 ^ 32 \<Longrightarrow> b < 2 ^ 32 \<Longrightarrow> (of_nat a :: u32) = of_nat b \<longleftrightarrow> a = b"
  using unat_of_nat_u32 [of a] unat_of_nat_u32 [of b] by metis

lemma unat_add_small:
  fixes a b :: u32
  shows "unat a + unat b < 2 ^ 32 \<Longrightarrow> unat (a + b) = unat a + unat b"
  by (simp add: unat_word_ariths)

lemma unat_mult_small:
  fixes a b :: u32
  shows "unat a * unat b < 2 ^ 32 \<Longrightarrow> unat (a * b) = unat a * unat b"
  by (simp add: unat_word_ariths)

lemma unat_diff_le:
  fixes a b :: u32
  shows "unat b \<le> unat a \<Longrightarrow> unat (a - b) = unat a - unat b"
  by (simp add: unat_sub_if')

lemma unat_diff_wrap:
  fixes a b :: u32
  shows "unat a < unat b \<Longrightarrow> unat (a - b) = 2 ^ 32 - (unat b - unat a)"
  by (simp add: unat_sub_if')

lemma unat_u32_less: "unat (w :: u32) < 2 ^ 32"
  using unsigned_less [of w] by simp

lemma u32_eqI:
  fixes a b :: u32
  shows "unat a = unat b \<Longrightarrow> a = b"
  by (simp add: word_unat_eq_iff)

subsection \<open>Fuel\<close>

text \<open>
  A loop that follows 32-bit addresses and changes nothing visits no address twice if it ends,
  so it ends within \<open>2 ^ 32\<close> rounds or never does. Such a loop gets this much fuel, and
  running out of it is reported as not ending.
\<close>

definition loop_fuel :: nat where "loop_fuel = 2 ^ 32"

lemma loop_fuel_Suc: "loop_fuel = Suc (2 ^ 32 - 1)"
  by (simp add: loop_fuel_def)

subsection \<open>Counting loops\<close>

text \<open>\<^verbatim>\<open>for (i = a; i < b; i++) s = f(i, s);\<close>\<close>

definition for_upt :: "nat \<Rightarrow> nat \<Rightarrow> (nat \<Rightarrow> 's \<Rightarrow> 's) \<Rightarrow> 's \<Rightarrow> 's" where
  "for_upt a b f s = fold f [a..<b] s"

lemma for_upt_empty [simp]: "b \<le> a \<Longrightarrow> for_upt a b f s = s"
  by (simp add: for_upt_def)

lemma for_upt_Suc [simp]: "a \<le> b \<Longrightarrow> for_upt a (Suc b) f s = f b (for_upt a b f s)"
  by (simp add: for_upt_def)

lemma for_upt_rule:
  assumes "a \<le> b" and "P a s"
    and "\<And>i s. a \<le> i \<Longrightarrow> i < b \<Longrightarrow> P i s \<Longrightarrow> P (Suc i) (f i s)"
  shows "P b (for_upt a b f s)"
  using assms
proof (induction b)
  case 0
  then show ?case by simp
next
  case (Suc b)
  show ?case
  proof (cases "a = Suc b")
    case True
    with Suc.prems show ?thesis by simp
  next
    case False
    with Suc show ?thesis by simp
  qed
qed

text \<open>The same for a body that can fail, over the list of the counter's values.\<close>

fun forR :: "('i \<Rightarrow> 's \<Rightarrow> 'e + 's) \<Rightarrow> 'i list \<Rightarrow> 's \<Rightarrow> 'e + 's" where
  "forR f [] s = Inr s"
| "forR f (i # is) s = bindR (f i s) (forR f is)"

lemma forR_append: "forR f (is @ js) s = bindR (forR f is s) (forR f js)"
  by (induction "is" arbitrary: s) (simp_all add: bindR_assoc cong: bindR_cong)

text \<open>A body that never fails in the states the loop reaches.\<close>

lemma forR_total:
  assumes "P s" and "\<And>i s. i \<in> set is \<Longrightarrow> P s \<Longrightarrow> f i s = Inr (g i s) \<and> P (g i s)"
  shows "forR f is s = Inr (fold g is s) \<and> P (fold g is s)"
  using assms by (induction "is" arbitrary: s) simp_all

end
