(* ===== verification/Console.thy ===== *)
theory Console
  imports KPrelude
begin

text \<open>
  \<^verbatim>\<open>code/Console.cpp\<close>: the text console on the video memory at \<^verbatim>\<open>0xb8000\<close>. The state is
  the video memory (bytes, by offset from \<^verbatim>\<open>COLOR_TEXT_MODE\<close>; any offset is a legal
  argument, so that a write outside the 4000 bytes of the screen would be seen) and the two
  cursor variables. A C string is the list of its characters before the terminating zero.
  Proved here: the cursor stays on the screen and nothing outside the screen is written
  (\<open>console_ok\<close>, \<open>screen_frame\<close>), what scrolling does to every cell, what a line of plain
  characters does, and that the decimal conversion writes the digits of its argument.
\<close>

abbreviation SCREEN_WIDTH :: int where "SCREEN_WIDTH \<equiv> 80"
abbreviation SCREEN_HEIGHT :: int where "SCREEN_HEIGHT \<equiv> 25"

definition COLOR_BLACK :: u8 where "COLOR_BLACK = 0x00"
definition COLOR_WHITE :: u8 where "COLOR_WHITE = 0x0F"

record console =
  vram :: "int \<Rightarrow> u8"
  cursorX :: int
  cursorY :: int

definition byte_of_char :: "char \<Rightarrow> u8" where
  "byte_of_char c = of_char c"

subsection \<open>Scrolling\<close>

definition scroll_cell :: "nat \<Rightarrow> nat \<Rightarrow> (int \<Rightarrow> u8) \<Rightarrow> (int \<Rightarrow> u8)" where
  "scroll_cell j i v =
     (let pos1 = 2 * (int i + (int j - 1) * SCREEN_WIDTH);
          pos2 = 2 * (int i + int j * SCREEN_WIDTH);
          v = v(pos1 := v pos2)
      in v(pos1 + 1 := v (pos2 + 1)))"

definition blank_cell :: "nat \<Rightarrow> (int \<Rightarrow> u8) \<Rightarrow> (int \<Rightarrow> u8)" where
  "blank_cell i v =
     (let pos2 = 2 * (int i + SCREEN_WIDTH * (SCREEN_HEIGHT - 1))
      in v(pos2 := 0, pos2 + 1 := COLOR_BLACK))"

definition kscroll :: "console \<Rightarrow> console" where
  "kscroll c =
     (let v = for_upt 1 25 (\<lambda>j v. for_upt 0 80 (scroll_cell j) v) (vram c);
          v = for_upt 0 80 blank_cell v
      in c\<lparr>vram := v, cursorY := cursorY c - 1\<rparr>)"

lemma kscroll_cursor [simp]:
  "cursorX (kscroll c) = cursorX c" "cursorY (kscroll c) = cursorY c - 1"
  by (simp_all add: kscroll_def Let_def)

subsection \<open>Printing\<close>

definition put_at_cursor :: "u8 \<Rightarrow> console \<Rightarrow> console" where
  "put_at_cursor b c =
     (let pos = 2 * (cursorY c * SCREEN_WIDTH + cursorX c)
      in c\<lparr>vram := (vram c)(pos := b, pos + 1 := COLOR_WHITE)\<rparr>)"

definition scroll_if_full :: "console \<Rightarrow> console" where
  "scroll_if_full c =
     (if cursorY c = SCREEN_HEIGHT then kscroll (kscroll (kscroll c)) else c)"

definition backspace :: "console \<Rightarrow> console" where
  "backspace c =
     (if cursorX c > 0 then c\<lparr>cursorX := cursorX c - 1\<rparr>
      else if cursorY c > 0 then c\<lparr>cursorY := cursorY c - 1, cursorX := SCREEN_WIDTH - 1\<rparr>
      else c)"

lemma scroll_if_full_cursorX [simp]: "cursorX (scroll_if_full c) = cursorX c"
  by (simp add: scroll_if_full_def)

text \<open>
  The loop over the message: a full line makes the loop step back (\<^verbatim>\<open>i--; continue\<close>) and see
  the same character again on the next line.
\<close>

function kprint :: "string \<Rightarrow> console \<Rightarrow> console" where
  "kprint [] c = c"
| "kprint (ch # msg) c =
     (let c = scroll_if_full c
      in if cursorX c = SCREEN_WIDTH
         then kprint (ch # msg) (c\<lparr>cursorY := cursorY c + 1, cursorX := 0\<rparr>)
         else if ch = CHR 0x0A
         then kprint msg (c\<lparr>cursorY := cursorY c + 1, cursorX := 0\<rparr>)
         else if ch = CHR 0x0D then kprint msg (c\<lparr>cursorX := 0\<rparr>)
         else if ch = CHR 0x08 then kprint msg (put_at_cursor 0 (backspace c))
         else let c = put_at_cursor (byte_of_char ch) c
              in kprint msg (c\<lparr>cursorX := cursorX c + 1\<rparr>))"
  by pat_completeness auto
termination
  by (relation "measure (\<lambda>(msg, c). 2 * length msg + (if cursorX c = SCREEN_WIDTH then 1 else 0))")
    auto

declare kprint.simps(2) [simp del]

definition kprintCursor :: "console \<Rightarrow> console" where
  "kprintCursor c = kprint ''>'' c"

definition kclearScreen :: "console \<Rightarrow> console" where
  "kclearScreen c =
     (let v = for_upt 0 25 (\<lambda>j v. for_upt 0 80 (\<lambda>i v.
                let pos = 2 * (int i + int j * SCREEN_WIDTH)
                in v(pos := 0, pos + 1 := COLOR_BLACK)) v) (vram c)
      in kprintCursor (c\<lparr>vram := v, cursorX := 0, cursorY := 0\<rparr>))"

text \<open>A C string ends at its first zero character.\<close>

definition cstr :: "string \<Rightarrow> string" where
  "cstr cs = takeWhile (\<lambda>c. c \<noteq> CHR 0x00) cs"

definition kprint_char :: "char \<Rightarrow> console \<Rightarrow> console" where
  "kprint_char ch c = kprint (cstr [ch, CHR 0x00]) c"

text \<open>
  \<^verbatim>\<open>kprint(unsigned int)\<close> fills \<^verbatim>\<open>char ats[11]\<close> downwards from index 8. \<open>uint_digits c ptr
  buf\<close> is the loop: \<open>ptr\<close> is the index of \<^verbatim>\<open>ptr\<close> in \<^verbatim>\<open>ats\<close> (negative once it has left the
  array) and \<open>buf\<close> the characters from there to the terminating zero at index 9.
\<close>

function uint_digits :: "u32 \<Rightarrow> int \<Rightarrow> string \<Rightarrow> int \<times> string" where
  "uint_digits c ptr buf =
     (if c > 0 then uint_digits (c div 10) (ptr - 1) (char_of (unat (c mod 10) + 0x30) # buf)
      else (ptr, buf))"
  by pat_completeness auto
termination
  by (relation "measure (\<lambda>(c, _). unat c)")
    (auto simp: unat_div word_greater_zero_iff unat_gt_0)

declare uint_digits.simps [simp del]

definition uint_buffer :: "u32 \<Rightarrow> int \<times> string" where
  "uint_buffer c = (if c = 0 then (8, ''0'') else uint_digits c 9 [])"

definition kprint_uint :: "u32 \<Rightarrow> console \<Rightarrow> console" where
  "kprint_uint n c = kprint (snd (uint_buffer n)) c"

definition kprint_int :: "u32 \<Rightarrow> console \<Rightarrow> console" where
  "kprint_int n c = kprint_uint n c"

definition hex_digit :: "nat \<Rightarrow> char" where
  "hex_digit n = char_of (if n \<ge> 10 then n + 55 else n + 48)"

definition kprinthex_byte :: "u8 \<Rightarrow> console \<Rightarrow> console" where
  "kprinthex_byte b c =
     kprint [hex_digit (unat (drop_bit 4 b)), hex_digit (unat (b AND 0x0F))] c"

definition kprinthex :: "u32 \<Rightarrow> console \<Rightarrow> console" where
  "kprinthex n c =
     kprinthex_byte (ucast (drop_bit 24 n))
       (kprinthex_byte (ucast (drop_bit 16 n))
         (kprinthex_byte (ucast (drop_bit 8 n))
           (kprinthex_byte (ucast n) c)))"

definition kprintln :: "string \<Rightarrow> console \<Rightarrow> console" where
  "kprintln msg c = kprintCursor (kprint [CHR 0x0D, CHR 0x0A] (kprint msg c))"

subsection \<open>What scrolling does\<close>

definition shifted :: "int \<Rightarrow> int \<Rightarrow> (int \<Rightarrow> u8) \<Rightarrow> (int \<Rightarrow> u8)" where
  "shifted lo hi v = (\<lambda>p. if lo \<le> p \<and> p < hi then v (p + 160) else v p)"

lemma scroll_row:
  assumes "1 \<le> j"
  shows "for_upt 0 n (scroll_cell j) v
    = (if n \<le> 80 then shifted (160 * (int j - 1)) (160 * (int j - 1) + 2 * int n) v
       else for_upt 0 n (scroll_cell j) v)"
proof (induction n)
  case 0
  show ?case by (auto simp: shifted_def fun_eq_iff)
next
  case (Suc n)
  show ?case
  proof (cases "Suc n \<le> 80")
    case True
    with Suc have eq: "for_upt 0 n (scroll_cell j) v
        = shifted (160 * (int j - 1)) (160 * (int j - 1) + 2 * int n) v" by simp
    from True assms have "scroll_cell j n
        (shifted (160 * (int j - 1)) (160 * (int j - 1) + 2 * int n) v) p
      = shifted (160 * (int j - 1)) (160 * (int j - 1) + 2 * int (Suc n)) v p" for p
      by (auto simp: shifted_def scroll_cell_def Let_def algebra_simps
          intro!: arg_cong [where f = v])
    with True show ?thesis by (simp add: eq fun_eq_iff)
  qed simp
qed

lemma scroll_rows:
  "for_upt 1 (Suc m) (\<lambda>j v. for_upt 0 80 (scroll_cell j) v) v = shifted 0 (160 * int m) v"
proof (induction m)
  case 0
  show ?case by (auto simp: shifted_def fun_eq_iff)
next
  case (Suc m)
  have "shifted (160 * int m) (160 * int m + 160) (shifted 0 (160 * int m) v)
      = shifted 0 (160 * int (Suc m)) v"
    by (rule ext) (auto simp: shifted_def)
  with Suc show ?case
    using scroll_row [of "Suc m" 80 "shifted 0 (160 * int m) v"] by simp
qed

lemma blank_row:
  "for_upt 0 n blank_cell v = (\<lambda>p. if 3840 \<le> p \<and> p < 3840 + 2 * int n then 0 else v p)"
proof (induction n)
  case 0
  show ?case by (auto simp: fun_eq_iff)
next
  case (Suc n)
  then show ?case
    by (auto simp: blank_cell_def COLOR_BLACK_def Let_def fun_eq_iff algebra_simps)
qed

lemma kscroll_vram:
  "vram (kscroll c)
    = (\<lambda>p. if 0 \<le> p \<and> p < 3840 then vram c (p + 160)
           else if 3840 \<le> p \<and> p < 4000 then 0 else vram c p)"
  using scroll_rows [of 24 "vram c"]
  by (auto simp: kscroll_def Let_def blank_row shifted_def fun_eq_iff)

subsection \<open>The cursor stays on the screen, and so do the writes\<close>

definition console_ok :: "console \<Rightarrow> bool" where
  "console_ok c \<longleftrightarrow> 0 \<le> cursorX c \<and> cursorX c \<le> SCREEN_WIDTH
     \<and> 0 \<le> cursorY c \<and> cursorY c \<le> SCREEN_HEIGHT"

definition screen_frame :: "console \<Rightarrow> console \<Rightarrow> bool" where
  "screen_frame c c' \<longleftrightarrow> (\<forall>p. \<not> (0 \<le> p \<and> p < 4000) \<longrightarrow> vram c' p = vram c p)"

lemma screen_frame_refl [simp]: "screen_frame c c"
  by (simp add: screen_frame_def)

lemma screen_frame_trans: "screen_frame a b \<Longrightarrow> screen_frame b c \<Longrightarrow> screen_frame a c"
  by (simp add: screen_frame_def)

lemma screen_frame_cursor [simp]:
  "screen_frame c (d\<lparr>cursorX := x\<rparr>) = screen_frame c d"
  "screen_frame c (d\<lparr>cursorY := y\<rparr>) = screen_frame c d"
  "screen_frame (c\<lparr>cursorX := x\<rparr>) d = screen_frame c d"
  "screen_frame (c\<lparr>cursorY := y\<rparr>) d = screen_frame c d"
  by (simp_all add: screen_frame_def)

lemma scroll_if_full_ok:
  assumes "console_ok c"
  shows "console_ok (scroll_if_full c) \<and> screen_frame c (scroll_if_full c)
    \<and> cursorY (scroll_if_full c) < SCREEN_HEIGHT"
  using assms by (auto simp: scroll_if_full_def console_ok_def screen_frame_def kscroll_vram)

lemma put_at_cursor_ok:
  assumes "console_ok c" and "cursorX c < SCREEN_WIDTH" and "cursorY c < SCREEN_HEIGHT"
  shows "console_ok (put_at_cursor b c) \<and> screen_frame c (put_at_cursor b c)"
  using assms by (auto simp: put_at_cursor_def Let_def console_ok_def screen_frame_def)

lemma put_at_cursor_cursor [simp]:
  "cursorX (put_at_cursor b c) = cursorX c" "cursorY (put_at_cursor b c) = cursorY c"
  by (simp_all add: put_at_cursor_def Let_def)

lemma backspace_ok:
  assumes "console_ok c" and "cursorX c < SCREEN_WIDTH" and "cursorY c < SCREEN_HEIGHT"
  shows "console_ok (backspace c) \<and> screen_frame c (backspace c)
    \<and> cursorX (backspace c) < SCREEN_WIDTH \<and> cursorY (backspace c) < SCREEN_HEIGHT"
  using assms by (auto simp: backspace_def console_ok_def)

lemma kprint_ok:
  "console_ok c \<Longrightarrow> console_ok (kprint msg c) \<and> screen_frame c (kprint msg c)"
proof (induction msg c rule: kprint.induct)
  case (1 c)
  then show ?case by simp
next
  case (2 ch msg c)
  define d where "d = scroll_if_full c"
  have d: "console_ok d" "screen_frame c d" "cursorY d < SCREEN_HEIGHT"
    using scroll_if_full_ok [OF "2.prems"] by (auto simp: d_def)
  note IH = "2.IH" [OF d_def]
  show ?case
  proof (cases "cursorX d = SCREEN_WIDTH")
    case True
    have "console_ok (d\<lparr>cursorY := cursorY d + 1, cursorX := 0\<rparr>)"
      using d by (auto simp: console_ok_def)
    from IH(1) [OF True this] True d show ?thesis
      by (subst (1 2) kprint.simps(2))
        (auto simp: d_def [symmetric] Let_def intro: screen_frame_trans)
  next
    case False
    with d have lt: "cursorX d < SCREEN_WIDTH" by (auto simp: console_ok_def)
    have bs: "console_ok (backspace d)" "screen_frame d (backspace d)"
      "cursorX (backspace d) < SCREEN_WIDTH" "cursorY (backspace d) < SCREEN_HEIGHT"
      using backspace_ok [OF d(1) lt d(3)] by auto
    have pb: "console_ok (put_at_cursor 0 (backspace d))"
      "screen_frame c (put_at_cursor 0 (backspace d))"
      using put_at_cursor_ok [OF bs(1,3,4)] bs(2) d(2) by (auto intro: screen_frame_trans)
    have pc: "screen_frame c (put_at_cursor b d)"
      "console_ok ((put_at_cursor b d)\<lparr>cursorX := cursorX d + 1\<rparr>)" for b
      using put_at_cursor_ok [OF d(1) lt d(3)] lt d(1) screen_frame_trans [OF d(2)]
      by (auto simp: console_ok_def)
    have nl: "console_ok (d\<lparr>cursorY := cursorY d + 1, cursorX := 0\<rparr>)"
      "console_ok (d\<lparr>cursorX := 0\<rparr>)"
      using d by (auto simp: console_ok_def)
    show ?thesis
      using IH(2) [OF False _ nl(1)] IH(3) [OF False _ _ nl(2)] IH(4) [OF False _ _ _ pb(1)]
        IH(5) [OF False _ _ _ refl] pc(2) screen_frame_trans [OF pc(1)]
        screen_frame_trans [OF pb(2)] screen_frame_trans [OF d(2)] False
      by (subst (1 2) kprint.simps(2)) (auto simp: d_def [symmetric] Let_def)
  qed
qed


subsection \<open>Plain text and numbers\<close>

definition plain_char :: "char \<Rightarrow> bool" where
  "plain_char ch \<longleftrightarrow> ch \<noteq> CHR 0x0A \<and> ch \<noteq> CHR 0x0D \<and> ch \<noteq> CHR 0x08"

lemma kprint_append:
  "kprint (a @ b) c = kprint b (kprint a c)"
proof (induction a c rule: kprint.induct)
  case (1 c)
  then show ?case by simp
next
  case (2 ch msg c)
  show ?case
    using "2.IH" [OF refl] by (subst append_Cons, subst (1 2) kprint.simps(2)) (simp add: Let_def)
qed

definition text_at :: "int \<Rightarrow> string \<Rightarrow> (int \<Rightarrow> u8) \<Rightarrow> (int \<Rightarrow> u8)" where
  "text_at pos msg v =
     (\<lambda>p. if pos \<le> p \<and> p < pos + 2 * int (length msg)
          then if even (p - pos) then byte_of_char (msg ! nat ((p - pos) div 2)) else COLOR_WHITE
          else v p)"

lemma text_at_Cons:
  "text_at (pos + 2) msg (v(pos := byte_of_char ch, pos + 1 := COLOR_WHITE))
    = text_at pos (ch # msg) v"
proof (rule ext)
  fix p
  consider "p < pos" | "p = pos" | "p = pos + 1" | "pos + 2 \<le> p" by linarith
  then show "text_at (pos + 2) msg (v(pos := byte_of_char ch, pos + 1 := COLOR_WHITE)) p
      = text_at pos (ch # msg) v p"
  proof cases
    case 4
    define k where "k = p - pos - 2"
    with 4 have "p = pos + 2 + k" "0 \<le> k" "nat ((2 + k) div 2) = Suc (nat (k div 2))" by simp_all
    then show ?thesis by (auto simp: text_at_def)
  qed (auto simp: text_at_def)
qed

lemma kprint_plain:
  assumes "cursorY c < SCREEN_HEIGHT" and "cursorX c + int (length msg) \<le> SCREEN_WIDTH"
    and "list_all plain_char msg"
  shows "kprint msg c = c\<lparr>cursorX := cursorX c + int (length msg),
    vram := text_at (2 * (cursorY c * SCREEN_WIDTH + cursorX c)) msg (vram c)\<rparr>"
  using assms
proof (induction msg arbitrary: c)
  case Nil
  have "text_at q [] v = v" for q v by (auto simp: text_at_def fun_eq_iff)
  then show ?case by simp
next
  case (Cons ch msg)
  then have "scroll_if_full c = c" "cursorX c \<noteq> SCREEN_WIDTH" "plain_char ch"
    by (auto simp: scroll_if_full_def)
  with Cons show ?case
    by (subst kprint.simps(2))
      (simp add: Let_def plain_char_def put_at_cursor_def text_at_Cons [symmetric] algebra_simps)
qed

definition is_dec_digit :: "char \<Rightarrow> bool" where
  "is_dec_digit ch \<longleftrightarrow> 48 \<le> (of_char ch :: nat) \<and> (of_char ch :: nat) \<le> 57"

fun dec_value :: "nat \<Rightarrow> string \<Rightarrow> nat" where
  "dec_value acc [] = acc"
| "dec_value acc (ch # cs) = dec_value (10 * acc + (of_char ch - 48)) cs"

lemma dec_value_append: "dec_value acc (a @ b) = dec_value (dec_value acc a) b"
  by (induction a arbitrary: acc) auto

lemma uint_digits_spec:
  "\<exists>ds. uint_digits c ptr buf = (ptr - int (length ds), ds @ buf)
     \<and> dec_value 0 ds = unat c \<and> list_all is_dec_digit ds
     \<and> unat c < 10 ^ length ds \<and> (c > 0 \<longrightarrow> ds \<noteq> [] \<and> 10 ^ (length ds - 1) \<le> unat c)"
proof (induction c ptr buf rule: uint_digits.induct)
  case (1 c ptr buf)
  show ?case
  proof (cases "c > 0")
    case False
    then show ?thesis by (subst uint_digits.simps) (auto simp: word_greater_zero_iff)
  next
    case True
    define ch where "ch = char_of (unat (c mod 10) + 0x30)"
    have m: "unat (c mod 10) < 10" by (simp add: unat_mod)
    then have ch: "(of_char ch :: nat) = unat (c mod 10) + 48"
      by (simp add: ch_def)
    from "1.IH" [OF True] obtain ds where ds:
      "uint_digits (c div 10) (ptr - 1) (ch # buf)
         = (ptr - 1 - int (length ds), ds @ ch # buf)"
      "dec_value 0 ds = unat (c div 10)" "list_all is_dec_digit ds"
      "unat (c div 10) < 10 ^ length ds"
      "c div 10 > 0 \<longrightarrow> ds \<noteq> [] \<and> 10 ^ (length ds - 1) \<le> unat (c div 10)"
      by (auto simp: ch_def)
    have split: "unat c = 10 * unat (c div 10) + unat (c mod 10)"
      by (simp add: unat_div unat_mod)
    have lower: "10 ^ length ds \<le> unat c"
    proof (cases "c div 10 > 0")
      case True
      with ds(5) obtain k where "length ds = Suc k" "10 ^ k \<le> unat (c div 10)"
        by (cases ds) auto
      with split show ?thesis by simp
    next
      case False
      with ds(1) have "ds = []" by (subst (asm) uint_digits.simps) simp
      with \<open>c > 0\<close> show ?thesis by (simp add: unat_gt_0 Suc_leI word_greater_zero_iff)
    qed
    have "dec_value 0 (ds @ [ch]) = unat c"
      using ds(2) split ch by (simp add: dec_value_append)
    moreover have "unat c < 10 ^ length (ds @ [ch])" using ds(4) split m by simp
    moreover have "is_dec_digit ch" using ch m by (simp add: is_dec_digit_def)
    ultimately show ?thesis
      using True ds(1,3) lower
      by (subst uint_digits.simps, intro exI [of _ "ds @ [ch]"]) (simp add: ch_def)
  qed
qed

lemma uint_buffer_spec:
  obtains ds where "uint_buffer n = (9 - int (length ds), ds)" "dec_value 0 ds = unat n"
    "list_all is_dec_digit ds" "ds \<noteq> []" "length ds \<le> 9 \<longleftrightarrow> unat n < 10 ^ 9"
proof (cases "n = 0")
  case True
  then show ?thesis by (intro that [of "''0''"]) (simp_all add: uint_buffer_def is_dec_digit_def)
next
  case False
  obtain ds where ds: "uint_digits n 9 [] = (9 - int (length ds), ds @ [])"
    "dec_value 0 ds = unat n" "list_all is_dec_digit ds" "unat n < 10 ^ length ds"
    "ds \<noteq> [] \<and> 10 ^ (length ds - 1) \<le> unat n"
    using uint_digits_spec [of n 9 "[]"] False by (auto simp: word_gt_0)
  have "length ds \<le> 9 \<longleftrightarrow> unat n < 10 ^ 9"
  proof
    assume "length ds \<le> 9"
    then have "(10::nat) ^ length ds \<le> 10 ^ 9" by (rule power_increasing) simp
    with ds(4) show "unat n < 10 ^ 9" by simp
  next
    assume "unat n < 10 ^ 9"
    with ds(5) have "(10::nat) ^ (length ds - 1) < 10 ^ 9" by simp
    then have "length ds - 1 < 9" by (rule power_less_imp_less_exp [rotated]) simp
    then show "length ds \<le> 9" by simp
  qed
  with ds False show ?thesis by (intro that [of ds]) (simp_all add: uint_buffer_def)
qed

subsection \<open>The console as part of the kernel state\<close>

text \<open>
  Every kernel state extends this record: the console comes first because everything prints.
\<close>

record kcon =
  con :: console

definition printk :: "string \<Rightarrow> 'a kcon_scheme \<Rightarrow> 'a kcon_scheme" where
  "printk msg s = s\<lparr>con := kprint msg (con s)\<rparr>"

definition printlnk :: "string \<Rightarrow> 'a kcon_scheme \<Rightarrow> 'a kcon_scheme" where
  "printlnk msg s = s\<lparr>con := kprintln msg (con s)\<rparr>"

definition printhexk :: "u32 \<Rightarrow> 'a kcon_scheme \<Rightarrow> 'a kcon_scheme" where
  "printhexk n s = s\<lparr>con := kprinthex n (con s)\<rparr>"

definition printintk :: "u32 \<Rightarrow> 'a kcon_scheme \<Rightarrow> 'a kcon_scheme" where
  "printintk n s = s\<lparr>con := kprint_int n (con s)\<rparr>"

lemmas print_defs = printk_def printlnk_def printhexk_def printintk_def

subsection \<open>Properties\<close>



text \<open>C36: Scrolling moves every row of the screen up by one row, blanks the last row and moves
  the cursor up; bytes outside the screen keep their value.\<close>

theorem kscroll_moves_rows_up:
  "kscroll c = c\<lparr>cursorY := cursorY c - 1,
     vram := (\<lambda>p. if 0 \<le> p \<and> p < 3840 then vram c (p + 160)
                  else if 3840 \<le> p \<and> p < 4000 then 0 else vram c p)\<rparr>"
  using kscroll_vram [of c] by (simp add: kscroll_def Let_def)

text \<open>A message of plain characters that fits on the current line appears at the cursor,
  each character followed by the white attribute, the cursor moves behind it, and nothing
  else changes.\<close>

theorem kprint_plain_text:
  assumes "cursorY c < SCREEN_HEIGHT" and "cursorX c + int (length msg) \<le> SCREEN_WIDTH"
    and "list_all plain_char msg"
  shows "kprint msg c = c\<lparr>cursorX := cursorX c + int (length msg),
    vram := text_at (2 * (cursorY c * SCREEN_WIDTH + cursorX c)) msg (vram c)\<rparr>"
  using assms by (rule kprint_plain)

lemma kprint_plain_text_witness:
  "cursorX (kprint ''hi'' \<lparr>vram = (\<lambda>_. 7), cursorX = 3, cursorY = 2\<rparr>) = 5
    \<and> vram (kprint ''hi'' \<lparr>vram = (\<lambda>_. 7), cursorX = 3, cursorY = 2\<rparr>) 328
       = byte_of_char (CHR ''i'')"
  using kprint_plain_text [of "\<lparr>vram = (\<lambda>_. 7), cursorX = 3, cursorY = 2\<rparr>" "''hi''"]
  by (simp add: plain_char_def text_at_def)


end
