(* ===== verification/Faults.thy ===== *)
theory Faults
  imports Console
begin

text \<open>
  The ways an operation of the kernel does not return, as values, and \<^verbatim>\<open>panic\<close> of
  \<^verbatim>\<open>code/mem/common.c\<close>. \<open>Panic\<close> carries the console as \<^verbatim>\<open>panic\<close> leaves it before its
  endless loop; \<open>NullDeref\<close> is a member access through a null pointer, \<open>WildPtr\<close> one through
  an address that holds no object of the type, \<open>PageFault\<close> an access to an address that
  paging does not map, \<open>OutOfBounds\<close> an array index outside the array, \<open>Exception\<close> an
  exception of the processor (its vector) before there is a table of handlers, and \<open>Hang\<close> a loop that never ends.
\<close>

datatype kerror =
    Panic console
  | NullDeref
  | WildPtr u32
  | PageFault u32
  | OutOfBounds int
  | Exception nat
  | Hang

definition panic :: "string \<Rightarrow> 'a kcon_scheme \<Rightarrow> kerror + 'b" where
  "panic message s =
     (let s = printk ''PANIC('' s;
          s = printk message s;
          s = printk '')'' s;
          s = printlnk '''' s
      in Inl (Panic (con s)))"

definition panic_assert :: "string \<Rightarrow> u32 \<Rightarrow> string \<Rightarrow> 'a kcon_scheme \<Rightarrow> kerror + 'b" where
  "panic_assert file line desc s =
     (let s = printk ''ASSERTION-FAILED('' s;
          s = printk desc s;
          s = printk '') at '' s;
          s = printk file s;
          s = printk '':'' s;
          s = printintk line s;
          s = printlnk '''' s
      in Inl (Panic (con s)))"

lemma panic_not_Inr [simp]: "panic msg s \<noteq> Inr x"
  by (simp add: panic_def Let_def)

subsection \<open>Objects in memory\<close>

text \<open>
  The objects of one C type, by address. Following a pointer fails on the null pointer and on
  an address where no object of the type has been stored.
\<close>

definition deref :: "(u32 \<rightharpoonup> 'n) \<Rightarrow> u32 \<Rightarrow> kerror + 'n" where
  "deref store p =
     (if p = 0 then Inl NullDeref
      else case store p of None \<Rightarrow> Inl (WildPtr p) | Some n \<Rightarrow> Inr n)"

lemma deref_Inr [simp]: "deref store p = Inr n \<longleftrightarrow> p \<noteq> 0 \<and> store p = Some n"
  by (simp add: deref_def split: option.splits)

lemma deref_null [simp]: "deref store 0 = Inl NullDeref"
  by (simp add: deref_def)

lemma deref_Some: "p \<noteq> 0 \<Longrightarrow> store p = Some n \<Longrightarrow> deref store p = Inr n"
  by simp

end
