(* ===== verification/ByteMem.thy ===== *)
theory ByteMem
  imports KPrelude
begin

text \<open>
  The byte-addressed memory: 32-bit little-endian loads and stores (x86), and the block
  operations \<^verbatim>\<open>memset\<close> and \<^verbatim>\<open>memcpy\<close> of \<^verbatim>\<open>code/mem/common.c\<close>. The locale \<open>cell_memory\<close> is
  the interface the page-table code relies on: a load sees the last store to its cell and no
  store to a cell apart from it. Filling a table cell by cell is proved once, there.
\<close>

type_synonym mem = "u32 \<Rightarrow> u8"

subsection \<open>Loads and stores\<close>

definition load32 :: "mem \<Rightarrow> u32 \<Rightarrow> u32" where
  "load32 m a =
     ucast (m a) OR push_bit 8 (ucast (m (a + 1)))
     OR push_bit 16 (ucast (m (a + 2))) OR push_bit 24 (ucast (m (a + 3)))"

definition store32 :: "mem \<Rightarrow> u32 \<Rightarrow> u32 \<Rightarrow> mem" where
  "store32 m a v =
     m(a := ucast v, a + 1 := ucast (drop_bit 8 v),
       a + 2 := ucast (drop_bit 16 v), a + 3 := ucast (drop_bit 24 v))"

text \<open>Two 4-byte cells share no byte, also around the end of the address space.\<close>

definition apart32 :: "u32 \<Rightarrow> u32 \<Rightarrow> bool" where
  "apart32 a b \<longleftrightarrow> 4 \<le> unat (a - b) \<and> 4 \<le> unat (b - a)"

lemma add_small_neq:
  fixes a :: u32
  shows "a + 1 \<noteq> a" "a + 2 \<noteq> a" "a + 3 \<noteq> a" "a + 2 \<noteq> a + 1" "a + 3 \<noteq> a + 1" "a + 3 \<noteq> a + 2"
  by simp_all

lemma u32_bytes:
  "ucast (ucast v :: u8) OR push_bit 8 (ucast (ucast (drop_bit 8 v) :: u8))
     OR push_bit 16 (ucast (ucast (drop_bit 16 v) :: u8))
     OR push_bit 24 (ucast (ucast (drop_bit 24 v) :: u8)) = (v :: u32)"
proof (rule bit_eqI)
  fix n :: nat
  consider "n < 8" | "8 \<le> n" "n < 16" | "16 \<le> n" "n < 24" | "24 \<le> n" by linarith
  then show "bit (ucast (ucast v :: u8) OR push_bit 8 (ucast (ucast (drop_bit 8 v) :: u8))
     OR push_bit 16 (ucast (ucast (drop_bit 16 v) :: u8))
     OR push_bit 24 (ucast (ucast (drop_bit 24 v) :: u8)) :: u32) n = bit v n"
    by cases (auto simp: bit_simps dest: bit_imp_le_length)
qed

lemma load32_store32_same: "load32 (store32 m a v) a = v"
  using u32_bytes [of v] by (simp add: load32_def store32_def add_small_neq)

lemma apart32_sym: "apart32 a b \<Longrightarrow> apart32 b a"
  by (simp add: apart32_def)

lemma apart32_below:
  assumes "unat a + 4 \<le> unat b" and "unat b + 4 \<le> unat a + 2 ^ 32"
  shows "apart32 a b"
proof -
  have "unat (b - a) = unat b - unat a" "unat (a - b) = 2 ^ 32 - (unat b - unat a)"
    using assms(1) by (intro unat_diff_le unat_diff_wrap; simp)+
  then show ?thesis using assms by (auto simp: apart32_def)
qed

lemma apart32_bytes:
  assumes "apart32 a b" and "i < 4" and "j < 4"
  shows "b + of_nat i \<noteq> a + of_nat j"
proof
  assume eq: "b + of_nat i = a + of_nat j"
  show False
  proof (cases "i \<le> j")
    case True
    then have "b - a = of_nat (j - i)" using eq by (simp add: algebra_simps)
    then have "unat (b - a) = j - i" using assms(3) by (simp add: unat_of_nat_u32)
    with assms show False by (auto simp: apart32_def)
  next
    case False
    then have "a - b = of_nat (i - j)" using eq by (simp add: algebra_simps)
    then have "unat (a - b) = i - j" using assms(2) by (simp add: unat_of_nat_u32)
    with assms show False by (auto simp: apart32_def)
  qed
qed

lemma store32_other:
  assumes "\<And>j. j < 4 \<Longrightarrow> x \<noteq> a + of_nat j"
  shows "store32 m a v x = m x"
  using assms [of 0] assms [of 1] assms [of 2] assms [of 3] by (simp add: store32_def)

lemma store32_outside:
  assumes "unat x < unat a \<or> unat a + 4 \<le> unat x" and "unat a + 4 \<le> 2 ^ 32"
  shows "store32 m a v x = m x"
proof (rule store32_other)
  fix j :: nat
  assume "j < 4"
  with assms(2) have "unat (a + of_nat j) = unat a + j"
    by (subst unat_add_small) (simp_all add: unat_of_nat_u32)
  with \<open>j < 4\<close> assms(1) show "x \<noteq> a + of_nat j" by auto
qed

lemma load32_store32_apart:
  assumes "apart32 a b"
  shows "load32 (store32 m a v) b = load32 m b"
proof -
  have "store32 m a v (b + of_nat i) = m (b + of_nat i)" if "i < 4" for i
    using that by (intro store32_other apart32_bytes [OF assms])
  from this [of 0] this [of 1] this [of 2] this [of 3] show ?thesis
    by (simp add: load32_def)
qed

lemma load32_cong:
  assumes "\<And>i. i < 4 \<Longrightarrow> m' (a + of_nat i) = m (a + of_nat i)"
  shows "load32 m' a = load32 m a"
  using assms [of 0] assms [of 1] assms [of 2] assms [of 3] by (simp add: load32_def)

subsection \<open>The interface of a memory of cells\<close>

locale cell_memory =
  fixes ld :: "'m \<Rightarrow> 'a \<Rightarrow> 'v"
    and st :: "'m \<Rightarrow> 'a \<Rightarrow> 'v \<Rightarrow> 'm"
    and apart :: "'a \<Rightarrow> 'a \<Rightarrow> bool"
  assumes ld_st_same: "ld (st m a v) a = v"
    and ld_st_apart: "apart a b \<Longrightarrow> ld (st m a v) b = ld m b"
    and apart_sym: "apart a b \<Longrightarrow> apart b a"
begin

lemma fill_frame:
  assumes "\<And>i. lo \<le> i \<Longrightarrow> i < n \<Longrightarrow> apart (cell i) b"
  shows "ld (for_upt lo n (\<lambda>i m. st m (cell i) (val i)) m) b = ld m b"
  using assms
proof (induction n)
  case 0
  then show ?case by simp
next
  case (Suc n)
  show ?case
  proof (cases "lo \<le> n")
    case True
    with Suc show ?thesis by (simp add: ld_st_apart)
  next
    case False
    then show ?thesis by simp
  qed
qed

lemma fill_cell:
  assumes "\<And>i k. lo \<le> i \<Longrightarrow> i < k \<Longrightarrow> k < n \<Longrightarrow> apart (cell i) (cell k)"
    and "lo \<le> j" and "j < n"
  shows "ld (for_upt lo n (\<lambda>i m. st m (cell i) (val i)) m) (cell j) = val j"
  using assms
proof (induction n)
  case 0
  then show ?case by simp
next
  case (Suc n)
  show ?case
  proof (cases "j = n")
    case True
    with Suc.prems show ?thesis by (simp add: ld_st_same)
  next
    case False
    with Suc.prems have lt: "lo \<le> j" "j < n" by simp_all
    have "apart (cell i) (cell k)" if "lo \<le> i" "i < k" "k < n" for i k
      using that by (intro Suc.prems(1)) simp_all
    from Suc.IH [OF this lt]
    have "ld (for_upt lo n (\<lambda>i m. st m (cell i) (val i)) m) (cell j) = val j" by simp
    moreover have "apart (cell n) (cell j)"
      by (rule apart_sym, rule Suc.prems(1)) (use lt in simp_all)
    ultimately show ?thesis using lt by (simp add: ld_st_apart)
  qed
qed

end

interpretation dword: cell_memory load32 store32 apart32
  by unfold_locales (auto simp: load32_store32_same load32_store32_apart apart32_sym)

lemma cells_apart:
  assumes "i < 2 ^ 30" and "j < 2 ^ 30" and "i \<noteq> j"
  shows "apart32 (b + 4 * of_nat i) (b + 4 * of_nat j)"
proof -
  have *: "4 \<le> unat (4 * of_nat i - 4 * of_nat j :: u32)"
    if "i < 2 ^ 30" "j < 2 ^ 30" "i \<noteq> j" for i j :: nat
  proof (cases "j < i")
    case True
    then have "4 * of_nat i - 4 * of_nat j = (of_nat (4 * (i - j)) :: u32)"
      by (simp add: algebra_simps)
    moreover have "4 * (i - j) < 2 ^ 32" using that by simp
    ultimately have "unat (4 * of_nat i - 4 * of_nat j :: u32) = 4 * (i - j)"
      by (simp only: unat_of_nat_u32)
    with True show ?thesis by simp
  next
    case False
    with that have lt: "i < j" by simp
    then have "4 * of_nat i - 4 * of_nat j = - (of_nat (4 * (j - i)) :: u32)"
      by (simp add: algebra_simps)
    also have "\<dots> = of_nat (2 ^ 32 - 4 * (j - i))"
      using that by (simp add: of_nat_diff)
    finally have "unat (4 * of_nat i - 4 * of_nat j :: u32)
        = unat (of_nat (2 ^ 32 - 4 * (j - i)) :: u32)" by simp
    also have "\<dots> = 2 ^ 32 - 4 * (j - i)"
      using lt by (intro unat_of_nat_u32) simp
    finally show ?thesis using that by simp
  qed
  show ?thesis using * [OF assms] * [of j i] assms by (simp add: apart32_def)
qed

subsection \<open>memset and memcpy\<close>

function memset :: "mem \<Rightarrow> u32 \<Rightarrow> u8 \<Rightarrow> u32 \<Rightarrow> mem" where
  "memset m dest val len =
     (if len \<noteq> 0 then memset (m(dest := val)) (dest + 1) val (len - 1) else m)"
  by pat_completeness auto
termination
  by (relation "measure (\<lambda>(_, _, _, len). unat len)")
    (auto simp: unat_minus_one unat_gt_0)

function memcpy :: "mem \<Rightarrow> u32 \<Rightarrow> u32 \<Rightarrow> u32 \<Rightarrow> mem" where
  "memcpy m dest src len =
     (if len \<noteq> 0 then memcpy (m(dest := m src)) (dest + 1) (src + 1) (len - 1) else m)"
  by pat_completeness auto
termination
  by (relation "measure (\<lambda>(_, _, _, len). unat len)")
    (auto simp: unat_minus_one unat_gt_0)

declare memset.simps [simp del] memcpy.simps [simp del]

lemma offset_step:
  fixes a dest len :: u32
  assumes "len \<noteq> 0"
  shows "unat (a - (dest + 1)) < unat (len - 1) \<longleftrightarrow> a \<noteq> dest \<and> unat (a - dest) < unat len"
proof (cases "a = dest")
  case True
  then have "a - (dest + 1) = - 1" by simp
  with True show ?thesis
    by (metis (no_types) max_word_max not_le word_less_nat_alt)
next
  case False
  then have "unat (a - dest - 1) = unat (a - dest) - 1"
    by (intro unat_minus_one) simp
  moreover have "unat (len - 1) = unat len - 1" using assms by (intro unat_minus_one)
  moreover have "0 < unat (a - dest)" using False by (simp add: unat_gt_0)
  ultimately show ?thesis using False by (simp add: diff_diff_eq) linarith
qed

lemma memset_apply:
  "memset m dest val len a = (if unat (a - dest) < unat len then val else m a)"
proof (induction m dest val len rule: memset.induct)
  case (1 m dest val len)
  show ?case
  proof (cases "len = 0")
    case True
    then show ?thesis by (simp add: memset.simps)
  next
    case False
    have "unat (dest - dest) < unat len" using False by (simp add: unat_gt_0)
    with False 1 show ?thesis
      by (subst memset.simps) (auto simp: offset_step simp del: fun_upd_apply simp: fun_upd_same fun_upd_other)
  qed
qed

text \<open>
  \<^verbatim>\<open>memcpy\<close> copies upwards, so it is right when the destination does not start inside the
  source block (it may start before it, or be the same).
\<close>

lemma memcpy_apply:
  assumes "dest = src \<or> unat len \<le> unat (dest - src)"
  shows "memcpy m dest src len a
    = (if unat (a - dest) < unat len then m (src + (a - dest)) else m a)"
  using assms
proof (induction m dest src len rule: memcpy.induct)
  case (1 m dest src len)
  show ?case
  proof (cases "len = 0")
    case True
    then show ?thesis by (simp add: memcpy.simps)
  next
    case False
    define m' where "m' = m(dest := m src)"
    have len1: "unat (len - 1) = unat len - 1" using False by (intro unat_minus_one)
    have rec: "memcpy m' (dest + 1) (src + 1) (len - 1) a
        = (if a \<noteq> dest \<and> unat (a - dest) < unat len then m' (src + (a - dest)) else m' a)"
    proof -
      have "dest + 1 = src + 1 \<or> unat (len - 1) \<le> unat ((dest + 1) - (src + 1))"
        using "1.prems" len1 by auto
      moreover have "src + 1 + (a - (dest + 1)) = src + (a - dest)" by simp
      ultimately show ?thesis
        using "1.IH" [OF False] by (simp only: m'_def [symmetric] offset_step [OF False])
    qed
    have "m' (src + (a - dest)) = m (src + (a - dest))" if "unat (a - dest) < unat len"
    proof (cases "src + (a - dest) = dest")
      case True
      then have "a - dest = dest - src" by (simp add: algebra_simps)
      with that "1.prems" have "dest = src" by auto
      with True show ?thesis by (simp add: m'_def)
    next
      case False
      then show ?thesis by (simp add: m'_def)
    qed
    moreover have "0 < unat len" using False by (simp add: unat_gt_0)
    ultimately show ?thesis
      using False rec by (subst memcpy.simps) (simp add: m'_def [symmetric], simp add: m'_def)
  qed
qed

subsection \<open>Properties\<close>

text \<open>memset writes its value to exactly the len bytes from dest (also around the end of the
  address space) and leaves every other byte alone.\<close>

theorem memset_fills_block:
  "memset m dest val len = (\<lambda>a. if unat (a - dest) < unat len then val else m a)"
  by (simp add: memset_apply fun_eq_iff)

text \<open>When the destination block does not start inside the source block, memcpy puts the
  bytes of the source block into the destination block and leaves every other byte alone.\<close>

theorem memcpy_copies_block:
  assumes "dest = src \<or> unat len \<le> unat (dest - src)"
  shows "memcpy m dest src len
    = (\<lambda>a. if unat (a - dest) < unat len then m (src + (a - dest)) else m a)"
  by (simp add: memcpy_apply [OF assms] fun_eq_iff)

lemma memcpy_copies_block_witness:
  "memcpy ucast 0x2000 0x1000 3 0x2002 = 2 \<and> memcpy ucast 0x2000 0x1000 3 0x2003 = 3"
  using memcpy_copies_block [of "0x2000" "0x1000" 3 ucast] by simp

end
