(* ===== verification/Machine.thy ===== *)
theory Machine
  imports Faults ByteMem
begin

text \<open>
  The hardware under the kernel: physical memory (byte-addressed), the interrupt flag, and
  the I/O ports of \<^verbatim>\<open>code/PortIO.cpp\<close>. What a device answers to an \<^verbatim>\<open>in\<close> instruction is not
  code of the repository: it is the parameter \<open>device8\<close> / \<open>device16\<close> of the state, any
  function of the port traffic so far. Every access is recorded in \<open>ptrace\<close>, oldest first.
\<close>

datatype port_event =
    Out8 u16 u8
  | Out16 u16 u16
  | In8 u16 u8
  | In16 u16 u16
  | IoWait

record machine = kcon +
  pmem :: mem
  iflag :: bool
  device8 :: "port_event list \<Rightarrow> u16 \<Rightarrow> u8"
  device16 :: "port_event list \<Rightarrow> u16 \<Rightarrow> u16"
  ptrace :: "port_event list"

definition outb :: "u16 \<Rightarrow> u8 \<Rightarrow> 'a machine_scheme \<Rightarrow> 'a machine_scheme" where
  "outb port b s = s\<lparr>ptrace := ptrace s @ [Out8 port b]\<rparr>"

definition outw :: "u16 \<Rightarrow> u16 \<Rightarrow> 'a machine_scheme \<Rightarrow> 'a machine_scheme" where
  "outw port w s = s\<lparr>ptrace := ptrace s @ [Out16 port w]\<rparr>"

definition inb :: "u16 \<Rightarrow> 'a machine_scheme \<Rightarrow> u8 \<times> 'a machine_scheme" where
  "inb port s =
     (let ret = device8 s (ptrace s) port in (ret, s\<lparr>ptrace := ptrace s @ [In8 port ret]\<rparr>))"

definition inw :: "u16 \<Rightarrow> 'a machine_scheme \<Rightarrow> u16 \<times> 'a machine_scheme" where
  "inw port s =
     (let ret = device16 s (ptrace s) port in (ret, s\<lparr>ptrace := ptrace s @ [In16 port ret]\<rparr>))"

definition io_wait :: "'a machine_scheme \<Rightarrow> 'a machine_scheme" where
  "io_wait s = s\<lparr>ptrace := ptrace s @ [IoWait]\<rparr>"

definition cli :: "'a machine_scheme \<Rightarrow> 'a machine_scheme" where
  "cli s = s\<lparr>iflag := False\<rparr>"

definition sti :: "'a machine_scheme \<Rightarrow> 'a machine_scheme" where
  "sti s = s\<lparr>iflag := True\<rparr>"

lemmas port_defs = outb_def outw_def inb_def inw_def io_wait_def

end
