(* ===== verification/KMalloc.thy ===== *)
theory KMalloc
  imports Machine
begin

text \<open>
  \<^verbatim>\<open>code/MemoryManagement.cpp\<close>: the kernel's own heap in the identity-mapped megabyte from
  2 MB to 3 MB. A block is a header of two 32-bit words (\<^verbatim>\<open>is_available\<close>, \<^verbatim>\<open>size\<close>) in memory
  followed by its bytes. The search loop of \<^verbatim>\<open>kernel_malloc\<close> need not end; it is given
  \<open>2 ^ 32\<close> rounds, one per address its cursor can have, and not ending is \<open>Hang\<close>.

  Proved here: while the free tail is large enough, allocation takes its bytes from the
  front of the tail (\<open>km_inv\<close> is kept, blocks are disjoint, memory outside the tail is not
  touched); a freed block is never used again; and an exhausted heap does not report failure.
  The locale \<open>kernel_allocator\<close> is what the task manager and the message queues rely on.
\<close>

record kmm = machine +
  is_initialized :: bool
  start_address :: u32
  last_valid_address :: u32
  current_address :: u32

definition cbBlock :: u32 where "cbBlock = 8"

definition mb_is_available :: "mem \<Rightarrow> u32 \<Rightarrow> u32" where
  "mb_is_available m mb = load32 m mb"

definition mb_size :: "mem \<Rightarrow> u32 \<Rightarrow> u32" where
  "mb_size m mb = load32 m (mb + 4)"

definition set_is_available :: "u32 \<Rightarrow> u32 \<Rightarrow> 'a kmm_scheme \<Rightarrow> 'a kmm_scheme" where
  "set_is_available mb v s = s\<lparr>pmem := store32 (pmem s) mb v\<rparr>"

definition set_size :: "u32 \<Rightarrow> u32 \<Rightarrow> 'a kmm_scheme \<Rightarrow> 'a kmm_scheme" where
  "set_size mb v s = s\<lparr>pmem := store32 (pmem s) (mb + 4) v\<rparr>"

definition init_kernel_malloc :: "'a kmm_scheme \<Rightarrow> 'a kmm_scheme" where
  "init_kernel_malloc s =
     (let s = s\<lparr>start_address := 0x00200000\<rparr>;
          s = s\<lparr>last_valid_address := 0x00300000\<rparr>;
          s = s\<lparr>current_address := start_address s\<rparr>;
          s = s\<lparr>is_initialized := True\<rparr>;
          mb = current_address s;
          s = set_is_available mb 1 s
      in set_size mb (last_valid_address s - start_address s) s)"

text \<open>The allocating branch of the loop body: the pointer returned, the new cursor, the state.\<close>

definition take_block :: "u32 \<Rightarrow> u32 \<Rightarrow> 'a kmm_scheme \<Rightarrow> u32 \<times> u32 \<times> 'a kmm_scheme" where
  "take_block bytes cur s =
     (let curr_size = mb_size (pmem s) cur;
          mb = cur;
          s = set_is_available mb 0 s;
          s = set_size mb (bytes + cbBlock) s;
          s = s\<lparr>current_address := current_address s + cbBlock\<rparr>;
          ret = current_address s;
          s = s\<lparr>current_address := current_address s + bytes\<rparr>;
          cur = current_address s;
          s = (if curr_size \<noteq> mb_size (pmem s) mb
               then let s = set_is_available cur 1 s
                    in set_size cur (curr_size - mb_size (pmem s) mb) s
               else s)
      in (ret, cur, s))"

text \<open>
  The other branch: \<^verbatim>\<open>curr += curr->size\<close> on a \<^verbatim>\<open>struct memory_block *\<close> advances by
  \<^verbatim>\<open>size\<close> headers, eight bytes each.
\<close>

definition next_block :: "u32 \<Rightarrow> 'a kmm_scheme \<Rightarrow> u32" where
  "next_block cur s =
     (let cur = cur + cbBlock * mb_size (pmem s) cur
      in if cur = last_valid_address s then start_address s else cur)"

fun malloc_loop :: "nat \<Rightarrow> u32 \<Rightarrow> u32 \<Rightarrow> 'a kmm_scheme \<Rightarrow> kerror + (u32 \<times> 'a kmm_scheme)" where
  "malloc_loop 0 bytes cur s = Inl Hang"
| "malloc_loop (Suc n) bytes cur s =
     (let (ret, cur, s) =
            (if mb_is_available (pmem s) cur \<noteq> 0 \<and> mb_size (pmem s) cur \<ge> bytes + cbBlock
             then take_block bytes cur s
             else (0, next_block cur s, s))
      in if ret = 0 \<and> cur \<noteq> current_address s then malloc_loop n bytes cur s
         else Inr (ret, s))"

definition ensure_init :: "'a kmm_scheme \<Rightarrow> 'a kmm_scheme" where
  "ensure_init s = (if is_initialized s then s else init_kernel_malloc s)"

definition kernel_malloc :: "u32 \<Rightarrow> 'a kmm_scheme \<Rightarrow> kerror + (u32 \<times> 'a kmm_scheme)" where
  "kernel_malloc bytes s =
     (let s = ensure_init s
      in bindR (malloc_loop loop_fuel bytes (current_address s) s)
           (\<lambda>(ret, s). Inr (ret,
              if ret = 0 then printlnk ''malloc dun goofed, need better memory allocator'' s
              else s)))"

definition kernel_free :: "u32 \<Rightarrow> 'a kmm_scheme \<Rightarrow> 'a kmm_scheme" where
  "kernel_free ptr s = set_is_available (ptr - cbBlock) 1 s"


subsection \<open>The free tail\<close>

text \<open>
  While \<open>km_inv\<close> holds, \<^verbatim>\<open>current_address\<close> points to the header of one available block that
  reaches to the end of the megabyte.
\<close>

definition km_inv :: "'a kmm_scheme \<Rightarrow> bool" where
  "km_inv s \<longleftrightarrow> is_initialized s
     \<and> start_address s = 0x00200000 \<and> last_valid_address s = 0x00300000
     \<and> 0x00200000 \<le> unat (current_address s) \<and> unat (current_address s) < 0x00300000
     \<and> mb_is_available (pmem s) (current_address s) \<noteq> 0
     \<and> mb_size (pmem s) (current_address s) = 0x00300000 - current_address s"

definition km_room :: "'a kmm_scheme \<Rightarrow> nat" where
  "km_room s = 0x00300000 - unat (current_address s)"

lemma mb_header [simp]:
  "mb_is_available (store32 m a v) a = v"
  "mb_size (store32 m (a + 4) v) a = v"
  by (simp_all add: mb_is_available_def mb_size_def load32_store32_same)

lemma apart32_header: "apart32 (a + 4) a" "apart32 a (a + 4)"
  by (simp_all add: apart32_def)

lemma mb_header_frame [simp]:
  "mb_is_available (store32 m (a + 4) v) a = mb_is_available m a"
  "mb_size (store32 m a v) a = mb_size m a"
  by (simp_all add: mb_is_available_def mb_size_def load32_store32_apart apart32_header)

lemma mb_header_below:
  assumes "unat a + 8 \<le> unat b" and "unat b + 4 \<le> 2 ^ 32"
  shows "mb_size (store32 m b v) a = mb_size m a"
    and "mb_is_available (store32 m b v) a = mb_is_available m a"
proof -
  have "unat (a + 4) = unat a + 4" using assms by (subst unat_add_small) auto
  with assms show "mb_size (store32 m b v) a = mb_size m a"
    and "mb_is_available (store32 m b v) a = mb_is_available m a"
    by (auto simp: mb_size_def mb_is_available_def
        intro!: load32_store32_apart apart32_sym [OF apart32_below])
qed

lemma init_km_inv: "km_inv (init_kernel_malloc s)"
  using mb_header(2) [of "store32 (pmem s) 0x00200000 1" "0x00200000" "0x00100000"]
    mb_header_frame(1) [of "store32 (pmem s) 0x00200000 1" "0x00200000" "0x00100000"]
  by (simp add: km_inv_def init_kernel_malloc_def Let_def set_is_available_def set_size_def
      del: mb_header_frame)

lemma ensure_init_id [simp]: "km_inv s \<Longrightarrow> ensure_init s = s"
  by (simp add: ensure_init_def km_inv_def)

lemma ensure_init_km_inv: "\<not> is_initialized s \<or> km_inv s \<Longrightarrow> km_inv (ensure_init s)"
  by (auto simp: ensure_init_def init_km_inv)

subsection \<open>Allocation from the tail\<close>

text \<open>The memory after a block of \<open>bytes\<close> bytes has been taken at \<open>c\<close> with \<open>room\<close> bytes left.\<close>

definition taken_mem :: "mem \<Rightarrow> u32 \<Rightarrow> u32 \<Rightarrow> mem" where
  "taken_mem m c bytes =
     (let m = store32 (store32 m c 0) (c + 4) (bytes + 8);
          t = c + 8 + bytes
      in if t = 0x00300000 then m
         else store32 (store32 m t 1) (t + 4) (0x00300000 - t))"

lemma km_arith:
  assumes "km_inv s" and "unat bytes + 8 \<le> km_room s"
  shows "unat (bytes + 8) = unat bytes + 8"
    and "unat (current_address s + 8) = unat (current_address s) + 8"
    and "unat (current_address s + 8 + bytes) = unat (current_address s) + 8 + unat bytes"
    and "unat (0x00300000 - current_address s) = km_room s"
proof -
  have le: "unat (current_address s) + 8 + unat bytes \<le> 0x00300000"
    using assms by (auto simp: km_inv_def km_room_def)
  then show b: "unat (bytes + 8) = unat bytes + 8"
    and c: "unat (current_address s + 8) = unat (current_address s) + 8"
    by (auto intro!: trans [OF unat_add_small])
  show "unat (current_address s + 8 + bytes) = unat (current_address s) + 8 + unat bytes"
    using le c by (subst unat_add_small) auto
  show "unat (0x00300000 - current_address s) = km_room s"
    using assms(1) by (subst unat_diff_le) (auto simp: km_inv_def km_room_def)
qed

lemma take_block_tail:
  assumes "km_inv s" and "unat bytes + 8 \<le> km_room s"
  shows "take_block bytes (current_address s) s
    = (current_address s + 8, current_address s + 8 + bytes,
       s\<lparr>pmem := taken_mem (pmem s) (current_address s) bytes,
         current_address := current_address s + 8 + bytes\<rparr>)"
proof -
  note ar = km_arith [OF assms]
  let ?c = "current_address s" and ?t = "current_address s + 8 + bytes"
  have le: "unat ?c + 8 \<le> unat ?t" "unat ?t + 4 \<le> 2 ^ 32"
    using ar assms by (auto simp: km_inv_def km_room_def)
  have size: "mb_size (pmem s) ?c = 0x00300000 - ?c" using assms(1) by (simp add: km_inv_def)
  have eq: "0x00300000 - ?c = bytes + 8 \<longleftrightarrow> ?t = 0x00300000"
    by (auto simp: algebra_simps)
  have "mb_size (store32 (store32 (store32 (pmem s) ?c 0) (?c + 4) (bytes + 8)) ?t 1) ?c
      = bytes + 8"
    using mb_header_below [OF le] by simp
  moreover have "0x00300000 - ?c - (bytes + 8) = 0x00300000 - ?t" by simp
  ultimately show ?thesis
    using eq by (simp add: take_block_def Let_def set_is_available_def set_size_def cbBlock_def
        size taken_mem_def add.assoc)
qed

lemma kernel_malloc_tail:
  assumes "km_inv s" and "unat bytes + 8 \<le> km_room s"
  shows "kernel_malloc bytes s = Inr (current_address s + 8,
    s\<lparr>pmem := taken_mem (pmem s) (current_address s) bytes,
      current_address := current_address s + 8 + bytes\<rparr>)"
proof -
  note ar = km_arith [OF assms]
  have "current_address s + 8 \<noteq> 0"
    using ar(2) by (metis add_is_0 unat_0 zero_neq_numeral)
  moreover have "bytes + cbBlock \<le> 0x00300000 - current_address s"
    using ar assms(2) by (simp add: word_le_nat_alt cbBlock_def)
  ultimately have "malloc_loop (Suc n) bytes (current_address s) s = Inr (current_address s + 8,
      s\<lparr>pmem := taken_mem (pmem s) (current_address s) bytes,
        current_address := current_address s + 8 + bytes\<rparr>)" for n
    using assms(1) take_block_tail [OF assms] by (simp add: km_inv_def)
  from this [of "2 ^ 32 - 1", folded loop_fuel_Suc] show ?thesis
    using assms(1) \<open>current_address s + 8 \<noteq> 0\<close> by (simp add: kernel_malloc_def)
qed

lemma taken_mem_frame:
  assumes "unat c + 8 + unat bytes \<le> 0x00300000"
    and "unat a < unat c \<or> (unat c + 8 \<le> unat a \<and> unat a < unat c + 8 + unat bytes)
      \<or> unat c + 16 + unat bytes \<le> unat a"
  shows "taken_mem m c bytes a = m a"
proof -
  have u: "unat (c + 4) = unat c + 4" "unat (c + 8 + bytes) = unat c + 8 + unat bytes"
    "unat (c + 8 + bytes + 4) = unat c + 12 + unat bytes"
    using assms(1) by (auto simp: unat_word_ariths)
  with assms show ?thesis
    by (auto simp: taken_mem_def Let_def store32_outside)
qed

lemma taken_mem_header:
  assumes "unat c + 8 + unat bytes \<le> 0x00300000"
  shows "mb_is_available (taken_mem m c bytes) c = 0" and "mb_size (taken_mem m c bytes) c = bytes + 8"
proof -
  let ?t = "c + 8 + bytes"
  have u: "unat ?t = unat c + 8 + unat bytes" "unat (?t + 4) = unat c + 12 + unat bytes"
    using assms by (auto simp: unat_word_ariths)
  then have "unat c + 8 \<le> unat ?t" "unat ?t + 4 \<le> 2 ^ 32"
    "unat c + 8 \<le> unat (?t + 4)" "unat (?t + 4) + 4 \<le> 2 ^ 32" using assms by auto
  then show "mb_is_available (taken_mem m c bytes) c = 0"
    and "mb_size (taken_mem m c bytes) c = bytes + 8"
    by (simp_all add: taken_mem_def Let_def mb_header_below)
qed

lemma taken_mem_tail:
  assumes "t = c + 8 + bytes" and "t \<noteq> 0x00300000"
  shows "mb_is_available (taken_mem m c bytes) t = 1"
    and "mb_size (taken_mem m c bytes) t = 0x00300000 - t"
proof -
  define m' where "m' = store32 (store32 m c 0) (c + 4) (bytes + 8)"
  have "taken_mem m c bytes = store32 (store32 m' t 1) (t + 4) (0x00300000 - t)"
    using assms(2) unfolding taken_mem_def Let_def m'_def assms(1) by (simp only: if_False)
  then show "mb_is_available (taken_mem m c bytes) t = 1"
    and "mb_size (taken_mem m c bytes) t = 0x00300000 - t" by simp_all
qed

lemma kernel_malloc_km_inv:
  assumes "km_inv s" and "unat bytes + 8 < km_room s"
  shows "km_inv (s\<lparr>pmem := taken_mem (pmem s) (current_address s) bytes,
      current_address := current_address s + 8 + bytes\<rparr>)"
proof -
  have ar: "unat (current_address s + 8 + bytes) = unat (current_address s) + 8 + unat bytes"
    using assms by (intro km_arith(3)) auto
  then have "unat (current_address s + 8 + bytes) \<noteq> unat (0x00300000 :: u32)"
    using assms by (auto simp: km_room_def)
  then have "current_address s + 8 + bytes \<noteq> 0x00300000" by metis
  with ar assms show ?thesis
    using taken_mem_tail [OF refl, of "current_address s" bytes "pmem s"]
    unfolding km_inv_def km_room_def by simp
qed


lemmas km_state = km_inv_def km_room_def

subsection \<open>The allocator as an interface\<close>

definition block :: "u32 \<Rightarrow> u32 \<Rightarrow> u32 set" where
  "block p n = {a. unat p \<le> unat a \<and> unat a < unat p + unat n}"

text \<open>The addresses of the megabyte that lie before the free tail.\<close>

definition km_used :: "'a kmm_scheme \<Rightarrow> u32 set" where
  "km_used s = {a. 0x00200000 \<le> unat a \<and> unat a < unat (current_address s)}"

fun alloc_seq :: "(u32 \<Rightarrow> 's \<Rightarrow> kerror + (u32 \<times> 's)) \<Rightarrow> u32 list \<Rightarrow> 's \<Rightarrow> kerror + (u32 list \<times> 's)"
where
  "alloc_seq alloc [] s = Inr ([], s)"
| "alloc_seq alloc (n # ns) s =
     bindR (alloc n s) (\<lambda>(p, s). bindR (alloc_seq alloc ns s) (\<lambda>(ps, s). Inr (p # ps, s)))"

locale kernel_allocator =
  fixes alloc :: "u32 \<Rightarrow> 's \<Rightarrow> kerror + (u32 \<times> 's)"
    and inv :: "'s \<Rightarrow> bool"
    and room :: "'s \<Rightarrow> nat"
    and used :: "'s \<Rightarrow> u32 set"
    and bytes :: "'s \<Rightarrow> mem"
  assumes alloc_returns: "inv s \<Longrightarrow> unat n + 8 < room s \<Longrightarrow> \<exists>p s'. alloc n s = Inr (p, s')"
    and alloc_inv: "inv s \<Longrightarrow> unat n + 8 < room s \<Longrightarrow> alloc n s = Inr (p, s') \<Longrightarrow>
      inv s' \<and> room s' + unat n + 8 = room s"
    and alloc_fresh: "inv s \<Longrightarrow> unat n + 8 < room s \<Longrightarrow> alloc n s = Inr (p, s') \<Longrightarrow>
      p \<noteq> 0 \<and> block p n \<inter> used s = {} \<and> block p n \<union> used s \<subseteq> used s'"
    and alloc_keeps: "inv s \<Longrightarrow> unat n + 8 < room s \<Longrightarrow> alloc n s = Inr (p, s') \<Longrightarrow>
      a \<in> used s \<Longrightarrow> bytes s' a = bytes s a"
begin

lemma alloc_seq_spec:
  assumes "inv s" and "sum_list (map (\<lambda>n. unat n + 8) ns) < room s"
  shows "\<exists>ps s'. alloc_seq alloc ns s = Inr (ps, s') \<and> inv s' \<and> length ps = length ns
    \<and> used s \<subseteq> used s' \<and> (\<forall>a\<in>used s. bytes s' a = bytes s a)
    \<and> list_all2 (\<lambda>p n. p \<noteq> 0 \<and> block p n \<inter> used s = {} \<and> block p n \<subseteq> used s') ps ns
    \<and> sorted_wrt (\<lambda>(p, n) (q, m). block p n \<inter> block q m = {}) (zip ps ns)"
  using assms
proof (induction ns arbitrary: s)
  case Nil
  then show ?case by simp
next
  case (Cons n ns)
  then have n: "unat n + 8 < room s" by simp
  with Cons.prems obtain p s1 where p: "alloc n s = Inr (p, s1)"
    using alloc_returns by blast
  note inv1 = alloc_inv [OF Cons.prems(1) n p] and fresh = alloc_fresh [OF Cons.prems(1) n p]
    and keeps = alloc_keeps [OF Cons.prems(1) n p]
  have "sum_list (map (\<lambda>n. unat n + 8) ns) < room s1" using Cons.prems(2) inv1 by simp
  with Cons.IH [of s1] inv1 obtain ps s' where ps: "alloc_seq alloc ns s1 = Inr (ps, s')"
    "inv s'" "length ps = length ns" "used s1 \<subseteq> used s'" "\<forall>a\<in>used s1. bytes s' a = bytes s1 a"
    "list_all2 (\<lambda>p n. p \<noteq> 0 \<and> block p n \<inter> used s1 = {} \<and> block p n \<subseteq> used s') ps ns"
    "sorted_wrt (\<lambda>(p, n) (q, m). block p n \<inter> block q m = {}) (zip ps ns)"
    by blast
  have "list_all2 (\<lambda>p n. p \<noteq> 0 \<and> block p n \<inter> used s = {} \<and> block p n \<subseteq> used s') ps ns"
    using ps(6) by (rule list_all2_mono) (use fresh in blast)
  moreover have "block p n \<inter> block q m = {}" if "(q, m) \<in> set (zip ps ns)" for q m
    using ps(6) that fresh by (fastforce simp: list_all2_iff)
  ultimately show ?case
    using p ps(1-5,7) fresh keeps by (intro exI [of _ "p # ps"] exI [of _ s']) auto
qed

end

lemma km_block_used:
  assumes "km_inv s" and "unat n + 8 < km_room s"
  shows "current_address s + 8 \<noteq> 0" and "block (current_address s + 8) n \<inter> km_used s = {}"
    and "current_address s' = current_address s + 8 + n \<Longrightarrow>
      block (current_address s + 8) n \<union> km_used s \<subseteq> km_used s'"
proof -
  have ar: "unat (current_address s + 8) = unat (current_address s) + 8"
    "unat (current_address s + 8 + n) = unat (current_address s) + 8 + unat n"
    using assms km_arith(2,3) [of s n] by auto
  then show "current_address s + 8 \<noteq> 0" by (metis add_is_0 unat_0 zero_neq_numeral)
  show "block (current_address s + 8) n \<inter> km_used s = {}"
    using ar by (auto simp: block_def km_used_def)
  show "block (current_address s + 8) n \<union> km_used s \<subseteq> km_used s'"
    if "current_address s' = current_address s + 8 + n"
    using ar that assms(1) by (auto simp: block_def km_used_def km_inv_def)
qed

interpretation km: kernel_allocator
    "kernel_malloc :: u32 \<Rightarrow> 'a kmm_scheme \<Rightarrow> kerror + (u32 \<times> 'a kmm_scheme)"
    km_inv km_room km_used pmem
proof unfold_locales
  fix s s' :: "'a kmm_scheme" and n p a :: u32
  assume s: "km_inv s" and n: "unat n + 8 < km_room s"
  then have n': "unat n + 8 \<le> km_room s" by simp
  note eq = kernel_malloc_tail [OF s n'] and ar = km_arith [OF s n']
  show "\<exists>p s'. kernel_malloc n s = Inr (p, s')" using eq by blast
  assume "kernel_malloc n s = Inr (p, s')"
  with eq have p: "p = current_address s + 8"
    and s': "s' = s\<lparr>pmem := taken_mem (pmem s) (current_address s) n,
      current_address := current_address s + 8 + n\<rparr>" by auto
  show "km_inv s' \<and> km_room s' + unat n + 8 = km_room s"
    using kernel_malloc_km_inv [OF s n] ar(3) n by (auto simp: s' km_room_def)
  show "p \<noteq> 0 \<and> block p n \<inter> km_used s = {} \<and> block p n \<union> km_used s \<subseteq> km_used s'"
    using km_block_used(1,2) [OF s n] km_block_used(3) [OF s n, of s'] by (simp add: p s')
  assume "a \<in> km_used s"
  then show "pmem s' a = pmem s a"
    using n s by (auto simp: s' km_used_def km_state intro!: taken_mem_frame)
qed

subsection \<open>Freeing\<close>

lemma kernel_free_km_inv:
  assumes "km_inv s" and "unat (ptr - 8) + 8 \<le> unat (current_address s)"
  shows "km_inv (kernel_free ptr s) \<and> km_room (kernel_free ptr s) = km_room s
    \<and> current_address (kernel_free ptr s) = current_address s"
proof -
  have "apart32 (ptr - 8) (current_address s)" "apart32 (ptr - 8) (current_address s + 4)"
    using assms by (auto simp: km_inv_def unat_word_ariths intro!: apart32_below)
  with assms(1) show ?thesis
    by (simp add: kernel_free_def set_is_available_def cbBlock_def km_state
        mb_is_available_def mb_size_def load32_store32_apart)
qed

subsection \<open>An exhausted heap\<close>

lemma malloc_loop_stuck:
  assumes "load32 (pmem s) c = 0" and "load32 (pmem s) (c + 4) = 0"
    and "c \<noteq> last_valid_address s" and "c \<noteq> current_address s"
  shows "malloc_loop n bytes c s = Inl Hang"
  using assms
  by (induction n) (simp_all add: mb_is_available_def mb_size_def next_block_def Let_def)

subsection \<open>Properties\<close>

definition km_boot :: kmm where
  "km_boot = init_kernel_malloc
     \<lparr>con = \<lparr>vram = (\<lambda>_. 0), cursorX = 0, cursorY = 0\<rparr>, pmem = (\<lambda>_. 0), iflag = False,
      device8 = (\<lambda>_ _. 0), device16 = (\<lambda>_ _. 0), ptrace = [], is_initialized = False,
      start_address = 0, last_valid_address = 0, current_address = 0\<rparr>"

lemma km_boot_facts [simp]:
  "km_inv km_boot" "current_address km_boot = 0x00200000" "km_room km_boot = 0x00100000"
  by (simp_all add: km_boot_def init_km_inv)
    (simp_all add: init_kernel_malloc_def Let_def set_is_available_def set_size_def km_room_def)

text \<open>While the free tail of the kernel heap has room, kernel_malloc returns the address
  behind a new header at the front of the tail, records the size there and marks the block
  taken, leaves the block's bytes and all earlier blocks untouched, and shortens the tail.\<close>

theorem kernel_malloc_takes_from_tail:
  assumes "km_inv s" and "unat n + 8 < km_room s"
  shows "\<exists>s'. kernel_malloc n s = Inr (current_address s + 8, s')
    \<and> km_inv s' \<and> km_room s' + unat n + 8 = km_room s
    \<and> s' = s\<lparr>pmem := pmem s', current_address := current_address s + 8 + n\<rparr>
    \<and> mb_is_available (pmem s') (current_address s) = 0
    \<and> mb_size (pmem s') (current_address s) = n + 8
    \<and> (\<forall>a\<in>km_used s \<union> block (current_address s + 8) n. pmem s' a = pmem s a)"
proof -
  have le: "unat n + 8 \<le> km_room s" using assms(2) by simp
  have c: "unat (current_address s) + 8 + unat n \<le> 0x00300000"
    using assms by (auto simp: km_state)
  have fr: "taken_mem (pmem s) (current_address s) n a = pmem s a"
    if "a \<in> km_used s \<union> block (current_address s + 8) n" for a
    using that c km_arith(2) [OF assms(1) le]
    by (intro taken_mem_frame) (auto simp: km_used_def block_def)
  show ?thesis
    using kernel_malloc_tail [OF assms(1) le] kernel_malloc_km_inv [OF assms]
      km_arith(3) [OF assms(1) le] assms(2) taken_mem_header [OF c] fr
    by (auto simp: km_room_def)
qed

lemma kernel_malloc_takes_from_tail_witness:
  "\<exists>s'. kernel_malloc 40 km_boot = Inr (0x00200008, s') \<and> km_inv s'"
  using kernel_malloc_takes_from_tail [of km_boot 40] by auto

text \<open>C17: Any sequence of allocations that fits into the kernel heap succeeds, and the blocks it
  returns are not null, pairwise disjoint and disjoint from everything allocated before.\<close>

theorem kernel_malloc_blocks_disjoint:
  assumes "km_inv s" and "sum_list (map (\<lambda>n. unat n + 8) ns) < km_room s"
  shows "\<exists>ps s'. alloc_seq kernel_malloc ns s = Inr (ps, s') \<and> km_inv s'
    \<and> list_all2 (\<lambda>p n. p \<noteq> 0 \<and> block p n \<inter> km_used s = {}) ps ns
    \<and> sorted_wrt (\<lambda>(p, n) (q, m). block p n \<inter> block q m = {}) (zip ps ns)"
  using km.alloc_seq_spec [OF assms] by (auto elim: list_all2_mono)

lemma kernel_malloc_blocks_disjoint_witness:
  "\<exists>p q r s'. alloc_seq kernel_malloc [40, 12, 3] km_boot = Inr ([p, q, r], s')
    \<and> block p 40 \<inter> block q 12 = {} \<and> block q 12 \<inter> block r 3 = {}"
proof -
  have "sum_list (map (\<lambda>n. unat n + 8) [40, 12, 3 :: u32]) < km_room km_boot" by simp
  from kernel_malloc_blocks_disjoint [OF km_boot_facts(1) this]
  show ?thesis by (auto simp: list_all2_Cons2)
qed



text \<open>C34: When the free tail is too small, the search steps eight times the tail's size past it
  (pointer arithmetic on whole headers) instead of to the end of the region; if it lands on
  zero memory, kernel_malloc never returns, rather than reporting failure.\<close>

theorem kernel_malloc_exhausted_hangs:
  assumes "km_inv s" and "km_room s < unat n + 8" and "unat n + 8 < 2 ^ 32"
    and "load32 (pmem s) (current_address s + 8 * (0x00300000 - current_address s)) = 0"
    and "load32 (pmem s) (current_address s + 8 * (0x00300000 - current_address s) + 4) = 0"
  shows "kernel_malloc n s = Inl Hang"
proof -
  let ?r = "0x00300000 - current_address s :: u32"
  let ?c = "current_address s + 8 * ?r"
  have r: "unat ?r = km_room s" "0 < km_room s" "km_room s \<le> 0x00100000"
    using assms(1) km_arith(4) [OF assms(1), of 0] by (auto simp: km_state unat_diff_le)
  then have "unat (8 * ?r) = 8 * km_room s" by (subst unat_mult_small) (simp_all only:, simp_all)
  then have c: "unat ?c = unat (current_address s) + 8 * km_room s"
    using r assms(1) by (subst unat_add_small) (auto simp: km_state)
  then have "unat ?c \<noteq> unat (0x00300000 :: u32)" "unat ?c \<noteq> unat (current_address s)"
    using r assms(1) by (auto simp: km_state)
  then have ne: "?c \<noteq> 0x00300000" "?c \<noteq> current_address s" by metis+
  have small: "\<not> n + cbBlock \<le> mb_size (pmem s) (current_address s)"
    using assms(1-3) r by (auto simp: km_inv_def cbBlock_def word_le_nat_alt unat_word_ariths)
  have "next_block (current_address s) s = ?c"
    using assms(1) ne(1) by (simp add: next_block_def km_inv_def cbBlock_def Let_def)
  then have "malloc_loop (Suc k) n (current_address s) s = Inl Hang" for k
    using small ne assms(1,4,5) malloc_loop_stuck [of s ?c k n] by (simp add: km_inv_def)
  from this [of "2 ^ 32 - 1", folded loop_fuel_Suc] assms(1) show ?thesis
    by (simp add: kernel_malloc_def)
qed

lemma kernel_malloc_exhausted_hangs_witness: "kernel_malloc 0x00200000 km_boot = Inl Hang"
proof (rule kernel_malloc_exhausted_hangs)
  have "load32 (pmem km_boot) 0x00A00000 = 0" "load32 (pmem km_boot) 0x00A00004 = 0"
    by (simp_all add: km_boot_def init_kernel_malloc_def Let_def set_is_available_def set_size_def
        load32_def store32_def)
  then show "load32 (pmem km_boot)
      (current_address km_boot + 8 * (0x00300000 - current_address km_boot)) = 0"
    and "load32 (pmem km_boot)
      (current_address km_boot + 8 * (0x00300000 - current_address km_boot) + 4) = 0"
    by simp_all
qed simp_all

end
