(* ===== verification/Pmm.thy ===== *)
theory Pmm
  imports KMalloc
begin

text \<open>
  \<^verbatim>\<open>code/mem/pmm.c\<close>: the physical page allocator. Before paging it hands out the page after
  the last one; afterwards it keeps one bit per page in the bitmap page and the index of the
  first free page. C's \<^verbatim>\<open>int\<close> indices are never negative in this file and are \<open>nat\<close> here.
  \<^verbatim>\<open>map_pmm_to_virtual_space\<close> calls \<^verbatim>\<open>map\<close> and is in theory \<open>Vmm\<close>.

  Proved here: the allocator implements a set of free pages (\<open>free_set\<close>): allocation takes
  the least free page out of it or panics when it is empty, freeing puts a page back. The
  locale \<open>page_allocator\<close> is that contract, for the clients.
\<close>

definition MEM_UNIT_SIZE :: u32 where "MEM_UNIT_SIZE = 0x00001000"
definition MEM_SIZE :: u32 where "MEM_SIZE = 0x00800000"
definition PAGE_MASK :: u32 where "PAGE_MASK = 0xFFFFF000"

record pmm = kmm +
  pmm_location :: u32
  first_free_index :: nat
  last_available_index :: nat
  bitmap :: u32
  pmm_paging_active :: bool

definition bitmap_byte :: "nat \<Rightarrow> 'a pmm_scheme \<Rightarrow> u32" where
  "bitmap_byte b s = bitmap s + of_nat (b div 8)"

definition bitmap_set_bit :: "nat \<Rightarrow> 'a pmm_scheme \<Rightarrow> 'a pmm_scheme" where
  "bitmap_set_bit b s =
     s\<lparr>pmem := (pmem s)(bitmap_byte b s := pmem s (bitmap_byte b s) OR push_bit (b mod 8) 1)\<rparr>"

definition bitmap_clear_bit :: "nat \<Rightarrow> 'a pmm_scheme \<Rightarrow> 'a pmm_scheme" where
  "bitmap_clear_bit b s =
     s\<lparr>pmem := (pmem s)(bitmap_byte b s :=
        pmem s (bitmap_byte b s) AND NOT (push_bit (b mod 8) 1))\<rparr>"

definition bitmap_get_bit :: "nat \<Rightarrow> 'a pmm_scheme \<Rightarrow> u8" where
  "bitmap_get_bit b s = pmem s (bitmap_byte b s) AND push_bit (b mod 8) 1"

definition init_pmm :: "u32 \<Rightarrow> 'a pmm_scheme \<Rightarrow> 'a pmm_scheme" where
  "init_pmm start s =
     (let s = s\<lparr>pmm_location := (start + 0x1000) AND PAGE_MASK\<rparr>
      in s\<lparr>bitmap := pmm_location s\<rparr>)"

text \<open>\<^verbatim>\<open>while (first != last && get_bit(++first) != 0);\<close>\<close>

fun skip_taken :: "nat \<Rightarrow> 'a pmm_scheme \<Rightarrow> kerror + 'a pmm_scheme" where
  "skip_taken 0 s = Inl Hang"
| "skip_taken (Suc n) s =
     (if first_free_index s \<noteq> last_available_index s
      then let s = s\<lparr>first_free_index := first_free_index s + 1\<rparr>
           in if bitmap_get_bit (first_free_index s) s \<noteq> 0 then skip_taken n s else Inr s
      else Inr s)"

definition pmm_alloc_page :: "'a pmm_scheme \<Rightarrow> kerror + (u32 \<times> 'a pmm_scheme)" where
  "pmm_alloc_page s =
     (if pmm_paging_active s
      then if first_free_index s = last_available_index s then panic ''Error:out of memory.'' s
           else let s = bitmap_set_bit (first_free_index s) s;
                    stack = bitmap s + of_nat (first_free_index s) * MEM_UNIT_SIZE
                in bindR (skip_taken loop_fuel s) (\<lambda>s. Inr (stack, s))
      else let s = s\<lparr>pmm_location := pmm_location s + 0x1000\<rparr> in Inr (pmm_location s, s))"

definition pmm_get_location :: "'a pmm_scheme \<Rightarrow> u32" where
  "pmm_get_location s = bitmap s"

definition pmm_free_page :: "u32 \<Rightarrow> 'a pmm_scheme \<Rightarrow> 'a pmm_scheme" where
  "pmm_free_page page_address s =
     (let s = printk ''free page() addr: ('' s;
          s = printhexk page_address s;
          addr_on_bitmap = page_address - bitmap s;
          bitmap_index = unat (addr_on_bitmap div MEM_UNIT_SIZE);
          s = printk '') bitmap_index ='' s;
          s = printintk (of_nat bitmap_index) s;
          s = bitmap_clear_bit bitmap_index s;
          s = (if first_free_index s > bitmap_index then s\<lparr>first_free_index := bitmap_index\<rparr>
               else s);
          s = printlnk '''' s;
          s = printk ''first_free_index = '' s;
          s = printintk (of_nat (first_free_index s)) s
      in printlnk '''' s)"

subsection \<open>Bits of the bitmap\<close>

definition taken :: "nat \<Rightarrow> 'a pmm_scheme \<Rightarrow> bool" where
  "taken i s \<longleftrightarrow> bitmap_get_bit i s \<noteq> 0"

lemma and_bit_iff: "(x AND push_bit k 1 \<noteq> 0) = bit x k" if "k < 8" for x :: u8
  using and_exp_eq_0_iff_not_bit [of x k] by simp

lemma taken_bit: "taken i s \<longleftrightarrow> bit (pmem s (bitmap s + of_nat (i div 8))) (i mod 8)"
  by (simp add: taken_def bitmap_get_bit_def bitmap_byte_def and_bit_iff del: push_bit_of_1)

lemma bitmap_byte_inj:
  "i < 2 ^ 32 \<Longrightarrow> j < 2 ^ 32 \<Longrightarrow> bitmap_byte i s = bitmap_byte j s \<longleftrightarrow> i div 8 = j div 8"
  by (simp add: bitmap_byte_def of_nat_u32_inj)

lemma same_bit: "i div 8 = j div 8 \<Longrightarrow> i mod 8 = j mod 8 \<longleftrightarrow> i = (j :: nat)"
  by (metis div_mult_mod_eq)

lemma taken_set_bit:
  assumes "i < 2 ^ 32" and "j < 2 ^ 32"
  shows "taken j (bitmap_set_bit i s) \<longleftrightarrow> j = i \<or> taken j s"
proof (cases "i div 8 = j div 8")
  case True
  with same_bit [OF True] show ?thesis
    by (auto simp: taken_bit bitmap_set_bit_def bitmap_byte_def bit_simps)
next
  case False
  then have "bitmap_byte j s \<noteq> bitmap_byte i s" using assms by (simp add: bitmap_byte_inj)
  with False show ?thesis by (auto simp: taken_bit bitmap_set_bit_def bitmap_byte_def)
qed

lemma taken_clear_bit:
  assumes "i < 2 ^ 32" and "j < 2 ^ 32"
  shows "taken j (bitmap_clear_bit i s) \<longleftrightarrow> j \<noteq> i \<and> taken j s"
proof (cases "i div 8 = j div 8")
  case True
  with same_bit [OF True] show ?thesis
    by (auto simp: taken_bit bitmap_clear_bit_def bitmap_byte_def bit_simps)
next
  case False
  then have "bitmap_byte j s \<noteq> bitmap_byte i s" using assms by (simp add: bitmap_byte_inj)
  with False show ?thesis by (auto simp: taken_bit bitmap_clear_bit_def bitmap_byte_def)
qed

lemma taken_update [simp]:
  "taken i (s\<lparr>first_free_index := f\<rparr>) = taken i s"
  "taken i (s\<lparr>con := c\<rparr>) = taken i s"
  "taken i (s\<lparr>last_available_index := f\<rparr>) = taken i s"
  "taken i (s\<lparr>pmm_paging_active := b\<rparr>) = taken i s"
  by (simp_all add: taken_bit)

subsection \<open>The search for the next free page\<close>

lemma skip_taken_spec:
  assumes "first_free_index s < last_available_index s"
    and "last_available_index s - first_free_index s < n"
  shows "\<exists>f. skip_taken n s = Inr (s\<lparr>first_free_index := f\<rparr>)
    \<and> first_free_index s < f \<and> f \<le> last_available_index s
    \<and> (\<forall>i. first_free_index s < i \<and> i < f \<longrightarrow> taken i s)
    \<and> (f < last_available_index s \<longrightarrow> \<not> taken f s)"
  using assms
proof (induction n arbitrary: s)
  case 0
  then show ?case by simp
next
  case (Suc n)
  define f1 where "f1 = first_free_index s + 1"
  define s1 where "s1 = s\<lparr>first_free_index := f1\<rparr>"
  have step: "skip_taken (Suc n) s = (if taken f1 s then skip_taken n s1 else Inr s1)"
    using Suc.prems(1) by (simp add: taken_def f1_def s1_def Let_def bitmap_get_bit_def bitmap_byte_def)
  show ?case
  proof (cases "taken f1 s")
    case False
    with step Suc.prems(1) show ?thesis
      by (intro exI [of _ f1]) (auto simp: s1_def f1_def)
  next
    case True
    show ?thesis
    proof (cases "f1 = last_available_index s")
      case True
      have "0 < n" using Suc.prems by simp
      with True have "skip_taken n s1 = Inr s1" by (cases n) (simp_all add: s1_def)
      with step True \<open>taken f1 s\<close> show ?thesis
        by (intro exI [of _ f1]) (auto simp: s1_def f1_def)
    next
      case False
      with Suc.prems have "first_free_index s1 < last_available_index s1"
        "last_available_index s1 - first_free_index s1 < n" by (auto simp: s1_def f1_def)
      from Suc.IH [OF this] obtain f where f: "skip_taken n s1 = Inr (s\<lparr>first_free_index := f\<rparr>)"
        "f1 < f" "f \<le> last_available_index s" "\<forall>i. f1 < i \<and> i < f \<longrightarrow> taken i s"
        "f < last_available_index s \<longrightarrow> \<not> taken f s" by (auto simp: s1_def)
      have "taken i s" if "first_free_index s < i" "i < f" for i
        using that f(4) True by (cases "i = f1") (auto simp: f1_def)
      with f step True show ?thesis by (intro exI [of _ f]) (auto simp: f1_def)
    qed
  qed
qed

subsection \<open>The set of free pages\<close>

definition PAGES :: nat where "PAGES = 2048"

definition free_set :: "'a pmm_scheme \<Rightarrow> nat set" where
  "free_set s = {i. first_free_index s \<le> i \<and> i < last_available_index s \<and> \<not> taken i s}"

definition pmm_inv :: "'a pmm_scheme \<Rightarrow> bool" where
  "pmm_inv s \<longleftrightarrow> pmm_paging_active s \<and> last_available_index s = PAGES
     \<and> 1 \<le> first_free_index s \<and> first_free_index s \<le> PAGES
     \<and> (\<forall>i. 1 \<le> i \<and> i < first_free_index s \<longrightarrow> taken i s)
     \<and> (first_free_index s < PAGES \<longrightarrow> \<not> taken (first_free_index s) s)
     \<and> unat (bitmap s) + 4096 * (PAGES + 1) \<le> 2 ^ 32 \<and> 4096 dvd unat (bitmap s)"

definition page_of :: "'a pmm_scheme \<Rightarrow> nat \<Rightarrow> u32" where
  "page_of s i = bitmap s + of_nat i * MEM_UNIT_SIZE"

lemma free_set_eq:
  "pmm_inv s \<Longrightarrow> free_set s = {i. 1 \<le> i \<and> i < PAGES \<and> \<not> taken i s}"
  by (auto simp: free_set_def pmm_inv_def not_less)

lemma first_free_in: "pmm_inv s \<Longrightarrow> first_free_index s < PAGES \<Longrightarrow> first_free_index s \<in> free_set s"
  by (auto simp: pmm_inv_def free_set_def)

lemma free_set_empty_iff: "pmm_inv s \<Longrightarrow> free_set s = {} \<longleftrightarrow> first_free_index s = PAGES"
  using first_free_in [of s] by (auto simp: pmm_inv_def free_set_def)

lemma first_free_least: "i \<in> free_set s \<Longrightarrow> first_free_index s \<le> i"
  by (simp add: free_set_def)

lemma unat_page_of:
  assumes "pmm_inv s" and "i \<le> PAGES"
  shows "unat (page_of s i) = unat (bitmap s) + 4096 * i"
proof -
  have i: "i \<le> 2048" using assms(2) by (simp add: PAGES_def)
  then have "unat (of_nat i * MEM_UNIT_SIZE) = 4096 * i"
    by (subst unat_mult_small) (simp_all add: MEM_UNIT_SIZE_def unat_of_nat_u32)
  with assms i show ?thesis
    unfolding page_of_def by (subst unat_add_small) (auto simp: pmm_inv_def PAGES_def)
qed

lemma page_of_inj:
  assumes "pmm_inv s" and "i \<le> PAGES" and "j \<le> PAGES"
  shows "page_of s i = page_of s j \<longleftrightarrow> i = j"
  unfolding word_unat_eq_iff unat_page_of [OF assms(1,2)] unat_page_of [OF assms(1,3)] by simp

lemma set_bit_fields [simp]:
  "first_free_index (bitmap_set_bit b s) = first_free_index s"
  "last_available_index (bitmap_set_bit b s) = last_available_index s"
  "bitmap (bitmap_set_bit b s) = bitmap s"
  "pmm_paging_active (bitmap_set_bit b s) = pmm_paging_active s"
  by (simp_all add: bitmap_set_bit_def)

lemma pmm_alloc_active:
  assumes "pmm_inv s" and "first_free_index s < PAGES"
  obtains f where
    "pmm_alloc_page s = Inr (page_of s (first_free_index s),
       (bitmap_set_bit (first_free_index s) s)\<lparr>first_free_index := f\<rparr>)"
    "pmm_inv ((bitmap_set_bit (first_free_index s) s)\<lparr>first_free_index := f\<rparr>)"
    "free_set ((bitmap_set_bit (first_free_index s) s)\<lparr>first_free_index := f\<rparr>)
       = free_set s - {first_free_index s}"
proof -
  let ?i = "first_free_index s" and ?t = "bitmap_set_bit (first_free_index s) s"
  have last: "last_available_index s = PAGES" using assms(1) by (simp add: pmm_inv_def)
  have "PAGES - ?i < loop_fuel" by (simp add: PAGES_def loop_fuel_def)
  with skip_taken_spec [of ?t loop_fuel] assms(2) last obtain f where f: "skip_taken loop_fuel ?t = Inr (?t\<lparr>first_free_index := f\<rparr>)"
    "?i < f" "f \<le> PAGES" "\<forall>j. ?i < j \<and> j < f \<longrightarrow> taken j ?t" "f < PAGES \<longrightarrow> \<not> taken f ?t"
    by auto
  have tk: "taken j ?t \<longleftrightarrow> j = ?i \<or> taken j s" if "j \<le> PAGES" for j
    using that assms(2) by (intro taken_set_bit) (auto simp: PAGES_def)
  have "pmm_alloc_page s = Inr (page_of s ?i, ?t\<lparr>first_free_index := f\<rparr>)"
    using assms last f(1) by (simp add: pmm_alloc_page_def pmm_inv_def page_of_def Let_def)
  moreover have inv: "pmm_inv (?t\<lparr>first_free_index := f\<rparr>)"
    unfolding pmm_inv_def
  proof (intro conjI allI impI)
    fix j assume j: "1 \<le> j \<and> j < first_free_index (?t\<lparr>first_free_index := f\<rparr>)"
    with f(3,4) tk assms(1) have "taken j ?t"
      by (cases "j < ?i") (auto simp: pmm_inv_def)
    then show "taken j (?t\<lparr>first_free_index := f\<rparr>)" by simp
  qed (use f assms(1) in \<open>auto simp: pmm_inv_def\<close>)
  moreover have "free_set (?t\<lparr>first_free_index := f\<rparr>) = free_set s - {?i}"
    using tk f(2) by (auto simp: free_set_eq [OF inv] free_set_eq [OF assms(1)])
  ultimately show ?thesis by (rule that)
qed

lemma pmm_alloc_exhausted:
  assumes "pmm_inv s" and "first_free_index s = PAGES"
  shows "pmm_alloc_page s = panic ''Error:out of memory.'' s"
  using assms by (simp add: pmm_alloc_page_def pmm_inv_def)

lemma pmm_free_eq:
  assumes "pmm_inv s" and "i \<le> PAGES"
  shows "\<exists>c. pmm_free_page (page_of s i) s
    = (bitmap_clear_bit i s)\<lparr>con := c, first_free_index := min (first_free_index s) i\<rparr>"
proof -
  have i: "i \<le> 2048" using assms(2) by (simp add: PAGES_def)
  then have "unat (of_nat i * MEM_UNIT_SIZE) = i * 4096"
    by (subst unat_mult_small) (simp_all add: MEM_UNIT_SIZE_def unat_of_nat_u32)
  then have idx: "unat ((page_of s i - bitmap s) div MEM_UNIT_SIZE) = i"
    by (simp add: page_of_def unat_div MEM_UNIT_SIZE_def)
  show ?thesis
    by (intro exI [of _ "con (pmm_free_page (page_of s i) s)"], rule pmm.equality)
      (simp_all add: pmm_free_page_def print_defs Let_def idx bitmap_clear_bit_def
        bitmap_byte_def min_def)
qed

lemma pmm_free_inv:
  assumes "pmm_inv s" and "1 \<le> i" and "i < PAGES"
  shows "pmm_inv (pmm_free_page (page_of s i) s)
    \<and> free_set (pmm_free_page (page_of s i) s) = insert i (free_set s)
    \<and> bitmap (pmm_free_page (page_of s i) s) = bitmap s"
proof -
  let ?t = "bitmap_clear_bit i s" and ?f = "min (first_free_index s) i"
  obtain c where c: "pmm_free_page (page_of s i) s = ?t\<lparr>con := c, first_free_index := ?f\<rparr>"
    using pmm_free_eq [OF assms(1), of i] assms(3) by auto
  have tk: "taken j ?t \<longleftrightarrow> j \<noteq> i \<and> taken j s" if "j \<le> PAGES" for j
    using that assms(3) by (intro taken_clear_bit) (auto simp: PAGES_def)
  have fields: "last_available_index ?t = last_available_index s" "bitmap ?t = bitmap s"
    "pmm_paging_active ?t = pmm_paging_active s" by (simp_all add: bitmap_clear_bit_def)
  have inv: "pmm_inv (?t\<lparr>con := c, first_free_index := ?f\<rparr>)"
    using assms tk by (auto simp: pmm_inv_def fields min_def not_le)
  moreover have "free_set (?t\<lparr>con := c, first_free_index := ?f\<rparr>) = insert i (free_set s)"
    using tk assms(2,3) by (auto simp: free_set_eq [OF inv] free_set_eq [OF assms(1)])
  ultimately show ?thesis by (simp add: c fields)
qed

subsection \<open>The allocator as an interface\<close>

fun alloc_pages :: "('s \<Rightarrow> kerror + (u32 \<times> 's)) \<Rightarrow> nat \<Rightarrow> 's \<Rightarrow> kerror + (u32 list \<times> 's)" where
  "alloc_pages alloc 0 s = Inr ([], s)"
| "alloc_pages alloc (Suc n) s =
     bindR (alloc s) (\<lambda>(p, s). bindR (alloc_pages alloc n s) (\<lambda>(ps, s). Inr (p # ps, s)))"

locale page_allocator =
  fixes alloc :: "'s \<Rightarrow> kerror + (u32 \<times> 's)"
    and free :: "u32 \<Rightarrow> 's \<Rightarrow> 's"
    and inv :: "'s \<Rightarrow> bool"
    and free_pages :: "'s \<Rightarrow> u32 set"
    and managed :: "'s \<Rightarrow> u32 set"
  assumes alloc_page: "inv s \<Longrightarrow> free_pages s \<noteq> {} \<Longrightarrow>
      \<exists>p s'. alloc s = Inr (p, s') \<and> inv s' \<and> p \<in> free_pages s
        \<and> free_pages s' = free_pages s - {p} \<and> managed s' = managed s"
    and alloc_empty: "inv s \<Longrightarrow> free_pages s = {} \<Longrightarrow> \<exists>e. alloc s = Inl e"
    and free_page: "inv s \<Longrightarrow> p \<in> managed s \<Longrightarrow>
      inv (free p s) \<and> free_pages (free p s) = insert p (free_pages s)
        \<and> managed (free p s) = managed s"
    and free_managed: "inv s \<Longrightarrow> free_pages s \<subseteq> managed s"
    and managed_finite: "inv s \<Longrightarrow> finite (managed s)"
begin

lemma free_pages_finite: "inv s \<Longrightarrow> finite (free_pages s)"
  using free_managed managed_finite finite_subset by blast

lemma alloc_pages_spec:
  assumes "inv s" and "n \<le> card (free_pages s)"
  shows "\<exists>ps s'. alloc_pages alloc n s = Inr (ps, s') \<and> inv s' \<and> length ps = n \<and> distinct ps
    \<and> set ps \<subseteq> free_pages s \<and> free_pages s' = free_pages s - set ps \<and> managed s' = managed s"
  using assms
proof (induction n arbitrary: s)
  case 0
  then show ?case by simp
next
  case (Suc n)
  then have "free_pages s \<noteq> {}" by auto
  with alloc_page [OF Suc.prems(1)] obtain p s1 where p: "alloc s = Inr (p, s1)" "inv s1"
    "p \<in> free_pages s" "free_pages s1 = free_pages s - {p}" "managed s1 = managed s" by blast
  then have "n \<le> card (free_pages s1)"
    using Suc.prems free_pages_finite [OF Suc.prems(1)] by (simp add: card_Diff_singleton)
  from Suc.IH [OF p(2) this] obtain ps s' where "alloc_pages alloc n s1 = Inr (ps, s')" "inv s'"
    "length ps = n" "distinct ps" "set ps \<subseteq> free_pages s1"
    "free_pages s' = free_pages s1 - set ps" "managed s' = managed s1" by blast
  with p show ?case by (intro exI [of _ "p # ps"] exI [of _ s']) auto
qed

lemma alloc_pages_too_many:
  assumes "inv s" and "card (free_pages s) < n"
  shows "\<exists>e. alloc_pages alloc n s = Inl e"
  using assms
proof (induction n arbitrary: s)
  case 0
  then show ?case by simp
next
  case (Suc n)
  show ?case
  proof (cases "free_pages s = {}")
    case True
    with alloc_empty [OF Suc.prems(1)] show ?thesis by auto
  next
    case False
    with alloc_page [OF Suc.prems(1)] obtain p s1 where p: "alloc s = Inr (p, s1)" "inv s1"
      "p \<in> free_pages s" "free_pages s1 = free_pages s - {p}" by blast
    moreover have "0 < card (free_pages s)"
      using False free_pages_finite [OF Suc.prems(1)] by (simp add: card_gt_0_iff)
    ultimately have "card (free_pages s1) < n"
      using Suc.prems(2) by (simp add: card_Diff_singleton)
    with Suc.IH [OF p(2)] p(1) show ?thesis by auto
  qed
qed

lemma free_all:
  assumes "inv s" and "set ps \<subseteq> managed s"
  shows "inv (fold free ps s) \<and> free_pages (fold free ps s) = free_pages s \<union> set ps
    \<and> managed (fold free ps s) = managed s"
  using assms
proof (induction ps arbitrary: s)
  case Nil
  then show ?case by simp
next
  case (Cons p ps)
  with free_page [of s p] Cons.IH [of "free p s"] show ?case by auto
qed

lemma alloc_free_roundtrip:
  assumes "inv s" and "alloc_pages alloc n s = Inr (ps, s')"
  shows "free_pages (fold free ps s') = free_pages s"
proof -
  have "n \<le> card (free_pages s)"
    using alloc_pages_too_many [OF assms(1), of n] assms(2) by (auto simp: not_less [symmetric])
  from alloc_pages_spec [OF assms(1) this] assms(2)
  have *: "inv s'" "set ps \<subseteq> free_pages s" "free_pages s' = free_pages s - set ps"
    "managed s' = managed s" by auto
  then have "set ps \<subseteq> managed s'" using free_managed [OF assms(1)] by blast
  from free_all [OF *(1) this] * show ?thesis by auto
qed

end

definition free_pages :: "'a pmm_scheme \<Rightarrow> u32 set" where
  "free_pages s = page_of s ` free_set s"

definition managed_pages :: "'a pmm_scheme \<Rightarrow> u32 set" where
  "managed_pages s = page_of s ` {1..<PAGES}"

lemma free_set_bounded: "pmm_inv s \<Longrightarrow> free_set s \<subseteq> {1..<PAGES}"
  by (auto simp: free_set_eq)

lemma page_of_inj_on: "pmm_inv s \<Longrightarrow> inj_on (page_of s) {..PAGES}"
  by (auto simp: inj_on_def page_of_inj)

interpretation pages: page_allocator
    "pmm_alloc_page :: 'a pmm_scheme \<Rightarrow> kerror + (u32 \<times> 'a pmm_scheme)"
    pmm_free_page pmm_inv free_pages managed_pages
proof unfold_locales
  fix s :: "'a pmm_scheme" and p :: u32
  assume inv: "pmm_inv s"
  show "finite (managed_pages s)" by (simp add: managed_pages_def)
  show "free_pages s \<subseteq> managed_pages s"
    using free_set_bounded [OF inv] by (auto simp: free_pages_def managed_pages_def)
  show "\<exists>e. pmm_alloc_page s = Inl e" if "free_pages s = {}"
    using that pmm_alloc_exhausted [OF inv] free_set_empty_iff [OF inv]
    by (auto simp: free_pages_def panic_def Let_def)
  show "pmm_inv (pmm_free_page p s) \<and> free_pages (pmm_free_page p s) = insert p (free_pages s)
      \<and> managed_pages (pmm_free_page p s) = managed_pages s" if "p \<in> managed_pages s"
    using that pmm_free_inv [OF inv]
    by (auto simp: managed_pages_def free_pages_def page_of_def image_def)
  show "\<exists>p s'. pmm_alloc_page s = Inr (p, s') \<and> pmm_inv s' \<and> p \<in> free_pages s
      \<and> free_pages s' = free_pages s - {p} \<and> managed_pages s' = managed_pages s"
    if ne: "free_pages s \<noteq> {}"
  proof -
    let ?i = "first_free_index s"
    have lt: "?i < PAGES"
      using ne free_set_empty_iff [OF inv] inv by (auto simp: free_pages_def pmm_inv_def)
    from pmm_alloc_active [OF inv this] obtain f where f:
      "pmm_alloc_page s = Inr (page_of s ?i, (bitmap_set_bit ?i s)\<lparr>first_free_index := f\<rparr>)"
      "pmm_inv ((bitmap_set_bit ?i s)\<lparr>first_free_index := f\<rparr>)"
      "free_set ((bitmap_set_bit ?i s)\<lparr>first_free_index := f\<rparr>) = free_set s - {?i}" by blast
    have pg: "page_of ((bitmap_set_bit ?i s)\<lparr>first_free_index := f\<rparr>) = page_of s"
      by (simp add: page_of_def fun_eq_iff)
    have "page_of s ` (free_set s - {?i}) = page_of s ` free_set s - {page_of s ?i}"
      using free_set_bounded [OF inv] lt
      by (subst inj_on_image_set_diff [OF page_of_inj_on [OF inv]]) auto
    with f first_free_in [OF inv lt] show ?thesis
      by (auto simp: free_pages_def managed_pages_def pg)
  qed
qed

lemma least_free:
  assumes "pmm_inv s" and "free_set s \<noteq> {}"
  shows "first_free_index s < PAGES" and "Min (free_set s) = first_free_index s"
proof -
  show lt: "first_free_index s < PAGES"
    using assms free_set_empty_iff [OF assms(1)] by (auto simp: pmm_inv_def)
  have "finite (free_set s)"
    using free_set_bounded [OF assms(1)] by (rule finite_subset) simp
  then show "Min (free_set s) = first_free_index s"
    by (rule Min_eqI) (auto simp: first_free_least first_free_in [OF assms(1) lt])
qed

subsection \<open>Properties\<close>

text \<open>A state after paging has been switched on: four pages taken, the rest free.\<close>

definition pmm_boot :: pmm where
  "pmm_boot = kmm.extend (km_boot\<lparr>pmem := (\<lambda>_. 0)(0x00301000 := 0x0F)\<rparr>)
     (pmm.fields 0x00304000 4 2048 0x00301000 True)"

lemma pmm_boot_fields [simp]:
  "first_free_index pmm_boot = 4" "last_available_index pmm_boot = 2048"
  "bitmap pmm_boot = 0x00301000" "pmm_paging_active pmm_boot"
  "pmem pmm_boot = (\<lambda>_. 0)(0x00301000 := 0x0F)"
  by (simp_all add: pmm_boot_def kmm.defs pmm.defs)

lemma boot_bits: "bit (0x0F :: u8) k \<longleftrightarrow> k < 4"
proof -
  have "(0x0F :: u8) = mask 4" by (simp add: mask_eq_exp_minus_1)
  then have "bit (0x0F :: u8) k \<longleftrightarrow> k < 8 \<and> k < 4"
    by (simp only: bit_mask_iff) simp
  then show ?thesis by auto
qed

lemma pmm_boot_taken: "i < 2 ^ 32 \<Longrightarrow> taken i pmm_boot \<longleftrightarrow> i < 4"
proof (cases "i div 8 = 0")
  case True
  then have i: "i < 8" by simp
  then show ?thesis unfolding taken_bit using boot_bits [of i] by simp
next
  case False
  assume "i < 2 ^ 32"
  then have "(of_nat (i div 8) :: u32) \<noteq> of_nat 0"
    using False by (subst of_nat_u32_inj) simp_all
  then have "pmem pmm_boot (bitmap pmm_boot + of_nat (i div 8)) = 0"
    by (simp only: pmm_boot_fields) simp
  moreover have "\<not> i < 4" using False by auto
  ultimately show ?thesis by (simp only: taken_bit) simp
qed

lemma pmm_boot_inv [simp]: "pmm_inv pmm_boot"
  by (auto simp: pmm_inv_def PAGES_def pmm_boot_taken)

lemma pmm_boot_free [simp]: "free_set pmm_boot = {4..<2048}"
  by (auto simp: free_set_def pmm_boot_taken)

text \<open>With paging on, pmm_alloc_page takes the least free page out of the set of free pages,
  returns its address, keeps the allocator's invariant and writes no memory but one byte of
  the bitmap.\<close>

theorem pmm_alloc_least_free_page:
  assumes "pmm_inv s" and "free_set s \<noteq> {}"
  shows "\<exists>s'. pmm_alloc_page s = Inr (page_of s (Min (free_set s)), s')
    \<and> pmm_inv s' \<and> free_set s' = free_set s - {Min (free_set s)} \<and> bitmap s' = bitmap s
    \<and> (\<forall>a. a \<noteq> bitmap_byte (Min (free_set s)) s \<longrightarrow> pmem s' a = pmem s a)"
proof -
  note min = least_free [OF assms]
  let ?t = "bitmap_set_bit (first_free_index s) s"
  obtain f where f: "pmm_alloc_page s = Inr (page_of s (first_free_index s), ?t\<lparr>first_free_index := f\<rparr>)"
    "pmm_inv (?t\<lparr>first_free_index := f\<rparr>)"
    "free_set (?t\<lparr>first_free_index := f\<rparr>) = free_set s - {first_free_index s}"
    by (rule pmm_alloc_active [OF assms(1) min(1)])
  have "pmem ?t a = pmem s a" if "a \<noteq> bitmap_byte (first_free_index s) s" for a
    using that by (simp add: bitmap_set_bit_def)
  with f show ?thesis
    unfolding min(2) by (intro exI [of _ "?t\<lparr>first_free_index := f\<rparr>"]) simp
qed

text \<open>With paging on and no free page left, pmm_alloc_page does not return a page: it
  panics with the message that memory is exhausted.\<close>

theorem pmm_alloc_out_of_memory:
  assumes "pmm_inv s" and "free_set s = {}"
  shows "pmm_alloc_page s = panic ''Error:out of memory.'' s"
  using assms pmm_alloc_exhausted free_set_empty_iff by blast

lemma pmm_alloc_out_of_memory_witness:
  "pmm_alloc_page (pmm_boot\<lparr>first_free_index := 2048, pmem := (\<lambda>_. 0xFF)\<rparr>)
    = panic ''Error:out of memory.'' (pmm_boot\<lparr>first_free_index := 2048, pmem := (\<lambda>_. 0xFF)\<rparr>)"
proof (rule pmm_alloc_out_of_memory)
  have "bit (0xFF :: u8) k" if "k < 8" for k
    using that bit_mask_iff [where 'a = "8 word", of 8 k] by (simp add: mask_eq_exp_minus_1)
  then show "pmm_inv (pmm_boot\<lparr>first_free_index := 2048, pmem := (\<lambda>_. 0xFF)\<rparr>)"
    by (auto simp: pmm_inv_def PAGES_def taken_bit)
  show "free_set (pmm_boot\<lparr>first_free_index := 2048, pmem := (\<lambda>_. 0xFF)\<rparr>) = {}"
    by (auto simp: free_set_def)
qed

text \<open>C30: With paging on, freeing page i puts exactly that page back among the free ones and
  keeps the allocator's invariant; if it lies below every free page it is the next one to be
  allocated.\<close>

theorem pmm_free_then_alloc:
  assumes "pmm_inv s" and "1 \<le> i" and "i < PAGES"
  shows "pmm_inv (pmm_free_page (page_of s i) s)
    \<and> free_set (pmm_free_page (page_of s i) s) = insert i (free_set s)
    \<and> (i \<le> first_free_index s \<longrightarrow>
        (\<exists>s'. pmm_alloc_page (pmm_free_page (page_of s i) s) = Inr (page_of s i, s')))"
proof -
  let ?t = "pmm_free_page (page_of s i) s"
  note t = pmm_free_inv [OF assms]
  have "\<exists>s'. pmm_alloc_page ?t = Inr (page_of s i, s')" if "i \<le> first_free_index s"
  proof -
    have first: "first_free_index ?t = i"
      using pmm_free_eq [OF assms(1), of i] that assms(3) by (auto simp: min_def)
    have "page_of ?t = page_of s" using t by (simp add: page_of_def fun_eq_iff)
    with first assms(3) pmm_alloc_active [of ?t] t show ?thesis by metis
  qed
  with t show ?thesis by blast
qed

lemma pmm_free_then_alloc_witness:
  "\<exists>s'. pmm_alloc_page (pmm_free_page 0x00303000 pmm_boot) = Inr (0x00303000, s')"
proof -
  have "page_of pmm_boot 2 = 0x00303000" by (simp add: page_of_def MEM_UNIT_SIZE_def)
  with pmm_free_then_alloc [of pmm_boot 2] show ?thesis by (simp add: PAGES_def)
qed

text \<open>C12: With paging on, n pages are obtained in a row exactly when n pages are free; they are
  pairwise different free pages, and freeing them all gives the free pages of the start back.\<close>

theorem pmm_alloc_sequence:
  assumes "pmm_inv s"
  shows "(if n \<le> card (free_pages s)
      then \<exists>ps s'. alloc_pages pmm_alloc_page n s = Inr (ps, s') \<and> pmm_inv s' \<and> length ps = n
        \<and> distinct ps \<and> set ps \<subseteq> free_pages s \<and> free_pages s' = free_pages s - set ps
        \<and> free_pages (fold pmm_free_page ps s') = free_pages s
      else \<exists>e. alloc_pages pmm_alloc_page n s = Inl e)"
proof (cases "n \<le> card (free_pages s)")
  case True
  with pages.alloc_pages_spec [OF assms True] pages.alloc_free_roundtrip [OF assms, of n]
  show ?thesis by (simp only: if_True) blast
next
  case False
  with pages.alloc_pages_too_many [OF assms, of n] show ?thesis by simp
qed

lemma pmm_boot_free_pages: "card (free_pages pmm_boot) = 2044"
  unfolding free_pages_def pmm_boot_free
  by (subst card_image) (auto intro: inj_on_subset [OF page_of_inj_on] simp: PAGES_def)

lemma pmm_alloc_sequence_witness:
  "(\<exists>ps s'. alloc_pages pmm_alloc_page 2044 pmm_boot = Inr (ps, s') \<and> distinct ps \<and> length ps = 2044)
    \<and> (\<exists>e. alloc_pages pmm_alloc_page 2045 pmm_boot = Inl e)"
  using pmm_alloc_sequence [OF pmm_boot_inv, of 2044] pmm_alloc_sequence [OF pmm_boot_inv, of 2045]
  by (auto simp: pmm_boot_free_pages)

lemma pmm_alloc_least_free_page_witness:
  "\<exists>s'. pmm_alloc_page pmm_boot = Inr (0x00305000, s') \<and> free_set s' = {5..<2048}"
proof -
  have "Min {4..<2048 :: nat} = 4" by (rule Min_eqI) auto
  moreover have "{4..<2048 :: nat} - {4} = {5..<2048}" by auto
  moreover have "page_of pmm_boot 4 = 0x00305000" by (simp add: page_of_def MEM_UNIT_SIZE_def)
  ultimately show ?thesis
    using pmm_alloc_least_free_page [of pmm_boot] by auto
qed

end
