(* ===== verification/Vmm.thy ===== *)
theory Vmm
  imports Pmm
begin

text \<open>
  \<^verbatim>\<open>code/mem/vmm.c\<close>: page directories, address spaces and the mapping of pages, with
  \<^verbatim>\<open>map_pmm_to_virtual_space\<close> of \<^verbatim>\<open>code/mem/pmm.c\<close>. The code writes page tables through
  virtual addresses, so every access here goes through \<open>translate\<close>, the page walk of the
  processor over the same physical memory (32-bit paging, 4 KB pages, no translation cache:
  \<^verbatim>\<open>invlpg\<close> has nothing to do). \<^verbatim>\<open>page_directory\<close> and \<^verbatim>\<open>page_tables\<close> are pointer variables
  that are never assigned; they are constants here.
\<close>

definition PAGE_DIR_VIRTUAL_ADDR :: u32 where "PAGE_DIR_VIRTUAL_ADDR = 0xFFBFF000"
definition PAGE_TABLE_VIRTUAL_ADDR :: u32 where "PAGE_TABLE_VIRTUAL_ADDR = 0xFFC00000"
definition PAGE_DIR_IDX :: "u32 \<Rightarrow> u32" where "PAGE_DIR_IDX x = x div 1024"
definition PAGE_PRESENT :: u32 where "PAGE_PRESENT = 0x1"
definition PAGE_WRITE :: u32 where "PAGE_WRITE = 0x2"

record vmm = pmm +
  cr0 :: u32
  cr3 :: u32
  current_page_directory :: u32
  kernel_page_directory :: u32

subsection \<open>The processor's view\<close>

definition dir_index :: "u32 \<Rightarrow> nat" where "dir_index va = unat va div 0x400000"
definition table_index :: "u32 \<Rightarrow> nat" where "table_index va = unat va div 0x1000 mod 1024"

definition frame :: "u32 \<Rightarrow> u32" where "frame e = e AND PAGE_MASK"

definition entry :: "mem \<Rightarrow> u32 \<Rightarrow> nat \<Rightarrow> u32" where
  "entry m table i = load32 m (table + 4 * of_nat i)"

definition walk :: "mem \<Rightarrow> u32 \<Rightarrow> u32 \<Rightarrow> u32 option" where
  "walk m dir va =
     (let pde = entry m dir (dir_index va)
      in if bit pde 0
         then let pte = entry m (frame pde) (table_index va)
              in if bit pte 0 then Some (frame pte + of_nat (unat va mod 0x1000)) else None
         else None)"

definition paging :: "'a vmm_scheme \<Rightarrow> bool" where "paging s \<longleftrightarrow> bit (cr0 s) 31"

definition translate :: "'a vmm_scheme \<Rightarrow> u32 \<Rightarrow> u32 option" where
  "translate s va = (if paging s then walk (pmem s) (frame (cr3 s)) va else Some va)"

definition resolve :: "'a vmm_scheme \<Rightarrow> u32 \<Rightarrow> kerror + u32" where
  "resolve s va = (case translate s va of None \<Rightarrow> Inl (PageFault va) | Some pa \<Rightarrow> Inr pa)"

text \<open>Accesses to aligned words, which lie in one page, and to bytes.\<close>

definition vload32 :: "u32 \<Rightarrow> 'a vmm_scheme \<Rightarrow> kerror + u32" where
  "vload32 va s = bindR (resolve s va) (\<lambda>pa. Inr (load32 (pmem s) pa))"

definition vstore32 :: "u32 \<Rightarrow> u32 \<Rightarrow> 'a vmm_scheme \<Rightarrow> kerror + 'a vmm_scheme" where
  "vstore32 va v s = bindR (resolve s va) (\<lambda>pa. Inr (s\<lparr>pmem := store32 (pmem s) pa v\<rparr>))"

definition vstore8 :: "u32 \<Rightarrow> u8 \<Rightarrow> 'a vmm_scheme \<Rightarrow> kerror + 'a vmm_scheme" where
  "vstore8 va v s = bindR (resolve s va) (\<lambda>pa. Inr (s\<lparr>pmem := (pmem s)(pa := v)\<rparr>))"

definition vload8 :: "u32 \<Rightarrow> 'a vmm_scheme \<Rightarrow> kerror + u8" where
  "vload8 va s = bindR (resolve s va) (\<lambda>pa. Inr (pmem s pa))"

text \<open>\<^verbatim>\<open>memset\<close> of \<^verbatim>\<open>code/mem/common.c\<close>, run under paging.\<close>

function vmemset :: "u32 \<Rightarrow> u8 \<Rightarrow> u32 \<Rightarrow> 'a vmm_scheme \<Rightarrow> kerror + 'a vmm_scheme" where
  "vmemset dest val len s =
     (if len \<noteq> 0 then bindR (vstore8 dest val s) (vmemset (dest + 1) val (len - 1)) else Inr s)"
  by pat_completeness auto
termination
  by (relation "measure (\<lambda>(_, _, len, _). unat len)") (auto simp: unat_minus_one unat_gt_0)

declare vmemset.simps [simp del]

subsection \<open>The operations\<close>

definition map_page :: "u32 \<Rightarrow> u32 \<Rightarrow> u32 \<Rightarrow> 'a vmm_scheme \<Rightarrow> kerror + 'a vmm_scheme" where
  "map_page va pa flags s =
     (let virtual_page = va div 0x1000;
          pt_idx = PAGE_DIR_IDX virtual_page
      in bindR (vload32 (PAGE_DIR_VIRTUAL_ADDR + 4 * pt_idx) s) (\<lambda>pde.
         bindR (if pde = 0
                then bindR (pmm_alloc_page s) (\<lambda>(page, s).
                     bindR (vstore32 (PAGE_DIR_VIRTUAL_ADDR + 4 * pt_idx)
                              (page OR PAGE_PRESENT OR PAGE_WRITE) s) (\<lambda>s.
                     bindR (vload32 (PAGE_TABLE_VIRTUAL_ADDR + 4 * (pt_idx * 1024)) s) (\<lambda>e.
                     vmemset e 0 0x1000 s)))
                else Inr s) (\<lambda>s.
         vstore32 (PAGE_TABLE_VIRTUAL_ADDR + 4 * virtual_page) ((pa AND PAGE_MASK) OR flags) s)))"

definition unmap :: "u32 \<Rightarrow> 'a vmm_scheme \<Rightarrow> kerror + 'a vmm_scheme" where
  "unmap va s =
     (let virtual_page = va div 0x1000
      in vstore32 (PAGE_TABLE_VIRTUAL_ADDR + 4 * virtual_page) 0 s)"

text \<open>The result of \<^verbatim>\<open>get_mapping\<close> and what it stores in \<^verbatim>\<open>*pa\<close>, if anything.\<close>

definition get_mapping :: "u32 \<Rightarrow> 'a vmm_scheme \<Rightarrow> kerror + (int \<times> u32 option)" where
  "get_mapping va s =
     (let virtual_page = va div 0x1000;
          pt_idx = PAGE_DIR_IDX virtual_page
      in bindR (vload32 (PAGE_DIR_VIRTUAL_ADDR + 4 * pt_idx) s) (\<lambda>pde.
         if pde = 0 then Inr (0, None)
         else bindR (vload32 (PAGE_TABLE_VIRTUAL_ADDR + 4 * virtual_page) s) (\<lambda>pte.
              if pte \<noteq> 0 then Inr (1, Some (pte AND PAGE_MASK)) else Inr (-1, None))))"

definition destroy_page_directory :: "u32 \<Rightarrow> 'a vmm_scheme \<Rightarrow> 'a vmm_scheme" where
  "destroy_page_directory pd s = s"

definition switch_page_directory :: "u32 \<Rightarrow> 'a vmm_scheme \<Rightarrow> 'a vmm_scheme" where
  "switch_page_directory pd s = s\<lparr>current_page_directory := pd, cr3 := pd\<rparr>"

text \<open>\<^verbatim>\<open>pt[i] = i*0x1000 | PAGE_PRESENT | PAGE_WRITE\<close> for the 1024 entries of a table.\<close>

definition identity_entry :: "nat \<Rightarrow> u32" where
  "identity_entry i = of_nat i * 0x1000 OR PAGE_PRESENT OR PAGE_WRITE"

definition fill_identity :: "u32 \<Rightarrow> 'a vmm_scheme \<Rightarrow> kerror + 'a vmm_scheme" where
  "fill_identity pt = forR (\<lambda>i. vstore32 (pt + 4 * of_nat i) (identity_entry i)) [0..<1024]"

definition create_kernel_directory :: "'a vmm_scheme \<Rightarrow> kerror + (u32 \<times> 'a vmm_scheme)" where
  "create_kernel_directory s =
     bindR (pmm_alloc_page s) (\<lambda>(pd, s).
       let s = printk ''PD: '' s; s = printhexk pd s; s = printlnk '''' s
       in bindR (vmemset pd 0 0x1000 s) (\<lambda>s.
     bindR (pmm_alloc_page s) (\<lambda>(page, s).
     bindR (vstore32 pd (page OR PAGE_PRESENT OR PAGE_WRITE) s) (\<lambda>s.
     bindR (vload32 pd s) (\<lambda>e.
     bindR (fill_identity (e AND PAGE_MASK) s) (\<lambda>s.
     bindR (pmm_alloc_page s) (\<lambda>(page, s).
     bindR (vstore32 (pd + 4 * 1022) (page OR PAGE_PRESENT OR PAGE_WRITE) s) (\<lambda>s.
     bindR (vload32 (pd + 4 * 1022) s) (\<lambda>e.
       let pt = e AND PAGE_MASK
       in bindR (vmemset pt 0 0x1000 s) (\<lambda>s.
     bindR (vstore32 (pt + 4 * 1023) (pd OR PAGE_PRESENT OR PAGE_WRITE) s) (\<lambda>s.
     bindR (vstore32 (pd + 4 * 1023) (pd OR PAGE_PRESENT OR PAGE_WRITE) s) (\<lambda>s.
     Inr (pd, s)))))))))))))"

definition create_process_directory :: "'a vmm_scheme \<Rightarrow> kerror + (u32 \<times> 'a vmm_scheme)" where
  "create_process_directory s =
     bindR (pmm_alloc_page s) (\<lambda>(pd_phys, s).
       let pd = 0x7AB13000; pt = pd + 4 * 1024;
           s = printk ''PD_PHYS: '' s; s = printhexk pd_phys s; s = printlnk '''' s;
           s = printk ''PD: '' s; s = printhexk pd s; s = printlnk '''' s
       in bindR (map_page pd pd_phys (PAGE_PRESENT OR PAGE_WRITE) s) (\<lambda>s.
     bindR (vmemset pd 0 0x1000 s) (\<lambda>s.
     bindR (pmm_alloc_page s) (\<lambda>(page, s).
     bindR (vstore32 pd (page OR PAGE_PRESENT OR PAGE_WRITE) s) (\<lambda>s.
     bindR (vload32 pd s) (\<lambda>e.
     bindR (map_page pt (e AND PAGE_MASK) (PAGE_PRESENT OR PAGE_WRITE) s) (\<lambda>s.
     bindR (fill_identity pt s) (\<lambda>s.
     bindR (unmap pt s) (\<lambda>s.
     bindR (pmm_alloc_page s) (\<lambda>(page, s).
     bindR (vstore32 (pd + 4 * 1022) (page OR PAGE_PRESENT OR PAGE_WRITE) s) (\<lambda>s.
     bindR (vload32 (pd + 4 * 1022) s) (\<lambda>e.
     bindR (map_page pt (e AND PAGE_MASK) (PAGE_PRESENT OR PAGE_WRITE) s) (\<lambda>s.
     bindR (vmemset pt 0 0x1000 s) (\<lambda>s.
     bindR (vstore32 (pt + 4 * 1023) (pd_phys OR PAGE_PRESENT OR PAGE_WRITE) s) (\<lambda>s.
     bindR (vstore32 (pd + 4 * 1023) (pd_phys OR PAGE_PRESENT OR PAGE_WRITE) s) (\<lambda>s.
     bindR (unmap pt s) (\<lambda>s.
     bindR (unmap pd s) (\<lambda>s.
     Inr (pd_phys, s)))))))))))))))))))"

definition create_page_directory :: "'a vmm_scheme \<Rightarrow> kerror + (u32 \<times> 'a vmm_scheme)" where
  "create_page_directory s =
     (if kernel_page_directory s = 0 then create_kernel_directory s else create_process_directory s)"

definition map_pmm_to_virtual_space :: "'a vmm_scheme \<Rightarrow> kerror + 'a vmm_scheme" where
  "map_pmm_to_virtual_space s =
     (let s = printlnk ''13++'' s
      in bindR (map_page (bitmap s) (bitmap s) (PAGE_PRESENT OR PAGE_WRITE) s) (\<lambda>s.
           let s = printlnk ''13--'' s;
               skipped_indices = unat ((pmm_location s - bitmap s) div MEM_UNIT_SIZE + 1);
               s = for_upt 0 skipped_indices (\<lambda>i. bitmap_set_bit (i + 1)) s;
               rest_of_table = unat (MEM_SIZE div MEM_UNIT_SIZE - of_nat skipped_indices);
               s = for_upt 0 rest_of_table (\<lambda>i. bitmap_clear_bit (i + skipped_indices)) s;
               s = bitmap_set_bit (unat (MEM_SIZE div MEM_UNIT_SIZE)) s
           in Inr (s\<lparr>first_free_index := skipped_indices,
                     last_available_index := unat (MEM_SIZE div MEM_UNIT_SIZE)\<rparr>)))"

definition init_vmm :: "'a vmm_scheme \<Rightarrow> kerror + 'a vmm_scheme" where
  "init_vmm s =
     bindR (create_page_directory s) (\<lambda>(pd, s).
       let s = s\<lparr>kernel_page_directory := pd\<rparr>;
           s = switch_page_directory pd s;
           s = s\<lparr>cr0 := cr0 s OR 0x80000000\<rparr>
       in bindR (map_pmm_to_virtual_space s) (\<lambda>s. Inr (s\<lparr>pmm_paging_active := True\<rparr>)))"

definition page_fault :: "u32 \<Rightarrow> 'a vmm_scheme \<Rightarrow> kerror + 'b" where
  "page_fault cr2 s =
     (let s = printk ''PAGE FAULT : cr2='' s;
          s = printhexk cr2 s;
          s = printlnk '''' s
      in panic '''' s)"

end
