(* ===== verification/Paging.thy ===== *)
theory Paging
  imports Vmm
begin

text \<open>
  What the operations of theory \<open>Vmm\<close> do to an address space. \<open>vm_wf\<close> says that the active
  page directory maps itself into its last two slots the way \<^verbatim>\<open>create_page_directory\<close> sets it up and
  that its tables are distinct frames. Under it the windows \<^verbatim>\<open>page_directory\<close> and \<^verbatim>\<open>page_tables\<close>
  reach the right cells, and mapping and unmapping change the translation of one page only.
\<close>

subsection \<open>Frames and cells\<close>

lemma frame_eq: "frame e = e - take_bit 12 e"
proof -
  have "PAGE_MASK = NOT (mask 12)" by (simp add: PAGE_MASK_def mask_eq_exp_minus_1)
  moreover have "(e AND NOT (mask 12)) + take_bit 12 e = e"
  proof -
    have "(e AND NOT (mask 12)) + take_bit 12 e = (e AND NOT (mask 12)) OR take_bit 12 e"
      by (rule disjunctive_add) (auto simp: bit_simps)
    also have "\<dots> = e" by (rule bit_eqI) (auto simp: bit_simps)
    finally show ?thesis .
  qed
  ultimately show ?thesis by (simp add: frame_def eq_diff_eq)
qed

lemma unat_take_12: "unat (take_bit 12 e :: u32) = unat e mod 4096"
  unfolding unsigned_take_bit_eq by (simp only: take_bit_eq_mod) simp

lemma unat_frame: "unat (frame e) = 4096 * (unat e div 4096)"
proof -
  have "unat (frame e) = unat e - unat e mod 4096"
    by (simp add: frame_eq unat_diff_le unat_take_12)
  then show ?thesis by (simp add: minus_mod_eq_mult_div)
qed

lemma frame_eqI: "unat a div 4096 = unat b div 4096 \<Longrightarrow> frame a = frame b"
  by (rule u32_eqI) (simp add: unat_frame)

lemma frame_iff: "frame a = frame b \<longleftrightarrow> unat a div 4096 = unat b div 4096"
proof
  assume "frame a = frame b"
  then have "4096 * (unat a div 4096) = 4096 * (unat b div 4096)" by (simp only: unat_frame [symmetric])
  then show "unat a div 4096 = unat b div 4096" by simp
qed (rule frame_eqI)

lemma frame_idem [simp]: "frame (frame e) = frame e"
  by (rule u32_eqI) (simp add: unat_frame)

lemma frame_fix: "frame f = f \<longleftrightarrow> 4096 dvd unat f"
proof -
  have "frame f = f \<longleftrightarrow> 4096 * (unat f div 4096) = unat f"
    unfolding word_unat_eq_iff unat_frame ..
  then show ?thesis using dvd_mult_div_cancel [of 4096 "unat f"] by (metis dvd_triv_left)
qed

lemma frame_low:
  assumes "flags < 0x1000"
  shows "frame (frame pa OR flags) = frame pa"
proof -
  have "flags AND PAGE_MASK = 0"
  proof -
    have "unat flags < 4096" using assms by (simp add: word_less_nat_alt)
    then have "frame flags = 0" by (simp add: word_unat_eq_iff unat_frame)
    then show ?thesis by (simp add: frame_def)
  qed
  then show ?thesis
    by (simp add: frame_def bit.conj_disj_distrib2 and.assoc)
qed

lemma frame_bit0 [simp]: "bit (frame pa OR flags) 0 \<longleftrightarrow> bit flags 0"
proof -
  have "\<not> bit (frame pa) 0"
    by (simp add: frame_def bit_and_iff PAGE_MASK_def)
  then show ?thesis by (simp add: bit_or_iff)
qed

lemma frame_le: "unat (frame f) + 4096 \<le> 2 ^ 32"
proof -
  have "unat f div 4096 < 2 ^ 20"
    using unat_u32_less [of f] by (simp add: div_less_iff_less_mult)
  then show ?thesis by (simp add: unat_frame)
qed

lemma unat_in_frame:
  assumes "frame f = f" and "k < 4096"
  shows "unat (f + of_nat k) = unat f + k"
  using assms frame_le [of f] by (subst unat_add_small) (simp_all add: unat_of_nat_u32)

lemma frame_in_frame:
  assumes "frame f = f" and "k < 4096"
  shows "frame (f + of_nat k) = f"
proof -
  have "4096 dvd unat f" using assms(1) by (simp add: frame_fix)
  with assms show ?thesis
    by (auto simp: word_unat_eq_iff unat_frame unat_in_frame elim!: dvdE)
qed

lemma cell_offset: "i < 1024 \<Longrightarrow> f + 4 * of_nat i = f + of_nat (4 * i)"
  by simp

lemma unat_cell:
  "frame f = f \<Longrightarrow> i < 1024 \<Longrightarrow> unat (f + 4 * of_nat i) = unat f + 4 * i"
  using unat_in_frame [of f "4 * i"] by simp

lemma frame_cell:
  assumes "frame f = f" and "i < 1024" and "j < 4"
  shows "frame (f + 4 * of_nat i + of_nat j) = f"
  using frame_in_frame [of f "4 * i + j"] assms by (simp add: add.assoc)

lemma entry_cong:
  assumes "frame f = f" and "i < 1024" and "\<And>a. frame a = f \<Longrightarrow> m' a = m a"
  shows "entry m' f i = entry m f i"
  unfolding entry_def by (rule load32_cong) (use assms frame_cell in auto)

lemma cells_of_frames_apart:
  assumes "frame f = f" and "frame g = g" and "f \<noteq> g" and "i < 1024" and "j < 1024"
  shows "apart32 (f + 4 * of_nat i) (g + 4 * of_nat j)"
proof -
  have *: "apart32 (f + 4 * of_nat i) (g + 4 * of_nat j)"
    if "frame f = f" "frame g = g" "unat f < unat g" "i < 1024" "j < 1024" for f g :: u32 and i j
  proof (rule apart32_below)
    have "unat f + 4096 \<le> unat g"
      using that(1-3) by (auto simp: frame_fix elim!: dvdE)
    then show "unat (f + 4 * of_nat i) + 4 \<le> unat (g + 4 * of_nat j)"
      "unat (g + 4 * of_nat j) + 4 \<le> unat (f + 4 * of_nat i) + 2 ^ 32"
      using that frame_le [of g] by (simp_all add: unat_cell)
  qed
  have "unat f \<noteq> unat g" using assms(3) by (simp add: word_unat_eq_iff)
  then consider "unat f < unat g" | "unat g < unat f" by linarith
  then show ?thesis
    using * [of f g i j] apart32_sym [OF * [of g f j i]] assms by cases auto
qed

lemma entry_store:
  assumes "frame f = f" and "frame g = g" and "i < 1024" and "j < 1024"
  shows "entry (store32 m (f + 4 * of_nat i) v) g j
    = (if f = g \<and> i = j then v else entry m g j)"
proof -
  consider "f = g" "i = j" | "f = g" "i \<noteq> j" | "f \<noteq> g" by blast
  then show ?thesis
  proof cases
    case 2
    with assms cells_apart [of i j f] show ?thesis
      by (simp add: entry_def load32_store32_apart)
  next
    case 3
    with assms cells_of_frames_apart [of f g i j] show ?thesis
      by (simp add: entry_def load32_store32_apart)
  qed (simp add: entry_def load32_store32_same)
qed

lemma store_cell_frame:
  assumes "frame f = f" and "i < 1024" and "frame a \<noteq> f"
  shows "store32 m (f + 4 * of_nat i) v a = m a"
  using frame_cell [OF assms(1,2)] assms(3) by (intro store32_other) auto

subsection \<open>The windows onto the directory and the tables\<close>

lemma dir_index_less: "dir_index va < 1024"
  using unat_u32_less [of va] by (simp add: dir_index_def div_less_iff_less_mult)

lemma table_index_less: "table_index va < 1024"
  by (simp add: table_index_def)

lemma dir_index_page: "dir_index va = unat va div 4096 div 1024"
  by (simp add: dir_index_def div_mult2_eq [symmetric])

lemma table_index_page: "table_index va = unat va div 4096 mod 1024"
  by (simp add: table_index_def)

lemma page_number: "unat va div 4096 = 1024 * dir_index va + table_index va"
  unfolding dir_index_page table_index_page by (rule mult_div_mod_eq [symmetric])

lemma same_page:
  "unat va div 4096 = unat vb div 4096
    \<longleftrightarrow> dir_index va = dir_index vb \<and> table_index va = table_index vb"
proof
  assume "dir_index va = dir_index vb \<and> table_index va = table_index vb"
  then show "unat va div 4096 = unat vb div 4096" by (simp only: page_number)
qed (simp only: dir_index_page table_index_page simp_thms)

lemma pt_idx_eq: "PAGE_DIR_IDX (va div 0x1000) = of_nat (dir_index va)"
proof (rule u32_eqI)
  have "dir_index va < 2 ^ 32" using dir_index_less [of va] by simp
  then show "unat (PAGE_DIR_IDX (va div 0x1000)) = unat (of_nat (dir_index va) :: u32)"
    unfolding PAGE_DIR_IDX_def unat_div by (simp add: unat_of_nat_u32 dir_index_page)
qed

lemma dir_window:
  assumes "k < 1024"
  shows "dir_index (PAGE_DIR_VIRTUAL_ADDR + 4 * of_nat k) = 1022"
    and "table_index (PAGE_DIR_VIRTUAL_ADDR + 4 * of_nat k) = 1023"
    and "unat (PAGE_DIR_VIRTUAL_ADDR + 4 * of_nat k) mod 0x1000 = 4 * k"
proof -
  have "unat (PAGE_DIR_VIRTUAL_ADDR + 4 * of_nat k) = 0xFFBFF000 + 4 * k"
    using assms by (subst unat_cell) (simp_all add: PAGE_DIR_VIRTUAL_ADDR_def frame_fix)
  then have u: "unat (PAGE_DIR_VIRTUAL_ADDR + 4 * of_nat k) = 4096 * 1047551 + 4 * k" by simp
  show "unat (PAGE_DIR_VIRTUAL_ADDR + 4 * of_nat k) mod 0x1000 = 4 * k"
    unfolding u mod_mult_self4 using assms by simp
  have q: "unat (PAGE_DIR_VIRTUAL_ADDR + 4 * of_nat k) div 4096 = 1047551"
    unfolding u using assms by simp
  show "dir_index (PAGE_DIR_VIRTUAL_ADDR + 4 * of_nat k) = 1022"
    "table_index (PAGE_DIR_VIRTUAL_ADDR + 4 * of_nat k) = 1023"
    unfolding dir_index_page table_index_page q by simp_all
qed

lemma table_window:
  shows "dir_index (PAGE_TABLE_VIRTUAL_ADDR + 4 * (va div 0x1000)) = 1023"
    and "table_index (PAGE_TABLE_VIRTUAL_ADDR + 4 * (va div 0x1000)) = dir_index va"
    and "unat (PAGE_TABLE_VIRTUAL_ADDR + 4 * (va div 0x1000)) mod 0x1000 = 4 * table_index va"
proof -
  let ?p = "unat va div 4096"
  have p: "?p < 1048576" using unat_u32_less [of va] by (simp add: div_less_iff_less_mult)
  have "unat (4 * (va div 0x1000)) = 4 * ?p"
    using p by (subst unat_mult_small) (simp_all add: unat_div)
  then have u: "unat (PAGE_TABLE_VIRTUAL_ADDR + 4 * (va div 0x1000)) = 0xFFC00000 + 4 * ?p"
    using p by (subst unat_add_small) (simp_all add: PAGE_TABLE_VIRTUAL_ADDR_def)
  note d = dir_index_less [of va] and t = table_index_less [of va]
  have u': "unat (PAGE_TABLE_VIRTUAL_ADDR + 4 * (va div 0x1000))
      = 4096 * (1047552 + dir_index va) + 4 * table_index va"
    unfolding u page_number by simp
  have q: "unat (PAGE_TABLE_VIRTUAL_ADDR + 4 * (va div 0x1000)) div 4096 = 1047552 + dir_index va"
    unfolding u' using t by simp
  show "unat (PAGE_TABLE_VIRTUAL_ADDR + 4 * (va div 0x1000)) mod 0x1000 = 4 * table_index va"
    unfolding u' mod_mult_self4 using t by simp
  show "dir_index (PAGE_TABLE_VIRTUAL_ADDR + 4 * (va div 0x1000)) = 1023"
    using d unfolding dir_index_page [of "PAGE_TABLE_VIRTUAL_ADDR + 4 * (va div 0x1000)"] q by simp
  show "table_index (PAGE_TABLE_VIRTUAL_ADDR + 4 * (va div 0x1000)) = dir_index va"
    using d mod_mult_self4 [of 1024 1023 "dir_index va"]
    unfolding table_index_page [of "PAGE_TABLE_VIRTUAL_ADDR + 4 * (va div 0x1000)"] q by simp
qed

subsection \<open>Well-formed address spaces\<close>

definition dir_wf :: "mem \<Rightarrow> u32 \<Rightarrow> bool" where
  "dir_wf m d \<longleftrightarrow> frame d = d \<and> entry m d 1023 = d OR 3
     \<and> (\<forall>i<1023. entry m d i \<noteq> 0 \<longrightarrow> bit (entry m d i) 0 \<and> frame (entry m d i) \<noteq> d)
     \<and> (\<forall>i<1023. \<forall>j<1023. i \<noteq> j \<and> entry m d i \<noteq> 0 \<and> entry m d j \<noteq> 0
          \<longrightarrow> frame (entry m d i) \<noteq> frame (entry m d j))
     \<and> entry m d 1022 \<noteq> 0 \<and> entry m (frame (entry m d 1022)) 1023 = d OR 3"

definition active_dir :: "'a vmm_scheme \<Rightarrow> u32" where "active_dir s = frame (cr3 s)"

definition vm_wf :: "'a vmm_scheme \<Rightarrow> bool" where
  "vm_wf s \<longleftrightarrow> paging s \<and> dir_wf (pmem s) (active_dir s)"

text \<open>The directory entry of an address, the table it names, and its page table entry.\<close>

definition pde :: "'a vmm_scheme \<Rightarrow> u32 \<Rightarrow> u32" where
  "pde s va = entry (pmem s) (active_dir s) (dir_index va)"

definition table_of :: "'a vmm_scheme \<Rightarrow> u32 \<Rightarrow> u32" where "table_of s va = frame (pde s va)"

definition pte :: "'a vmm_scheme \<Rightarrow> u32 \<Rightarrow> u32" where
  "pte s va = entry (pmem s) (table_of s va) (table_index va)"

definition set_pte :: "u32 \<Rightarrow> u32 \<Rightarrow> 'a vmm_scheme \<Rightarrow> 'a vmm_scheme" where
  "set_pte va v s = s\<lparr>pmem := store32 (pmem s) (table_of s va + 4 * of_nat (table_index va)) v\<rparr>"

lemma frame_or_flags [simp]:
  "frame d = d \<Longrightarrow> frame (d OR 3) = d" "bit (frame d OR 3) 0"
  using frame_low [of 3 d] by (simp_all add: bit_or_iff)

lemma frame_fixed_bit0: "frame d = d \<Longrightarrow> bit (d OR 3) 0"
  using frame_or_flags(2) [of d] by simp

lemma dir_wf_self:
  assumes "dir_wf m d"
  shows "frame (entry m d 1023) = d" and "bit (entry m d 1023) 0"
    and "frame (entry m (frame (entry m d 1022)) 1023) = d"
    and "bit (entry m (frame (entry m d 1022)) 1023) 0" and "bit (entry m d 1022) 0"
    and "frame d = d" and "entry m d 1022 \<noteq> 0"
  using assms frame_fixed_bit0 [of d] by (auto simp: dir_wf_def)

lemma dir_wf_table:
  assumes "dir_wf m d" and "i < 1024" and "entry m d i \<noteq> 0"
  shows "bit (entry m d i) 0" and "frame (entry m d i) = d \<longleftrightarrow> i = 1023"
proof -
  have "i < 1023 \<or> i = 1023" using assms(2) by auto
  then show "bit (entry m d i) 0" "frame (entry m d i) = d \<longleftrightarrow> i = 1023"
    using assms dir_wf_self [OF assms(1)] by (auto simp: dir_wf_def)
qed

lemma dir_wf_inj:
  assumes "dir_wf m d" and "i < 1024" and "j < 1024" and "entry m d i \<noteq> 0" and "entry m d j \<noteq> 0"
  shows "frame (entry m d i) = frame (entry m d j) \<longleftrightarrow> i = j"
proof (cases "i = 1023 \<or> j = 1023")
  case True
  then show ?thesis using dir_wf_table [OF assms(1)] assms dir_wf_self(1) [OF assms(1)] by metis
next
  case False
  with assms(2,3) have "i < 1023" "j < 1023" by auto
  with assms show ?thesis by (auto simp: dir_wf_def)
qed

lemma resolve_walk:
  "paging s \<Longrightarrow> walk (pmem s) (active_dir s) va = Some pa \<Longrightarrow> resolve s va = Inr pa"
  by (simp add: resolve_def translate_def active_dir_def)

lemma resolve_dir_window:
  assumes "vm_wf s" and "k < 1024"
  shows "resolve s (PAGE_DIR_VIRTUAL_ADDR + 4 * of_nat k) = Inr (active_dir s + 4 * of_nat k)"
  using assms dir_wf_self [of "pmem s" "active_dir s"]
  by (intro resolve_walk) (auto simp: vm_wf_def walk_def dir_window Let_def)

lemma resolve_table_window:
  assumes "vm_wf s" and "pde s va \<noteq> 0"
  shows "resolve s (PAGE_TABLE_VIRTUAL_ADDR + 4 * (va div 0x1000))
    = Inr (table_of s va + 4 * of_nat (table_index va))"
  using assms dir_wf_self [of "pmem s" "active_dir s"]
    dir_wf_table [of "pmem s" "active_dir s" "dir_index va"] dir_index_less [of va]
  by (intro resolve_walk)
    (auto simp: vm_wf_def walk_def table_window Let_def pde_def table_of_def)

lemma vload_pde:
  assumes "vm_wf s"
  shows "vload32 (PAGE_DIR_VIRTUAL_ADDR + 4 * PAGE_DIR_IDX (va div 0x1000)) s = Inr (pde s va)"
  using resolve_dir_window [OF assms dir_index_less]
  by (simp add: vload32_def pt_idx_eq pde_def entry_def)

lemma vload_pte:
  assumes "vm_wf s" and "pde s va \<noteq> 0"
  shows "vload32 (PAGE_TABLE_VIRTUAL_ADDR + 4 * (va div 0x1000)) s = Inr (pte s va)"
  using resolve_table_window [OF assms] by (simp add: vload32_def pte_def entry_def)

lemma map_page_present:
  assumes "vm_wf s" and "pde s va \<noteq> 0"
  shows "map_page va pa flags s = Inr (set_pte va (frame pa OR flags) s)"
  using vload_pde [OF assms(1)] resolve_table_window [OF assms] assms(2)
  by (simp add: map_page_def Let_def vstore32_def set_pte_def frame_def)

lemma unmap_present:
  assumes "vm_wf s" and "pde s va \<noteq> 0"
  shows "unmap va s = Inr (set_pte va 0 s)"
  using resolve_table_window [OF assms] by (simp add: unmap_def Let_def vstore32_def set_pte_def)

lemma get_mapping_eq:
  assumes "vm_wf s"
  shows "get_mapping va s = Inr (if pde s va = 0 then (0, None)
    else if pte s va = 0 then (- 1, None) else (1, Some (frame (pte s va))))"
  using vload_pde [OF assms] vload_pte [OF assms] by (simp add: get_mapping_def Let_def frame_def)

subsection \<open>Writing one page table entry\<close>

lemma frame_table_of [simp]: "frame (table_of s va) = table_of s va"
  by (simp add: table_of_def)

lemma frame_active_dir [simp]: "frame (active_dir s) = active_dir s"
  by (simp add: active_dir_def)

lemma set_pte_fields [simp]:
  "cr0 (set_pte va v s) = cr0 s" "cr3 (set_pte va v s) = cr3 s" "bitmap (set_pte va v s) = bitmap s"
  "paging (set_pte va v s) = paging s" "active_dir (set_pte va v s) = active_dir s"
  by (simp_all add: set_pte_def paging_def active_dir_def)

lemma set_pte_entry:
  assumes "frame f = f" and "j < 1024"
  shows "entry (pmem (set_pte va v s)) f j
    = (if f = table_of s va \<and> j = table_index va then v else entry (pmem s) f j)"
  using entry_store [of "table_of s va" f "table_index va" j] assms
  by (auto simp: set_pte_def table_index_less)

lemma set_pte_dir:
  assumes "vm_wf s" and "pde s va \<noteq> 0" and "dir_index va \<noteq> 1023" and "j < 1024"
  shows "entry (pmem (set_pte va v s)) (active_dir s) j = entry (pmem s) (active_dir s) j"
proof -
  have "table_of s va \<noteq> active_dir s"
    using assms dir_wf_table(2) [of "pmem s" "active_dir s" "dir_index va"] dir_index_less [of va]
    by (auto simp: vm_wf_def table_of_def pde_def)
  with assms show ?thesis by (auto simp: set_pte_entry)
qed

lemma set_pte_pde [simp]:
  "vm_wf s \<Longrightarrow> pde s va \<noteq> 0 \<Longrightarrow> dir_index va \<noteq> 1023 \<Longrightarrow> pde (set_pte va v s) vb = pde s vb"
  by (simp add: pde_def set_pte_dir dir_index_less)

lemma set_pte_table_of [simp]:
  "vm_wf s \<Longrightarrow> pde s va \<noteq> 0 \<Longrightarrow> dir_index va \<noteq> 1023 \<Longrightarrow> table_of (set_pte va v s) vb = table_of s vb"
  by (simp add: table_of_def)

lemma set_pte_pte:
  assumes "vm_wf s" and "pde s va \<noteq> 0" and "dir_index va \<noteq> 1023" and "pde s vb \<noteq> 0"
  shows "pte (set_pte va v s) vb
    = (if unat vb div 4096 = unat va div 4096 then v else pte s vb)"
proof -
  have "table_of s vb = table_of s va \<longleftrightarrow> dir_index vb = dir_index va"
    using assms dir_wf_inj [of "pmem s" "active_dir s"] dir_index_less
    by (auto simp: vm_wf_def table_of_def pde_def)
  with assms show ?thesis
    by (auto simp: pte_def set_pte_entry table_index_less same_page)
qed

lemma set_pte_wf:
  assumes "vm_wf s" and "pde s va \<noteq> 0" and "dir_index va < 1022"
  shows "vm_wf (set_pte va v s)"
proof -
  let ?d = "active_dir s" and ?m = "pmem (set_pte va v s)"
  have e: "entry ?m ?d j = entry (pmem s) ?d j" if "j < 1024" for j
    using assms that by (intro set_pte_dir) auto
  have wf: "dir_wf (pmem s) ?d" using assms(1) by (simp add: vm_wf_def)
  have "frame (entry (pmem s) ?d 1022) \<noteq> table_of s va"
    using wf assms dir_wf_inj [OF wf, of 1022 "dir_index va"] dir_wf_self(7) [OF wf]
    by (auto simp: table_of_def pde_def)
  then have "entry ?m (frame (entry (pmem s) ?d 1022)) 1023
      = entry (pmem s) (frame (entry (pmem s) ?d 1022)) 1023"
    by (simp add: set_pte_entry)
  with wf e assms(1) show ?thesis by (simp add: vm_wf_def dir_wf_def)
qed

lemma translate_eq:
  assumes "vm_wf s"
  shows "translate s va = (if pde s va \<noteq> 0 \<and> bit (pte s va) 0
    then Some (frame (pte s va) + of_nat (unat va mod 4096)) else None)"
proof -
  have "bit (pde s va) 0 \<longleftrightarrow> pde s va \<noteq> 0"
    using assms dir_wf_table(1) [of "pmem s" "active_dir s" "dir_index va"] dir_index_less [of va]
    by (auto simp: vm_wf_def pde_def)
  with assms show ?thesis
    by (auto simp: translate_def vm_wf_def walk_def Let_def pte_def table_of_def pde_def active_dir_def)
qed

lemma translate_set_pte:
  assumes "vm_wf s" and "pde s va \<noteq> 0" and "dir_index va < 1022"
  shows "translate (set_pte va v s) vb
    = (if unat vb div 4096 = unat va div 4096
       then if bit v 0 then Some (frame v + of_nat (unat vb mod 4096)) else None
       else translate s vb)"
proof -
  have "pde s vb \<noteq> 0" if "unat vb div 4096 = unat va div 4096"
    using that assms(2) by (simp add: pde_def same_page)
  with assms set_pte_wf [OF assms] show ?thesis
    by (auto simp: translate_eq set_pte_pte split: if_splits)
qed


subsection \<open>Memory outside the tables\<close>

text \<open>The frames of the directory and of its tables.\<close>

definition dir_frames :: "mem \<Rightarrow> u32 \<Rightarrow> u32 set" where
  "dir_frames m d = insert d {frame (entry m d i) |i. i < 1023 \<and> entry m d i \<noteq> 0}"

lemma dir_frames_self [simp]: "d \<in> dir_frames m d"
  by (simp add: dir_frames_def)

lemma dir_frames_table:
  "dir_wf m d \<Longrightarrow> i < 1024 \<Longrightarrow> entry m d i \<noteq> 0 \<Longrightarrow> frame (entry m d i) \<in> dir_frames m d"
  using dir_wf_self(1) [of m d] by (cases "i = 1023") (auto simp: dir_frames_def)

definition same_tables :: "mem \<Rightarrow> u32 \<Rightarrow> mem \<Rightarrow> bool" where
  "same_tables m d m' \<longleftrightarrow> (\<forall>a. frame a \<in> dir_frames m d \<longrightarrow> m' a = m a)"

lemma same_tables_refl [simp]: "same_tables m d m"
  by (simp add: same_tables_def)

lemma same_tables_entry:
  assumes "dir_wf m d" and "same_tables m d m'" and "f \<in> dir_frames m d" and "i < 1024"
  shows "entry m' f i = entry m f i"
proof (rule entry_cong)
  show "frame f = f" using assms(1,3) dir_wf_self(6) by (auto simp: dir_frames_def)
qed (use assms in \<open>auto simp: same_tables_def\<close>)

lemma same_tables_frames:
  assumes "dir_wf m d" and "same_tables m d m'"
  shows "dir_frames m' d = dir_frames m d"
proof -
  have "entry m' d i = entry m d i" if "i < 1023" for i
    using same_tables_entry [OF assms dir_frames_self, of i] that by simp
  then have "{frame (entry m' d i) |i. i < 1023 \<and> entry m' d i \<noteq> 0}
      = {frame (entry m d i) |i. i < 1023 \<and> entry m d i \<noteq> 0}"
    by (metis (no_types, opaque_lifting))
  then show ?thesis by (simp add: dir_frames_def)
qed

lemma same_tables_dir_wf:
  assumes "dir_wf m d" and "same_tables m d m'"
  shows "dir_wf m' d"
proof -
  have e: "entry m' d i = entry m d i" if "i < 1024" for i
    using same_tables_entry [OF assms dir_frames_self that] .
  have "entry m' (frame (entry m d 1022)) 1023 = entry m (frame (entry m d 1022)) 1023"
    using dir_frames_table [OF assms(1) _ dir_wf_self(7) [OF assms(1)]]
    by (intro same_tables_entry [OF assms]) auto
  with e assms(1) show ?thesis by (simp add: dir_wf_def)
qed

lemma same_tables_walk:
  assumes "dir_wf m d" and "same_tables m d m'"
  shows "walk m' d va = walk m d va"
proof -
  have e: "entry m' d (dir_index va) = entry m d (dir_index va)"
    using same_tables_entry [OF assms dir_frames_self dir_index_less] .
  show ?thesis
  proof (cases "entry m d (dir_index va) = 0")
    case True
    with e show ?thesis by (simp add: walk_def)
  next
    case False
    then have "entry m' (frame (entry m d (dir_index va))) (table_index va)
        = entry m (frame (entry m d (dir_index va))) (table_index va)"
      using dir_frames_table [OF assms(1) dir_index_less]
      by (intro same_tables_entry [OF assms] table_index_less) auto
    with e show ?thesis by (simp add: walk_def Let_def)
  qed
qed

definition vm_frames :: "'a vmm_scheme \<Rightarrow> u32 set" where
  "vm_frames s = dir_frames (pmem s) (active_dir s)"

lemma vm_frames_aligned: "vm_wf s \<Longrightarrow> f \<in> vm_frames s \<Longrightarrow> frame f = f"
  using dir_wf_self(6) by (auto simp: vm_frames_def vm_wf_def dir_frames_def)

lemma pde_in_frames: "vm_wf s \<Longrightarrow> pde s va \<noteq> 0 \<Longrightarrow> table_of s va \<in> vm_frames s"
  by (simp add: vm_wf_def vm_frames_def pde_def table_of_def dir_frames_table dir_index_less)

lemma outside_update:
  assumes "vm_wf s" and "same_tables (pmem s) (active_dir s) m"
  shows "vm_wf (s\<lparr>pmem := m\<rparr>)" and "translate (s\<lparr>pmem := m\<rparr>) va = translate s va"
    and "vm_frames (s\<lparr>pmem := m\<rparr>) = vm_frames s" and "pde (s\<lparr>pmem := m\<rparr>) va = pde s va"
  using assms same_tables_dir_wf same_tables_walk same_tables_frames
    same_tables_entry [OF _ assms(2) dir_frames_self dir_index_less]
  by (auto simp: vm_wf_def paging_def active_dir_def translate_def vm_frames_def pde_def)

lemma walk_offset:
  assumes "frame va = va" and "k < 4096" and "walk m d va = Some pa"
  shows "walk m d (va + of_nat k) = Some (pa + of_nat k)"
proof -
  have u: "unat (va + of_nat k) = unat va + k" using assms by (intro unat_in_frame)
  obtain q where q: "unat va = 4096 * q" using assms(1) by (auto simp: frame_fix)
  have "unat (va + of_nat k) div 4096 = unat va div 4096" "unat (va + of_nat k) mod 4096 = k"
    using assms(2) unfolding u q by simp_all
  moreover have "unat va mod 4096 = 0" by (simp add: q)
  ultimately show ?thesis
    using assms(3) unfolding walk_def Let_def
    by (auto simp: same_page split: if_splits)
qed

text \<open>Setting one page that holds no table.\<close>

lemma vmemset_in_page:
  assumes "vm_wf s" and "frame va = va" and "translate s va = Some pa" and "frame pa = pa"
    and "pa \<notin> vm_frames s" and "k + unat len \<le> 4096"
  shows "vmemset (va + of_nat k) val len s
    = Inr (s\<lparr>pmem := memset (pmem s) (pa + of_nat k) val len\<rparr>)"
  using assms
proof (induction "unat len" arbitrary: k len s)
  case 0
  then have "len = 0" by (simp add: unat_eq_0)
  then show ?case by (simp add: vmemset.simps memset.simps)
next
  case (Suc n)
  have len: "len \<noteq> 0" using Suc.hyps(2) by auto
  then have len1: "unat (len - 1) = n" using Suc.hyps(2) by (simp add: unat_minus_one)
  have k: "k < 4096" using Suc.prems(6) Suc.hyps(2) by simp
  define s' where "s' = s\<lparr>pmem := (pmem s)(pa + of_nat k := val)\<rparr>"
  have "same_tables (pmem s) (active_dir s) ((pmem s)(pa + of_nat k := val))"
    using frame_in_frame [OF Suc.prems(4) k] Suc.prems(5)
    by (auto simp: same_tables_def vm_frames_def)
  note out = outside_update [OF Suc.prems(1) this, folded s'_def]
  have "walk (pmem s) (active_dir s) (va + of_nat k) = Some (pa + of_nat k)"
    using Suc.prems(1,3) by (intro walk_offset Suc.prems(2) k)
      (simp add: translate_def vm_wf_def active_dir_def)
  then have "vstore8 (va + of_nat k) val s = Inr s'"
    using Suc.prems(1) by (simp add: vstore8_def resolve_walk vm_wf_def s'_def)
  moreover have "vmemset (va + of_nat (Suc k)) val (len - 1) s'
      = Inr (s'\<lparr>pmem := memset (pmem s') (pa + of_nat (Suc k)) val (len - 1)\<rparr>)"
    using Suc.prems Suc.hyps(2) out len1 by (intro Suc.hyps(1)) auto
  ultimately show ?case
    using len by (subst vmemset.simps, subst memset.simps) (simp add: s'_def ac_simps)
qed

lemma vmemset_page:
  assumes "vm_wf s" and "frame va = va" and "translate s va = Some pa" and "frame pa = pa"
    and "pa \<notin> vm_frames s"
  shows "vmemset va val 0x1000 s = Inr (s\<lparr>pmem := memset (pmem s) pa val 0x1000\<rparr>)"
  using vmemset_in_page [OF assms, of 0 "0x1000"] by simp

lemma vmemset_fault:
  assumes "translate s va = None" and "len \<noteq> 0"
  shows "vmemset va val len s = Inl (PageFault va)"
  using assms by (subst vmemset.simps) (simp add: vstore8_def resolve_def)

lemma memset_page:
  assumes "frame pa = pa"
  shows "memset m pa val 0x1000 a = (if frame a = pa then val else m a)"
proof -
  have "unat (a - pa) < 4096 \<longleftrightarrow> frame a = pa"
  proof
    assume "unat (a - pa) < 4096"
    then show "frame a = pa" using frame_in_frame [OF assms, of "unat (a - pa)"] by simp
  next
    assume "frame a = pa"
    then have "unat pa = 4096 * (unat a div 4096)" by (auto simp: unat_frame)
    then have "unat pa \<le> unat a" "unat a - unat pa < 4096"
      using mult_div_mod_eq [of 4096 "unat a"] by auto
    then show "unat (a - pa) < 4096" by (simp add: unat_diff_le)
  qed
  then show ?thesis by (simp add: memset_apply)
qed

end
