(* ===== verification/MapPage.thy ===== *)
theory MapPage
  imports Paging
begin

text \<open>
  \<^verbatim>\<open>map\<close>, \<^verbatim>\<open>unmap\<close> and \<^verbatim>\<open>get_mapping\<close> together with the page allocator. \<open>vm_inv\<close> keeps the
  tables, the free pages, the bitmap and page 0 apart. When the page table exists, \<^verbatim>\<open>map\<close> writes one
  entry (\<open>set_pte\<close>). When it does not, \<^verbatim>\<open>map\<close> enters a fresh page (\<open>enter_table\<close>) and then clears the
  page that the first word of the fresh page points to, instead of the fresh page itself.
\<close>

subsection \<open>The page allocator next to the tables\<close>

text \<open>
  No table lies in a free page, in the bitmap page or in page 0, and page 0 is mapped to itself.
\<close>

definition vm_inv :: "'a vmm_scheme \<Rightarrow> bool" where
  "vm_inv s \<longleftrightarrow> vm_wf s \<and> pmm_inv s \<and> bitmap s \<noteq> 0 \<and> bitmap s \<notin> vm_frames s
     \<and> vm_frames s \<inter> free_pages s = {} \<and> 0 \<notin> vm_frames s \<and> translate s 0 = Some 0"

lemma update_index [simp]:
  "vm_wf (s\<lparr>first_free_index := f\<rparr>) = vm_wf s" "vm_frames (s\<lparr>first_free_index := f\<rparr>) = vm_frames s"
  "translate (s\<lparr>first_free_index := f\<rparr>) va = translate s va"
  "pde (s\<lparr>first_free_index := f\<rparr>) va = pde s va" "active_dir (s\<lparr>first_free_index := f\<rparr>) = active_dir s"
  by (simp_all add: vm_wf_def paging_def active_dir_def vm_frames_def translate_def pde_def)

lemma bitmap_aligned: "pmm_inv s \<Longrightarrow> frame (bitmap s) = bitmap s"
  by (simp add: pmm_inv_def frame_fix)

lemma page_aligned:
  assumes "pmm_inv s" and "i \<le> PAGES"
  shows "frame (page_of s i) = page_of s i"
  using assms unat_page_of [OF assms] by (simp add: frame_fix pmm_inv_def)

lemma page_ne_bitmap:
  assumes "pmm_inv s" and "p \<in> free_pages s"
  shows "p \<noteq> bitmap s" and "p \<noteq> 0" and "frame p = p"
proof -
  obtain i where i: "p = page_of s i" "1 \<le> i" "i < PAGES"
    using assms(2) free_set_bounded [OF assms(1)] by (auto simp: free_pages_def)
  then have "unat p = unat (bitmap s) + 4096 * i" using unat_page_of [OF assms(1), of i] by simp
  with i(2) show "p \<noteq> bitmap s" "p \<noteq> 0" by auto
  from i page_aligned [OF assms(1), of i] show "frame p = p" by simp
qed

lemma bitmap_byte_frame:
  assumes "pmm_inv s" and "i \<le> PAGES"
  shows "frame (bitmap_byte i s) = bitmap s"
proof -
  have "i div 8 < 4096" using assms(2) by (simp add: PAGES_def)
  with frame_in_frame [OF bitmap_aligned [OF assms(1)]] show ?thesis
    by (simp add: bitmap_byte_def)
qed

lemma pmm_alloc_vm:
  assumes "vm_inv s" and "first_free_index s < PAGES" and "p = page_of s (first_free_index s)"
  obtains f m where "pmm_alloc_page s = Inr (p, s\<lparr>pmem := m, first_free_index := f\<rparr>)"
    and "\<forall>a. frame a \<noteq> bitmap s \<longrightarrow> m a = pmem s a"
    and "pmm_inv (s\<lparr>pmem := m, first_free_index := f\<rparr>)"
    and "free_pages (s\<lparr>pmem := m, first_free_index := f\<rparr>) = free_pages s - {p}"
    and "p \<in> free_pages s"
proof -
  let ?i = "first_free_index s" and ?t = "bitmap_set_bit (first_free_index s) s"
  have pmm: "pmm_inv s" using assms(1) by (simp add: vm_inv_def)
  obtain f where f: "pmm_alloc_page s = Inr (page_of s ?i, ?t\<lparr>first_free_index := f\<rparr>)"
    "pmm_inv (?t\<lparr>first_free_index := f\<rparr>)"
    "free_set (?t\<lparr>first_free_index := f\<rparr>) = free_set s - {?i}"
    by (rule pmm_alloc_active [OF pmm assms(2)])
  have t: "?t = s\<lparr>pmem := pmem ?t\<rparr>" by (simp add: bitmap_set_bit_def)
  have mem: "pmem ?t a = pmem s a" if "frame a \<noteq> bitmap s" for a
    using that bitmap_byte_frame [OF pmm, of ?i] assms(2) by (auto simp: bitmap_set_bit_def)
  have "page_of (?t\<lparr>first_free_index := f\<rparr>) = page_of s" by (simp add: page_of_def fun_eq_iff)
  moreover have "page_of s ` (free_set s - {?i}) = page_of s ` free_set s - {page_of s ?i}"
    using free_set_bounded [OF pmm] assms(2)
    by (subst inj_on_image_set_diff [OF page_of_inj_on [OF pmm]]) auto
  ultimately have free: "free_pages (?t\<lparr>first_free_index := f\<rparr>) = free_pages s - {p}"
    by (simp add: free_pages_def f(3) assms(3))
  have pf: "p \<in> free_pages s" using first_free_in [OF pmm assms(2)] by (simp add: free_pages_def assms(3))
  show ?thesis
  proof (rule that [of f "pmem ?t"])
    show "pmm_alloc_page s = Inr (p, s\<lparr>pmem := pmem ?t, first_free_index := f\<rparr>)"
      using f(1) assms(3) by (simp only: t [symmetric])
    show "pmm_inv (s\<lparr>pmem := pmem ?t, first_free_index := f\<rparr>)"
      using f(2) by (simp only: t [symmetric])
    show "free_pages (s\<lparr>pmem := pmem ?t, first_free_index := f\<rparr>) = free_pages s - {p}"
      using free by (simp only: t [symmetric])
  qed (use mem pf in auto)
qed

lemma pmm_alloc_vm_inv:
  assumes "vm_inv s" and "\<forall>a. frame a \<noteq> bitmap s \<longrightarrow> m a = pmem s a"
    and "pmm_inv (s\<lparr>pmem := m, first_free_index := f\<rparr>)"
    and "free_pages (s\<lparr>pmem := m, first_free_index := f\<rparr>) = free_pages s - {p}"
  shows "vm_inv (s\<lparr>pmem := m, first_free_index := f\<rparr>)"
    and "same_tables (pmem s) (active_dir s) m"
proof -
  show st: "same_tables (pmem s) (active_dir s) m"
    unfolding same_tables_def
  proof (intro allI impI)
    fix a assume "frame a \<in> dir_frames (pmem s) (active_dir s)"
    then have "frame a \<noteq> bitmap s" using assms(1) by (auto simp: vm_inv_def vm_frames_def)
    then show "m a = pmem s a" using assms(2) by simp
  qed
  have wf: "vm_wf s" using assms(1) by (simp add: vm_inv_def)
  show "vm_inv (s\<lparr>pmem := m, first_free_index := f\<rparr>)"
    using assms(1,3,4) outside_update [OF wf st] by (auto simp: vm_inv_def)
qed

subsection \<open>A new page table\<close>

text \<open>Entering the frame \<open>p\<close> as the table with index \<open>i\<close>.\<close>

definition enter_table :: "nat \<Rightarrow> u32 \<Rightarrow> 'a vmm_scheme \<Rightarrow> 'a vmm_scheme" where
  "enter_table i p s = s\<lparr>pmem := store32 (pmem s) (active_dir s + 4 * of_nat i) (p OR 3)\<rparr>"

lemma enter_table_fields [simp]:
  "paging (enter_table i p s) = paging s" "active_dir (enter_table i p s) = active_dir s"
  by (simp_all add: enter_table_def paging_def active_dir_def)

lemma present_nonzero: "frame p = p \<Longrightarrow> p OR 3 \<noteq> (0 :: u32)"
  using frame_fixed_bit0 [of p] by auto

lemma enter_table_entry:
  assumes "i < 1024" and "frame f = f" and "j < 1024"
  shows "entry (pmem (enter_table i p s)) f j
    = (if f = active_dir s \<and> j = i then p OR 3 else entry (pmem s) f j)"
  using entry_store [of "active_dir s" f i j] assms by (auto simp: enter_table_def)

lemma dir_frames_image:
  "dir_frames m d = insert d ((\<lambda>i. frame (entry m d i)) ` {i. i < 1023 \<and> entry m d i \<noteq> 0})"
  by (auto simp: dir_frames_def)

lemma enter_table_wf:
  assumes "vm_wf s" and "i < 1022" and "entry (pmem s) (active_dir s) i = 0"
    and "frame p = p" and "p \<notin> vm_frames s"
  shows "vm_wf (enter_table i p s)" and "vm_frames (enter_table i p s) = insert p (vm_frames s)"
proof -
  let ?d = "active_dir s" and ?m = "pmem (enter_table i p s)"
  have i: "i < 1023" using assms(2) by simp
  have wf: "dir_wf (pmem s) ?d" using assms(1) by (simp add: vm_wf_def)
  have e: "entry ?m ?d j = (if j = i then p OR 3 else entry (pmem s) ?d j)" if "j < 1024" for j
    using assms(2) that by (simp add: enter_table_entry)
  have "frame (entry (pmem s) ?d 1022) \<noteq> ?d"
    using dir_wf_table(2) [OF wf, of 1022] dir_wf_self(7) [OF wf] by simp
  then have t: "entry ?m (frame (entry (pmem s) ?d 1022)) 1023
      = entry (pmem s) (frame (entry (pmem s) ?d 1022)) 1023"
    using assms(2) by (simp add: enter_table_entry)
  have new: "frame (p OR 3) = p" "bit (p OR 3) 0" "p OR 3 \<noteq> 0"
    using assms(4) frame_or_flags(1) frame_fixed_bit0 present_nonzero by auto
  have out: "p \<noteq> frame (entry (pmem s) ?d j)" if "j < 1023" "entry (pmem s) ?d j \<noteq> 0" for j
    using assms(5) that by (auto simp: vm_frames_def dir_frames_def)
  have "p \<noteq> ?d" using assms(5) by (auto simp: vm_frames_def)
  have fr: "frame (entry ?m ?d j) = (if j = i then p else frame (entry (pmem s) ?d j))"
    if "j < 1023" for j using that e [of j] new by simp
  have nz: "entry ?m ?d j \<noteq> 0 \<longleftrightarrow> j = i \<or> entry (pmem s) ?d j \<noteq> 0" if "j < 1023" for j
    using that e [of j] new by simp
  have "dir_wf ?m ?d"
    unfolding dir_wf_def
  proof (intro conjI allI impI)
    show "entry ?m ?d 1023 = ?d OR 3" "entry ?m ?d 1022 \<noteq> 0"
      "entry ?m (frame (entry ?m ?d 1022)) 1023 = ?d OR 3"
      using wf e assms(2) t by (auto simp: dir_wf_def)
    fix j :: nat assume j: "j < 1023" "entry ?m ?d j \<noteq> 0"
    then show "bit (entry ?m ?d j) 0" "frame (entry ?m ?d j) \<noteq> ?d"
      using wf e [of j] new \<open>p \<noteq> ?d\<close> by (auto simp: dir_wf_def)
  next
    fix j k :: nat
    assume jk: "j < 1023" "k < 1023" "j \<noteq> k \<and> entry ?m ?d j \<noteq> 0 \<and> entry ?m ?d k \<noteq> 0"
    then show "frame (entry ?m ?d j) \<noteq> frame (entry ?m ?d k)"
      using nz fr out dir_wf_inj [OF wf, of j k] by auto
  qed simp
  then show "vm_wf (enter_table i p s)" using assms(1) by (simp add: vm_wf_def)
  have "{j. j < 1023 \<and> entry ?m ?d j \<noteq> 0} = insert i {j. j < 1023 \<and> entry (pmem s) ?d j \<noteq> 0}"
    using nz nz [OF i] i by auto
  moreover have "(\<lambda>j. frame (entry ?m ?d j)) ` {j. j < 1023 \<and> entry (pmem s) ?d j \<noteq> 0}
      = (\<lambda>j. frame (entry (pmem s) ?d j)) ` {j. j < 1023 \<and> entry (pmem s) ?d j \<noteq> 0}"
    using fr assms(3) by (intro image_cong) auto
  ultimately show "vm_frames (enter_table i p s) = insert p (vm_frames s)"
    using fr [of i] assms(2) by (simp add: vm_frames_def dir_frames_image insert_commute)
qed

lemma enter_table_translate:
  assumes "vm_wf s" and "dir_index va < 1022" and "pde s va = 0"
    and "frame p = p" and "p \<notin> vm_frames s" and "dir_index vb < 1023"
  shows "translate (enter_table (dir_index va) p s) vb
    = (if dir_index vb = dir_index va
       then let e = entry (pmem s) p (table_index vb)
            in if bit e 0 then Some (frame e + of_nat (unat vb mod 4096)) else None
       else translate s vb)"
proof -
  let ?s = "enter_table (dir_index va) p s"
  note wf = enter_table_wf(1) [OF assms(1,2) _ assms(4,5)]
  have wf: "vm_wf ?s" using assms(3) by (intro wf) (simp add: pde_def)
  have pd: "pde ?s vb = (if dir_index vb = dir_index va then p OR 3 else pde s vb)"
    using assms(2) by (simp add: pde_def enter_table_entry dir_index_less)
  have "p \<noteq> active_dir s" using assms(5) by (auto simp: vm_frames_def)
  have "table_of s vb \<noteq> active_dir s" if "pde s vb \<noteq> 0"
    using that assms dir_wf_table(2) [of "pmem s" "active_dir s" "dir_index vb"]
    by (auto simp: vm_wf_def table_of_def pde_def)
  then have "pte ?s vb = (if dir_index vb = dir_index va then entry (pmem s) p (table_index vb)
      else pte s vb)" if "pde ?s vb \<noteq> 0"
    using that pd assms(2,4) \<open>p \<noteq> active_dir s\<close>
    by (auto simp: pte_def table_of_def enter_table_entry table_index_less)
  then show ?thesis
    using assms(3,4) pd present_nonzero [of p]
    by (auto simp: translate_eq [OF wf] translate_eq [OF assms(1)] Let_def split: if_splits)
qed

lemma first_entry_window:
  assumes "i < 1024"
  obtains va0 where "va0 div 0x1000 = (of_nat i :: u32) * 1024" and "dir_index va0 = i"
    and "table_index va0 = 0"
proof
  let ?va = "of_nat (4194304 * i) :: u32"
  have u: "unat ?va = 4194304 * i" using assms by (intro unat_of_nat_u32) simp
  show "dir_index ?va = i" unfolding dir_index_def u by simp
  show "table_index ?va = 0" unfolding table_index_def u by simp
  have "unat (of_nat i * 1024 :: u32) = 1024 * i"
    using assms by (subst unat_mult_small) (simp_all add: unat_of_nat_u32)
  then show "?va div 0x1000 = of_nat i * 1024"
    unfolding word_unat_eq_iff unat_div u by simp
qed

lemma enter_table_mem:
  assumes "i < 1024" and "frame a \<noteq> active_dir s"
  shows "pmem (enter_table i p s) a = pmem s a"
  using store_cell_frame [of "active_dir s" i a] assms by (simp add: enter_table_def)

lemma vm_inv_dir:
  assumes "vm_inv s"
  shows "active_dir s \<noteq> bitmap s" and "active_dir s \<in> vm_frames s" and "pde s 0 \<noteq> 0"
proof -
  show "active_dir s \<noteq> bitmap s" "active_dir s \<in> vm_frames s"
    using assms by (auto simp: vm_inv_def vm_frames_def)
  have "vm_wf s" "translate s 0 = Some 0" using assms by (simp_all add: vm_inv_def)
  then show "pde s 0 \<noteq> 0" using translate_eq [of s 0] by (auto split: if_splits)
qed

lemma enter_table_pmm:
  assumes "vm_inv s" and "i < 1024"
  shows "pmm_inv (enter_table i p s)" and "free_pages (enter_table i p s) = free_pages s"
proof -
  let ?s = "enter_table i p s"
  have pmm: "pmm_inv s" using assms(1) by (simp add: vm_inv_def)
  have fields: "first_free_index ?s = first_free_index s" "bitmap ?s = bitmap s"
    "last_available_index ?s = last_available_index s" "pmm_paging_active ?s = pmm_paging_active s"
    by (simp_all add: enter_table_def)
  have taken: "taken j ?s = taken j s" if "j \<le> PAGES" for j
    using enter_table_mem [OF assms(2), of "bitmap_byte j s" s p] bitmap_byte_frame [OF pmm that]
      vm_inv_dir(1) [OF assms(1)]
    by (simp add: taken_bit bitmap_byte_def fields)
  show pmm': "pmm_inv ?s" using pmm taken by (auto simp: pmm_inv_def fields)
  have "free_set ?s = free_set s"
    using taken free_set_eq [OF pmm] free_set_eq [OF pmm'] by auto
  then show "free_pages ?s = free_pages s" by (simp add: free_pages_def page_of_def fields)
qed

text \<open>A page that is neither a table, nor free, nor one of the two special pages.\<close>

definition unused_page :: "u32 \<Rightarrow> 'a vmm_scheme \<Rightarrow> bool" where
  "unused_page p s \<longleftrightarrow> frame p = p \<and> p \<noteq> 0 \<and> p \<noteq> bitmap s \<and> p \<notin> vm_frames s \<and> p \<notin> free_pages s"

lemma enter_table_inv:
  assumes "vm_inv s" and "dir_index va < 1022" and "pde s va = 0" and "unused_page p s"
  shows "vm_inv (enter_table (dir_index va) p s)"
    and "vm_frames (enter_table (dir_index va) p s) = insert p (vm_frames s)"
proof -
  let ?s = "enter_table (dir_index va) p s"
  have wf: "vm_wf s" and p: "frame p = p" "p \<notin> vm_frames s"
    using assms by (simp_all add: vm_inv_def unused_page_def)
  have "entry (pmem s) (active_dir s) (dir_index va) = 0" using assms(3) by (simp add: pde_def)
  note wf' = enter_table_wf [OF wf assms(2) this p]
  show "vm_frames ?s = insert p (vm_frames s)" by (fact wf'(2))
  have "dir_index 0 \<noteq> dir_index va" using vm_inv_dir(3) [OF assms(1)] assms(3) by (auto simp: pde_def)
  moreover have "dir_index 0 < 1023" by (simp add: dir_index_def)
  ultimately have "translate ?s 0 = Some 0"
    using enter_table_translate [OF wf assms(2,3) p, of 0] assms(1) by (simp add: vm_inv_def)
  moreover have "bitmap ?s = bitmap s" by (simp add: enter_table_def)
  ultimately show "vm_inv ?s"
    using wf' enter_table_pmm [OF assms(1) dir_index_less] assms(1,4)
    by (auto simp: vm_inv_def unused_page_def)
qed

lemma enter_table_windows:
  assumes "vm_wf s" and "dir_index va < 1022" and "pde s va = 0" and "frame p = p"
    and "p \<notin> vm_frames s"
  shows "vstore32 (PAGE_DIR_VIRTUAL_ADDR + 4 * of_nat (dir_index va)) (p OR PAGE_PRESENT OR PAGE_WRITE) s
      = Inr (enter_table (dir_index va) p s)"
    and "vload32 (PAGE_TABLE_VIRTUAL_ADDR + 4 * (of_nat (dir_index va) * 1024))
        (enter_table (dir_index va) p s) = Inr (entry (pmem s) p 0)"
    and "pde (enter_table (dir_index va) p s) va \<noteq> 0"
proof -
  let ?i = "dir_index va" and ?s = "enter_table (dir_index va) p s"
  have or3: "p OR PAGE_PRESENT OR PAGE_WRITE = p OR 3"
    by (simp add: PAGE_PRESENT_def PAGE_WRITE_def or.assoc)
  show "vstore32 (PAGE_DIR_VIRTUAL_ADDR + 4 * of_nat ?i) (p OR PAGE_PRESENT OR PAGE_WRITE) s = Inr ?s"
    using resolve_dir_window [OF assms(1) dir_index_less]
    by (simp add: vstore32_def enter_table_def or3)
  have "entry (pmem s) (active_dir s) ?i = 0" using assms(3) by (simp add: pde_def)
  note wf = enter_table_wf(1) [OF assms(1,2) this assms(4,5)]
  have pde: "pde ?s vb = p OR 3" if "dir_index vb = ?i" for vb
    using that assms(2) by (simp add: pde_def enter_table_entry)
  then show "pde ?s va \<noteq> 0" using present_nonzero [OF assms(4)] by simp
  obtain va0 where va0: "va0 div 0x1000 = (of_nat ?i :: u32) * 1024" "dir_index va0 = ?i"
    "table_index va0 = 0" by (rule first_entry_window [OF dir_index_less])
  have "p \<noteq> active_dir s" using assms(5) by (auto simp: vm_frames_def)
  then have "pte ?s va0 = entry (pmem s) p 0"
    using pde [OF va0(2)] va0(3) assms(2,4) by (simp add: pte_def table_of_def enter_table_entry)
  then show "vload32 (PAGE_TABLE_VIRTUAL_ADDR + 4 * (of_nat ?i * 1024)) ?s = Inr (entry (pmem s) p 0)"
    using vload_pte [OF wf, of va0] pde [OF va0(2)] present_nonzero [OF assms(4)] va0(1) by simp
qed

text \<open>The state after the new table is entered: \<^verbatim>\<open>map\<close> now clears the page the first entry of the
  new table points to, not the table.\<close>

lemma map_page_absent:
  assumes "vm_inv s" and "dir_index va < 1022" and "pde s va = 0" and "first_free_index s < PAGES"
    and "p = page_of s (first_free_index s)"
  obtains s2 where
    "map_page va pa flags s = bindR (vmemset (entry (pmem s) p 0) 0 0x1000 s2)
       (vstore32 (PAGE_TABLE_VIRTUAL_ADDR + 4 * (va div 0x1000)) (frame pa OR flags))"
    and "vm_inv s2" and "vm_frames s2 = insert p (vm_frames s)"
    and "free_pages s2 = free_pages s - {p}" and "pde s2 va \<noteq> 0"
    and "\<forall>vb. dir_index vb < 1023 \<longrightarrow> translate s2 vb = (if dir_index vb = dir_index va
         then let e = entry (pmem s) p (table_index vb)
              in if bit e 0 then Some (frame e + of_nat (unat vb mod 4096)) else None
         else translate s vb)"
    and "\<forall>a. frame a \<noteq> bitmap s \<and> frame a \<noteq> active_dir s \<longrightarrow> pmem s2 a = pmem s a"
    and "bitmap s2 = bitmap s" and "\<exists>m f. s2 = s\<lparr>pmem := m, first_free_index := f\<rparr>"
proof -
  obtain f m where al: "pmm_alloc_page s = Inr (p, s\<lparr>pmem := m, first_free_index := f\<rparr>)"
    and mem: "\<forall>a. frame a \<noteq> bitmap s \<longrightarrow> m a = pmem s a"
    and pmm: "pmm_inv (s\<lparr>pmem := m, first_free_index := f\<rparr>)"
    and free: "free_pages (s\<lparr>pmem := m, first_free_index := f\<rparr>) = free_pages s - {p}"
    and pin: "p \<in> free_pages s"
    by (rule pmm_alloc_vm [OF assms(1,4,5)])
  define s1 where "s1 = s\<lparr>pmem := m, first_free_index := f\<rparr>"
  note inv1 = pmm_alloc_vm_inv [OF assms(1) mem pmm free, folded s1_def]
  have wf: "vm_wf s" and wf1: "vm_wf s1" using assms(1) inv1 by (simp_all add: vm_inv_def)
  have dir1: "active_dir s1 = active_dir s" "bitmap s1 = bitmap s" "pmem s1 = m"
    by (simp_all add: s1_def active_dir_def)
  have same1: "pde s1 vb = pde s vb" "translate s1 vb = translate s vb" "vm_frames s1 = vm_frames s"
    for vb using outside_update [OF wf inv1(2)] by (simp_all add: s1_def)
  have "pmm_inv s" using assms(1) by (simp add: vm_inv_def)
  note pp = page_ne_bitmap [OF this pin]
  have unused: "unused_page p s1"
    using assms(1) pin pp same1(3) free by (auto simp: unused_page_def vm_inv_def dir1 s1_def)
  then have pnf: "p \<notin> vm_frames s1" by (simp add: unused_page_def)
  have mp: "entry m p j = entry (pmem s) p j" if "j < 1024" for j
    using pp that mem by (intro entry_cong) auto
  have abs1: "pde s1 va = 0" using same1 assms(3) by simp
  define s2 where "s2 = enter_table (dir_index va) p s1"
  note inv2 = enter_table_inv [OF inv1(1) assms(2) abs1 unused, folded s2_def]
  note win = enter_table_windows [OF wf1 assms(2) abs1 pp(3) pnf, folded s2_def]
  show ?thesis
  proof (rule that [of s2])
    show "map_page va pa flags s = bindR (vmemset (entry (pmem s) p 0) 0 0x1000 s2)
       (vstore32 (PAGE_TABLE_VIRTUAL_ADDR + 4 * (va div 0x1000)) (frame pa OR flags))"
      using vload_pde [OF wf, of va] assms(3) al win mp [of 0]
      by (simp add: map_page_def Let_def pt_idx_eq s1_def [symmetric] dir1 bindR_assoc frame_def)
    show "free_pages s2 = free_pages s - {p}"
      using enter_table_pmm(2) [OF inv1(1) dir_index_less] free by (simp add: s2_def s1_def)
    show "\<forall>a. frame a \<noteq> bitmap s \<and> frame a \<noteq> active_dir s \<longrightarrow> pmem s2 a = pmem s a"
      using mem enter_table_mem [OF dir_index_less, of _ s1 va p] by (simp add: s2_def dir1)
    show "bitmap s2 = bitmap s" by (simp add: s2_def enter_table_def dir1)
    have "s2 = s\<lparr>pmem := pmem s2, first_free_index := f\<rparr>" by (simp add: s2_def enter_table_def s1_def)
    then show "\<exists>m f. s2 = s\<lparr>pmem := m, first_free_index := f\<rparr>" by blast
  qed (use inv2 win same1 mp enter_table_translate [OF wf1 assms(2) abs1 pp(3) pnf, folded s2_def]
       in \<open>auto simp: dir1 table_index_less Let_def\<close>)
qed

subsection \<open>Mapping under the invariant\<close>

text \<open>An update of memory that leaves the tables and the bitmap alone.\<close>

lemma pmm_outside:
  assumes "pmm_inv s" and "\<forall>a. frame a = bitmap s \<longrightarrow> m a = pmem s a"
  shows "pmm_inv (s\<lparr>pmem := m\<rparr>)" and "free_pages (s\<lparr>pmem := m\<rparr>) = free_pages s"
proof -
  have taken: "taken j (s\<lparr>pmem := m\<rparr>) = taken j s" if "j \<le> PAGES" for j
    using assms(2) bitmap_byte_frame [OF assms(1) that] by (simp add: taken_bit bitmap_byte_def)
  show pmm': "pmm_inv (s\<lparr>pmem := m\<rparr>)" using assms(1) taken by (auto simp: pmm_inv_def)
  have "free_set (s\<lparr>pmem := m\<rparr>) = free_set s"
    using taken free_set_eq [OF assms(1)] free_set_eq [OF pmm'] by auto
  then show "free_pages (s\<lparr>pmem := m\<rparr>) = free_pages s" by (simp add: free_pages_def page_of_def)
qed

lemma set_pte_frames:
  assumes "vm_wf s" and "pde s va \<noteq> 0" and "dir_index va \<noteq> 1023"
  shows "vm_frames (set_pte va v s) = vm_frames s"
proof -
  have e: "entry (pmem (set_pte va v s)) (active_dir s) j = entry (pmem s) (active_dir s) j"
    if "j < 1024" for j using set_pte_dir [OF assms that] .
  then have "{j. j < 1023 \<and> entry (pmem (set_pte va v s)) (active_dir s) j \<noteq> 0}
      = {j. j < 1023 \<and> entry (pmem s) (active_dir s) j \<noteq> 0}" by auto
  with e show ?thesis
    by (auto simp: vm_frames_def dir_frames_image intro!: arg_cong [of _ _ "insert _"] image_cong)
qed

lemma set_pte_inv:
  assumes "vm_inv s" and "pde s va \<noteq> 0" and "dir_index va < 1022" and "4096 \<le> unat va"
  shows "vm_inv (set_pte va v s)" and "free_pages (set_pte va v s) = free_pages s"
proof -
  have wf: "vm_wf s" and pmm: "pmm_inv s" using assms(1) by (simp_all add: vm_inv_def)
  have ne: "dir_index va \<noteq> 1023" using assms(3) by simp
  have "table_of s va \<noteq> bitmap s"
    using pde_in_frames [OF wf assms(2)] assms(1) by (auto simp: vm_inv_def)
  then have "\<forall>a. frame a = bitmap s \<longrightarrow> pmem (set_pte va v s) a = pmem s a"
    using store_cell_frame [of "table_of s va" "table_index va"]
    by (simp add: set_pte_def table_index_less)
  from pmm_outside [OF pmm this]
  have pmm': "pmm_inv (set_pte va v s)" "free_pages (set_pte va v s) = free_pages s"
    by (simp_all add: set_pte_def)
  then show "free_pages (set_pte va v s) = free_pages s" by simp
  have "translate (set_pte va v s) 0 = Some 0"
    using assms(1,4) translate_set_pte [OF wf assms(2,3), of v 0]
    by (auto simp: vm_inv_def div_eq_0_iff)
  then show "vm_inv (set_pte va v s)"
    using set_pte_wf [OF wf assms(2,3)] set_pte_frames [OF wf assms(2) ne] pmm' assms(1)
    by (auto simp: vm_inv_def set_pte_def)
qed

lemma flags_entry:
  assumes "flags < 0x1000" and "bit flags 0"
  shows "frame (frame pa OR flags) = frame pa" and "bit (frame pa OR flags) 0"
    and "frame pa OR flags \<noteq> 0"
proof -
  show "frame (frame pa OR flags) = frame pa" by (rule frame_low [OF assms(1)])
  show bit: "bit (frame pa OR flags) 0" using assms(2) by simp
  show "frame pa OR flags \<noteq> 0"
  proof
    assume "frame pa OR flags = 0"
    with bit show False by (metis bit_0_eq bot_apply bot_bool_def)
  qed
qed

lemma map_present_spec:
  assumes "vm_inv s" and "pde s va \<noteq> 0" and "dir_index va < 1022" and "4096 \<le> unat va"
    and "flags < 0x1000" and "bit flags 0"
  shows "map_page va pa flags s = Inr (set_pte va (frame pa OR flags) s)"
    and "vm_inv (set_pte va (frame pa OR flags) s)"
    and "free_pages (set_pte va (frame pa OR flags) s) = free_pages s"
    and "translate (set_pte va (frame pa OR flags) s) vb
      = (if unat vb div 4096 = unat va div 4096 then Some (frame pa + of_nat (unat vb mod 4096))
         else translate s vb)"
    and "get_mapping va (set_pte va (frame pa OR flags) s) = Inr (1, Some (frame pa))"
proof -
  have wf: "vm_wf s" using assms(1) by (simp add: vm_inv_def)
  note fl = flags_entry [OF assms(5,6), of pa]
  show "map_page va pa flags s = Inr (set_pte va (frame pa OR flags) s)"
    by (rule map_page_present [OF wf assms(2)])
  show inv: "vm_inv (set_pte va (frame pa OR flags) s)"
    and "free_pages (set_pte va (frame pa OR flags) s) = free_pages s"
    by (rule set_pte_inv [OF assms(1-4)])+
  show "translate (set_pte va (frame pa OR flags) s) vb
      = (if unat vb div 4096 = unat va div 4096 then Some (frame pa + of_nat (unat vb mod 4096))
         else translate s vb)"
    using translate_set_pte [OF wf assms(2,3)] fl(1,2) by simp
  have "vm_wf (set_pte va (frame pa OR flags) s)" using inv by (simp add: vm_inv_def)
  then show "get_mapping va (set_pte va (frame pa OR flags) s) = Inr (1, Some (frame pa))"
    using wf assms(2,3) fl by (simp add: get_mapping_eq set_pte_pte)
qed

lemma zero_page_fill:
  assumes "vm_inv s"
  shows "vmemset 0 0 0x1000 s = Inr (s\<lparr>pmem := memset (pmem s) 0 0 0x1000\<rparr>)"
    and "vm_inv (s\<lparr>pmem := memset (pmem s) 0 0 0x1000\<rparr>)"
    and "free_pages (s\<lparr>pmem := memset (pmem s) 0 0 0x1000\<rparr>) = free_pages s"
    and "translate (s\<lparr>pmem := memset (pmem s) 0 0 0x1000\<rparr>) va = translate s va"
    and "pde (s\<lparr>pmem := memset (pmem s) 0 0 0x1000\<rparr>) va = pde s va"
proof -
  let ?m = "memset (pmem s) 0 0 0x1000"
  have wf: "vm_wf s" and pmm: "pmm_inv s" and z: "0 \<notin> vm_frames s" "translate s 0 = Some 0"
    using assms by (simp_all add: vm_inv_def)
  have f0: "frame 0 = 0" by (simp add: frame_def)
  show "vmemset 0 0 0x1000 s = Inr (s\<lparr>pmem := ?m\<rparr>)"
    using vmemset_page [OF wf f0 z(2) f0 z(1)] .
  have m: "?m a = pmem s a" if "frame a \<noteq> 0" for a
    using that by (simp add: memset_page [OF f0])
  have st: "same_tables (pmem s) (active_dir s) ?m"
    unfolding same_tables_def
  proof (intro allI impI)
    fix a assume "frame a \<in> dir_frames (pmem s) (active_dir s)"
    then show "?m a = pmem s a" using z(1) by (intro m) (auto simp: vm_frames_def)
  qed
  note out = outside_update [OF wf st]
  show "translate (s\<lparr>pmem := ?m\<rparr>) va = translate s va" "pde (s\<lparr>pmem := ?m\<rparr>) va = pde s va"
    by (rule out)+
  have "\<forall>a. frame a = bitmap s \<longrightarrow> ?m a = pmem s a" using m assms by (simp add: vm_inv_def)
  note pm = pmm_outside [OF pmm this]
  then show "free_pages (s\<lparr>pmem := ?m\<rparr>) = free_pages s" by simp
  show "vm_inv (s\<lparr>pmem := ?m\<rparr>)"
    using assms out pm by (auto simp: vm_inv_def)
qed

end
