(* ===== verification/KernelSpace.thy ===== *)
theory KernelSpace
  imports MapPage
begin

text \<open>
  The kernel's own address space: what \<^verbatim>\<open>create_page_directory\<close>, \<^verbatim>\<open>map_pmm_to_virtual_space\<close> and
  \<^verbatim>\<open>init_vmm\<close> build when \<^verbatim>\<open>kmain\<close> calls them with paging off, and the properties of the mapping
  operations, with the booted kernel as their concrete instance.
\<close>

subsection \<open>Building the kernel's directory, before paging\<close>

lemma resolve_off: "\<not> paging s \<Longrightarrow> resolve s va = Inr va"
  by (simp add: resolve_def translate_def)

lemma vstore32_off: "\<not> paging s \<Longrightarrow> vstore32 va v s = Inr (s\<lparr>pmem := store32 (pmem s) va v\<rparr>)"
  by (simp add: vstore32_def resolve_off)

lemma vload32_off: "\<not> paging s \<Longrightarrow> vload32 va s = Inr (load32 (pmem s) va)"
  by (simp add: vload32_def resolve_off)

lemma paging_update [simp]:
  "paging (s\<lparr>pmem := m\<rparr>) = paging s" "paging (s\<lparr>con := c\<rparr>) = paging s"
  "paging (s\<lparr>pmm_location := p\<rparr>) = paging s"
  by (simp_all add: paging_def)

lemma vmemset_off:
  "\<not> paging s \<Longrightarrow> vmemset va val len s = Inr (s\<lparr>pmem := memset (pmem s) va val len\<rparr>)"
proof (induction va val len s rule: vmemset.induct)
  case (1 va val len s)
  have "vstore8 va val s = Inr (s\<lparr>pmem := (pmem s)(va := val)\<rparr>)"
    using "1.prems" by (simp add: vstore8_def resolve_off)
  with 1 show ?case
    by (subst vmemset.simps, subst memset.simps) simp
qed

definition identity_table :: "u32 \<Rightarrow> mem \<Rightarrow> mem" where
  "identity_table pt m = for_upt 0 1024 (\<lambda>i m. store32 m (pt + 4 * of_nat i) (identity_entry i)) m"

lemma fold_pmem:
  "fold (\<lambda>i s. s\<lparr>pmem := g i (pmem s)\<rparr>) xs s = s\<lparr>pmem := fold g xs (pmem s)\<rparr>"
  by (induction xs arbitrary: s) simp_all

lemma fill_identity_off:
  assumes "\<not> paging s"
  shows "fill_identity pt s = Inr (s\<lparr>pmem := identity_table pt (pmem s)\<rparr>)"
  using forR_total [of "\<lambda>s. \<not> paging s" s "[0..<1024]"
      "\<lambda>i. vstore32 (pt + 4 * of_nat i) (identity_entry i)"
      "\<lambda>i s. s\<lparr>pmem := store32 (pmem s) (pt + 4 * of_nat i) (identity_entry i)\<rparr>"] assms
  by (simp add: fill_identity_def identity_table_def for_upt_def vstore32_off
      fold_pmem [of "\<lambda>i m. store32 m (pt + 4 * of_nat i) (identity_entry i)"])

lemma identity_table_entry:
  assumes "frame pt = pt" and "frame f = f" and "j < 1024"
  shows "entry (identity_table pt m) f j = (if f = pt then identity_entry j else entry m f j)"
proof (cases "f = pt")
  case True
  then show ?thesis
    using assms(3) dword.fill_cell [of 0 1024 "\<lambda>i. pt + 4 * of_nat i" j identity_entry m]
    by (simp add: entry_def identity_table_def cells_apart)
next
  case False
  then show ?thesis
    using assms dword.fill_frame [of 0 1024 "\<lambda>i. pt + 4 * of_nat i" "f + 4 * of_nat j"]
    by (simp add: entry_def identity_table_def cells_of_frames_apart)
qed

lemma memset_entry:
  assumes "frame p = p" and "frame f = f" and "j < 1024"
  shows "entry (memset m p 0 0x1000) f j = (if f = p then 0 else entry m f j)"
proof (cases "f = p")
  case True
  then have "memset m p 0 0x1000 a = 0" if "frame a = f" for a
    using that by (simp add: memset_page [OF assms(1)])
  then have "entry (memset m p 0 0x1000) f j = entry (\<lambda>_. 0) f j"
    by (intro entry_cong assms) auto
  then show ?thesis using True by (simp add: entry_def load32_def)
next
  case False
  then have "memset m p 0 0x1000 a = m a" if "frame a = f" for a
    using that by (simp add: memset_page [OF assms(1)])
  from entry_cong [OF assms(2,3) this] False show ?thesis by simp
qed

text \<open>The memory \<^verbatim>\<open>create_page_directory\<close> leaves: directory \<open>d\<close>, identity table \<open>t\<close>, last table \<open>u\<close>.\<close>

definition kernel_tables :: "u32 \<Rightarrow> u32 \<Rightarrow> u32 \<Rightarrow> mem \<Rightarrow> mem" where
  "kernel_tables d t u m =
     (let m = memset m d 0 0x1000;
          m = store32 m (d + 4 * of_nat 0) (t OR 3);
          m = identity_table t m;
          m = store32 m (d + 4 * of_nat 1022) (u OR 3);
          m = memset m u 0 0x1000;
          m = store32 m (u + 4 * of_nat 1023) (d OR 3)
      in store32 m (d + 4 * of_nat 1023) (d OR 3))"

lemma kernel_tables_entry:
  assumes "frame d = d" and "frame t = t" and "frame u = u" and "d \<noteq> t" and "d \<noteq> u" and "t \<noteq> u"
    and "j < 1024"
  shows "entry (kernel_tables d t u m) d j
      = (if j = 0 then t OR 3 else if j = 1022 then u OR 3 else if j = 1023 then d OR 3 else 0)"
    and "entry (kernel_tables d t u m) t j = identity_entry j"
    and "entry (kernel_tables d t u m) u j = (if j = 1023 then d OR 3 else 0)"
  using assms unfolding kernel_tables_def Let_def
  by (simp_all only: entry_store memset_entry identity_table_entry) auto

lemma kernel_tables_mem:
  assumes "frame d = d" and "frame t = t" and "frame u = u"
    and "frame a \<noteq> d" and "frame a \<noteq> t" and "frame a \<noteq> u"
  shows "kernel_tables d t u m a = m a"
proof -
  have id: "identity_table t m a = m a" for m
    unfolding identity_table_def
    by (rule for_upt_rule [where P = "\<lambda>_ m'. m' a = m a"])
      (use assms store_cell_frame [OF assms(2)] in auto)
  have st: "store32 m (d + 4 * of_nat 0) v a = m a" "store32 m (d + 4 * of_nat 1022) v a = m a"
    "store32 m (d + 4 * of_nat 1023) v a = m a" "store32 m (u + 4 * of_nat 1023) v a = m a" for m v
    using assms by (intro store_cell_frame; simp)+
  show ?thesis
    using assms(4,6) unfolding kernel_tables_def Let_def
    by (simp only: st id memset_page [OF assms(1)] memset_page [OF assms(3)] if_False simp_thms)
qed

subsection \<open>Marking the pages the directory took\<close>

definition bits_only :: "(nat \<Rightarrow> bool) \<Rightarrow> 'a pmm_scheme \<Rightarrow> 'a pmm_scheme \<Rightarrow> bool" where
  "bits_only T s s' \<longleftrightarrow> (\<exists>m. s' = s\<lparr>pmem := m\<rparr> \<and> (\<forall>a. frame a \<noteq> bitmap s \<longrightarrow> m a = pmem s a))
     \<and> (\<forall>j\<le>PAGES. taken j s' \<longleftrightarrow> T j)"

lemma bits_onlyE:
  assumes "bits_only T s s'"
  obtains m where "s' = s\<lparr>pmem := m\<rparr>" "\<forall>a. frame a \<noteq> bitmap s \<longrightarrow> m a = pmem s a"
    "\<forall>j\<le>PAGES. taken j s' \<longleftrightarrow> T j"
  using assms by (auto simp: bits_only_def)

lemma bits_only_refl: "bits_only (\<lambda>j. taken j s) s s"
  by (auto simp: bits_only_def intro!: exI [of _ "pmem s"])

lemma bitmap_page:
  assumes "frame (bitmap s) = bitmap s" and "i \<le> PAGES"
  shows "frame (bitmap_byte i s) = bitmap s"
  using frame_in_frame [OF assms(1), of "i div 8"] assms(2)
  by (simp add: bitmap_byte_def PAGES_def)

lemma bits_only_set:
  assumes "bits_only T s s'" and "frame (bitmap s) = bitmap s" and "i \<le> PAGES"
  shows "bits_only (\<lambda>j. j = i \<or> T j) s (bitmap_set_bit i s')"
proof -
  obtain m where m: "s' = s\<lparr>pmem := m\<rparr>" "\<forall>a. frame a \<noteq> bitmap s \<longrightarrow> m a = pmem s a"
    "\<forall>j\<le>PAGES. taken j s' \<longleftrightarrow> T j" by (rule bits_onlyE [OF assms(1)])
  have "taken j (bitmap_set_bit i s') \<longleftrightarrow> j = i \<or> T j" if "j \<le> PAGES" for j
    using taken_set_bit [of i j s'] that assms(3) m(3) by (simp add: PAGES_def)
  with m(1,2) bitmap_page [OF assms(2,3)] show ?thesis
    by (auto simp: bits_only_def bitmap_set_bit_def bitmap_byte_def)
qed

lemma bits_only_clear:
  assumes "bits_only T s s'" and "frame (bitmap s) = bitmap s" and "i \<le> PAGES"
  shows "bits_only (\<lambda>j. j \<noteq> i \<and> T j) s (bitmap_clear_bit i s')"
proof -
  obtain m where m: "s' = s\<lparr>pmem := m\<rparr>" "\<forall>a. frame a \<noteq> bitmap s \<longrightarrow> m a = pmem s a"
    "\<forall>j\<le>PAGES. taken j s' \<longleftrightarrow> T j" by (rule bits_onlyE [OF assms(1)])
  have "taken j (bitmap_clear_bit i s') \<longleftrightarrow> j \<noteq> i \<and> T j" if "j \<le> PAGES" for j
    using taken_clear_bit [of i j s'] that assms(3) m(3) by (simp add: PAGES_def)
  with m(1,2) bitmap_page [OF assms(2,3)] show ?thesis
    by (auto simp: bits_only_def bitmap_clear_bit_def bitmap_byte_def)
qed

lemma bits_only_cong:
  "bits_only T s s' \<Longrightarrow> (\<And>j. j \<le> PAGES \<Longrightarrow> T j = T' j) \<Longrightarrow> bits_only T' s s'"
  by (auto simp: bits_only_def)

text \<open>The two loops and the final bit of \<^verbatim>\<open>map_pmm_to_virtual_space\<close>.\<close>

lemma mark_taken:
  assumes "frame (bitmap s) = bitmap s" and "1 \<le> k" and "k < PAGES"
  shows "bits_only (\<lambda>j. j = PAGES \<or> 1 \<le> j \<and> j < k \<or> j = 0 \<and> taken 0 s) s
    (bitmap_set_bit PAGES (for_upt 0 (PAGES - k) (\<lambda>i. bitmap_clear_bit (i + k))
      (for_upt 0 k (\<lambda>i. bitmap_set_bit (i + 1)) s)))"
proof -
  let ?s1 = "for_upt 0 k (\<lambda>i. bitmap_set_bit (i + 1)) s"
  let ?s2 = "for_upt 0 (PAGES - k) (\<lambda>i. bitmap_clear_bit (i + k)) ?s1"
  have "bits_only (\<lambda>j. 1 \<le> j \<and> j \<le> k \<or> taken j s) s ?s1"
  proof (rule for_upt_rule [where P = "\<lambda>n. bits_only (\<lambda>j. 1 \<le> j \<and> j \<le> n \<or> taken j s) s"])
    show "bits_only (\<lambda>j. 1 \<le> j \<and> j \<le> 0 \<or> taken j s) s s"
      by (rule bits_only_cong [OF bits_only_refl]) auto
    fix i s' assume "0 \<le> i" "i < k" "bits_only (\<lambda>j. 1 \<le> j \<and> j \<le> i \<or> taken j s) s s'"
    then show "bits_only (\<lambda>j. 1 \<le> j \<and> j \<le> Suc i \<or> taken j s) s (bitmap_set_bit (i + 1) s')"
      using assms by (intro bits_only_cong [OF bits_only_set]) auto
  qed simp
  then have "bits_only (\<lambda>j. \<not> (k \<le> j \<and> j < k + (PAGES - k))
      \<and> (1 \<le> j \<and> j \<le> k \<or> taken j s)) s ?s2"
  proof (intro for_upt_rule [where P = "\<lambda>n. bits_only (\<lambda>j. \<not> (k \<le> j \<and> j < k + n)
      \<and> (1 \<le> j \<and> j \<le> k \<or> taken j s)) s"])
    assume "bits_only (\<lambda>j. 1 \<le> j \<and> j \<le> k \<or> taken j s) s ?s1"
    then show "bits_only (\<lambda>j. \<not> (k \<le> j \<and> j < k + 0) \<and> (1 \<le> j \<and> j \<le> k \<or> taken j s)) s ?s1"
      by (rule bits_only_cong) auto
    fix i s' assume i: "0 \<le> i" "i < PAGES - k"
      "bits_only (\<lambda>j. \<not> (k \<le> j \<and> j < k + i) \<and> (1 \<le> j \<and> j \<le> k \<or> taken j s)) s s'"
    then have "i + k \<le> PAGES" by simp
    from bits_only_clear [OF i(3) assms(1) this]
    show "bits_only (\<lambda>j. \<not> (k \<le> j \<and> j < k + Suc i) \<and> (1 \<le> j \<and> j \<le> k \<or> taken j s)) s
        (bitmap_clear_bit (i + k) s')"
      by (rule bits_only_cong) auto
  qed simp
  from bits_only_set [OF this assms(1), of PAGES] show ?thesis
    by (rule bits_only_cong) (use assms in \<open>auto simp: Suc_le_eq intro: gr0I\<close>)
qed

subsection \<open>Switching paging on\<close>

text \<open>The state in which \<^verbatim>\<open>kmain\<close> calls \<^verbatim>\<open>init_vmm\<close>: \<^verbatim>\<open>init_pmm\<close> has just run, paging is off.\<close>

definition pre_paging :: "'a vmm_scheme \<Rightarrow> bool" where
  "pre_paging s \<longleftrightarrow> \<not> paging s \<and> \<not> pmm_paging_active s \<and> kernel_page_directory s = 0
     \<and> pmm_location s = bitmap s \<and> frame (bitmap s) = bitmap s
     \<and> 0x1000 \<le> unat (bitmap s) \<and> unat (bitmap s) + 0x4000 \<le> 0x400000"

lemma create_kernel_directory_off:
  assumes "\<not> paging s" and "\<not> pmm_paging_active s"
    and "d = pmm_location s + 0x1000" and "t = d + 0x1000" and "u = t + 0x1000"
    and "frame t = t" and "frame u = u"
  shows "\<exists>c. create_kernel_directory s = Inr (d,
    s\<lparr>con := c, pmem := kernel_tables d t u (pmem s), pmm_location := u\<rparr>)"
proof -
  have or3: "p OR PAGE_PRESENT OR PAGE_WRITE = p OR 3" for p
    by (simp add: PAGE_PRESENT_def PAGE_WRITE_def or.assoc)
  have fr: "(t OR 3) AND PAGE_MASK = t" "(u OR 3) AND PAGE_MASK = u"
    using frame_or_flags(1) assms(6,7) by (simp_all add: frame_def)
  show ?thesis
    using assms(1,2)
    by (intro exI [of _ "kprintln '''' (kprinthex d (kprint ''PD: '' (con s)))"])
      (simp add: create_kernel_directory_def pmm_alloc_page_def Let_def print_defs
        vmemset_off vstore32_off vload32_off fill_identity_off or3 fr
        assms(3) [symmetric] assms(4) [symmetric] assms(5) [symmetric]
        load32_store32_same kernel_tables_def)
qed

subsection \<open>The kernel's address space\<close>

lemma identity_entry_frame:
  assumes "j < 1024"
  shows "frame (identity_entry j) = of_nat (4096 * j)" and "bit (identity_entry j) 0"
proof -
  have "unat (of_nat (4096 * j) :: u32) = 4096 * j" using assms by (intro unat_of_nat_u32) simp
  then have "frame (of_nat (4096 * j)) = of_nat (4096 * j)" by (simp only: frame_fix) simp
  moreover have "identity_entry j = of_nat (4096 * j) OR 3"
    by (simp add: identity_entry_def PAGE_PRESENT_def PAGE_WRITE_def or.assoc mult.commute)
  ultimately show "frame (identity_entry j) = of_nat (4096 * j)" "bit (identity_entry j) 0"
    using frame_or_flags(1) frame_fixed_bit0 by metis+
qed

lemma dir_index_zero_address:
  assumes "dir_index va = 0"
  shows "of_nat (4096 * table_index va) + of_nat (unat va mod 4096) = va"
proof -
  have "4096 * table_index va + unat va mod 4096 = unat va"
    using page_number [of va] mult_div_mod_eq [of 4096 "unat va"] assms by simp
  then have "of_nat (4096 * table_index va + unat va mod 4096) = va"
    by (simp only:) simp
  then show ?thesis by (simp only: of_nat_add)
qed

text \<open>A directory as \<^verbatim>\<open>create_page_directory\<close> fills it.\<close>

definition fresh_dir :: "mem \<Rightarrow> u32 \<Rightarrow> u32 \<Rightarrow> u32 \<Rightarrow> bool" where
  "fresh_dir m d t u \<longleftrightarrow> frame d = d \<and> frame t = t \<and> frame u = u \<and> d \<noteq> t \<and> d \<noteq> u \<and> t \<noteq> u
     \<and> (\<forall>j<1024. entry m d j = (if j = 0 then t OR 3 else if j = 1022 then u OR 3
          else if j = 1023 then d OR 3 else 0))
     \<and> (\<forall>j<1024. entry m t j = identity_entry j)
     \<and> (\<forall>j<1024. entry m u j = (if j = 1023 then d OR 3 else 0))"

lemma fresh_dir_wf:
  assumes "fresh_dir m d t u"
  shows "dir_wf m d" and "dir_frames m d = {d, t, u}"
proof -
  have al: "frame d = d" "frame t = t" "frame u = u" and ne: "d \<noteq> t" "d \<noteq> u" "t \<noteq> u"
    using assms by (simp_all add: fresh_dir_def)
  note or3 = present_nonzero [OF al(2)] present_nonzero [OF al(3)]
    frame_fixed_bit0 [OF al(2)] frame_fixed_bit0 [OF al(3)]
  have e: "entry m d j = (if j = 0 then t OR 3 else if j = 1022 then u OR 3
          else if j = 1023 then d OR 3 else 0)" if "j < 1024" for j
    using assms that by (simp add: fresh_dir_def)
  have eu: "entry m u 1023 = d OR 3" using assms by (simp add: fresh_dir_def)
  show "dir_wf m d"
    unfolding dir_wf_def using e eu al ne or3
    by (auto split: if_splits)
  have "{j. j < 1023 \<and> entry m d j \<noteq> 0} = {0, 1022}"
    using e or3 by (auto split: if_splits)
  then show "dir_frames m d = {d, t, u}"
    using e al by (simp add: dir_frames_image)
qed

lemma fresh_dir_walk:
  assumes "fresh_dir m d t u" and "dir_index va < 1022"
  shows "walk m d va = (if dir_index va = 0 then Some va else None)"
proof -
  have t: "frame t = t" using assms(1) by (simp add: fresh_dir_def)
  have "entry m d (dir_index va) = (if dir_index va = 0 then t OR 3 else 0)"
    using assms by (simp add: fresh_dir_def)
  moreover have "entry m t (table_index va) = identity_entry (table_index va)"
    using assms table_index_less by (simp add: fresh_dir_def)
  ultimately show ?thesis
    using t frame_fixed_bit0 [OF t] identity_entry_frame [OF table_index_less, of va]
      dir_index_zero_address [of va]
    by (simp add: walk_def)
qed

lemma kernel_tables_fresh:
  assumes "frame d = d" and "frame t = t" and "frame u = u" and "d \<noteq> t" and "d \<noteq> u" and "t \<noteq> u"
  shows "fresh_dir (kernel_tables d t u m) d t u"
  using assms kernel_tables_entry [OF assms] by (simp add: fresh_dir_def)

lemma con_update [simp]:
  "vm_wf (s\<lparr>con := c\<rparr>) = vm_wf s" "pde (s\<lparr>con := c\<rparr>) va = pde s va"
  "active_dir (s\<lparr>con := c\<rparr>) = active_dir s" "vm_frames (s\<lparr>con := c\<rparr>) = vm_frames s"
  "translate (s\<lparr>con := c\<rparr>) va = translate s va" "table_of (s\<lparr>con := c\<rparr>) va = table_of s va"
  by (simp_all add: vm_wf_def active_dir_def pde_def vm_frames_def translate_def table_of_def)

lemma set_pte_con: "set_pte va v (s\<lparr>con := c\<rparr>) = (set_pte va v s)\<lparr>con := c\<rparr>"
  by (simp add: set_pte_def)

text \<open>\<^verbatim>\<open>map_pmm_to_virtual_space\<close> with \<open>k\<close> pages handed out, the bitmap page among them.\<close>

lemma map_pmm_eq:
  assumes "vm_wf s" and "pde s (bitmap s) \<noteq> 0" and "frame (bitmap s) = bitmap s"
    and "unat ((pmm_location s - bitmap s) div MEM_UNIT_SIZE + 1) = k" and "1 \<le> k" and "k < PAGES"
  shows "\<exists>c m. map_pmm_to_virtual_space s = Inr (s\<lparr>con := c, pmem := m, first_free_index := k,
      last_available_index := PAGES\<rparr>)
    \<and> (\<forall>a. frame a \<noteq> bitmap s \<longrightarrow> m a = pmem (set_pte (bitmap s) (bitmap s OR 3) s) a)
    \<and> (\<forall>j\<le>PAGES. taken j (s\<lparr>pmem := m\<rparr>)
        \<longleftrightarrow> j = PAGES \<or> 1 \<le> j \<and> j < k \<or> j = 0 \<and> taken 0 (set_pte (bitmap s) (bitmap s OR 3) s))"
proof -
  define c where "c = kprintln ''13--'' (kprintln ''13++'' (con s))"
  define s1 where "s1 = (set_pte (bitmap s) (bitmap s OR 3) s)\<lparr>con := c\<rparr>"
  have s1: "s1 = s\<lparr>con := c, pmem := pmem (set_pte (bitmap s) (bitmap s OR 3) s)\<rparr>"
    by (simp add: s1_def set_pte_def)
  have mem: "unat (MEM_SIZE div MEM_UNIT_SIZE) = PAGES"
    by (simp add: MEM_SIZE_def MEM_UNIT_SIZE_def PAGES_def)
  have rest: "unat (MEM_SIZE div MEM_UNIT_SIZE
      - ((pmm_location s - bitmap s) div MEM_UNIT_SIZE + 1)) = PAGES - k"
    using assms(4,6) mem by (subst unat_diff_le) simp_all
  let ?s2 = "bitmap_set_bit PAGES (for_upt 0 (PAGES - k) (\<lambda>i. bitmap_clear_bit (i + k))
      (for_upt 0 k (\<lambda>i. bitmap_set_bit (i + 1)) s1))"
  have or3: "PAGE_PRESENT OR PAGE_WRITE = 3" by (simp add: PAGE_PRESENT_def PAGE_WRITE_def)
  have "map_page (bitmap s) (bitmap s) 3 (s\<lparr>con := c'\<rparr>)
      = Inr (set_pte (bitmap s) (bitmap s OR 3) (s\<lparr>con := c'\<rparr>))" for c'
    using map_page_present [of "s\<lparr>con := c'\<rparr>" "bitmap s" "bitmap s" 3] assms(1-3) by simp
  then have map: "map_pmm_to_virtual_space s
      = Inr (?s2\<lparr>first_free_index := k, last_available_index := PAGES\<rparr>)"
    using assms(4) by (simp add: map_pmm_to_virtual_space_def print_defs Let_def or3 set_pte_con
        mem rest s1_def c_def set_pte_def)
  have "frame (bitmap s1) = bitmap s1" using assms(3) by (simp add: s1)
  from mark_taken [OF this assms(5,6)] obtain m where m: "?s2 = s1\<lparr>pmem := m\<rparr>"
    "\<forall>a. frame a \<noteq> bitmap s1 \<longrightarrow> m a = pmem s1 a"
    "\<forall>j\<le>PAGES. taken j ?s2 \<longleftrightarrow> j = PAGES \<or> 1 \<le> j \<and> j < k \<or> j = 0 \<and> taken 0 s1"
    by (rule bits_onlyE)
  have "taken j ?s2 = taken j (s\<lparr>pmem := m\<rparr>)" for j
    unfolding m(1) by (simp add: taken_bit s1)
  moreover have "taken 0 s1 = taken 0 (set_pte (bitmap s) (bitmap s OR 3) s)"
    by (simp add: taken_bit s1)
  ultimately show ?thesis
    using map m by (intro exI [of _ c] exI [of _ m]) (simp add: s1)
qed

lemma dir_index_low: "dir_index va = 0 \<longleftrightarrow> unat va < 0x400000"
  by (simp add: dir_index_def div_eq_0_iff)

lemma identity_entry_index:
  assumes "frame b = b" and "dir_index b = 0"
  shows "identity_entry (table_index b) = b OR 3"
proof -
  have "unat b mod 4096 = 0" using assms(1) by (simp add: frame_fix)
  then have "of_nat (4096 * table_index b) = b" using dir_index_zero_address [OF assms(2)] by simp
  then show ?thesis
    by (simp add: identity_entry_def PAGE_PRESENT_def PAGE_WRITE_def or.assoc mult.commute)
qed

text \<open>The four pages taken at boot: the bitmap, the directory, the identity table, the last table.\<close>

definition boot_frames :: "u32 \<Rightarrow> u32 set" where
  "boot_frames b = {b, b + 0x1000, b + 0x2000, b + 0x3000}"

lemma boot_frames_facts:
  assumes "frame b = b" and "0x1000 \<le> unat b" and "unat b + 0x4000 \<le> 0x400000"
  shows "unat (b + 0x1000) = unat b + 0x1000" "unat (b + 0x2000) = unat b + 0x2000"
    "unat (b + 0x3000) = unat b + 0x3000"
    "frame (b + 0x1000) = b + 0x1000" "frame (b + 0x2000) = b + 0x2000"
    "frame (b + 0x3000) = b + 0x3000"
proof -
  show u: "unat (b + 0x1000) = unat b + 0x1000" "unat (b + 0x2000) = unat b + 0x2000"
    "unat (b + 0x3000) = unat b + 0x3000"
    using assms(3) by (subst unat_add_small; simp)+
  show "frame (b + 0x1000) = b + 0x1000" "frame (b + 0x2000) = b + 0x2000"
    "frame (b + 0x3000) = b + 0x3000"
    using assms(1) unfolding frame_fix u by simp_all
qed

lemma init_vmm_steps:
  assumes "pre_paging s"
  shows "\<exists>c m. init_vmm s = Inr (s\<lparr>con := c, pmem := m, pmm_location := bitmap s + 0x3000,
      kernel_page_directory := bitmap s + 0x1000, current_page_directory := bitmap s + 0x1000,
      cr3 := bitmap s + 0x1000, cr0 := cr0 s OR 0x80000000, first_free_index := 4,
      last_available_index := PAGES, pmm_paging_active := True\<rparr>)
    \<and> fresh_dir m (bitmap s + 0x1000) (bitmap s + 0x2000) (bitmap s + 0x3000)
    \<and> (\<forall>j\<le>PAGES. 1 \<le> j \<longrightarrow> taken j (s\<lparr>pmem := m\<rparr>) = (j = PAGES \<or> j < 4))
    \<and> (\<forall>a. frame a \<notin> boot_frames (bitmap s) \<longrightarrow> m a = pmem s a)"
proof -
  let ?b = "bitmap s" and ?d = "bitmap s + 0x1000" and ?t = "bitmap s + 0x2000"
    and ?u = "bitmap s + 0x3000"
  have pre: "\<not> paging s" "\<not> pmm_paging_active s" "kernel_page_directory s = 0" "pmm_location s = ?b"
    "frame ?b = ?b" "0x1000 \<le> unat ?b" "unat ?b + 0x4000 \<le> 0x400000"
    using assms by (simp_all add: pre_paging_def)
  note fr = boot_frames_facts [OF pre(5-7)]
  have ne: "?b \<noteq> ?d" "?b \<noteq> ?t" "?b \<noteq> ?u" "?d \<noteq> ?t" "?d \<noteq> ?u" "?t \<noteq> ?u"
    unfolding word_unat_eq_iff fr by simp_all
  define M where "M = kernel_tables ?d ?t ?u (pmem s)"
  obtain c where c: "create_kernel_directory s
      = Inr (?d, s\<lparr>con := c, pmem := M, pmm_location := ?u\<rparr>)"
    using create_kernel_directory_off [OF pre(1,2), of ?d ?t ?u] pre(4) fr by (auto simp: M_def)
  have fresh: "fresh_dir M ?d ?t ?u"
    unfolding M_def using ne by (intro kernel_tables_fresh fr)
  define s2 where "s2 = s\<lparr>con := c, pmem := M, pmm_location := ?u, kernel_page_directory := ?d,
    current_page_directory := ?d, cr3 := ?d, cr0 := cr0 s OR 0x80000000\<rparr>"
  have s2: "active_dir s2 = ?d" "pmem s2 = M" "bitmap s2 = ?b" "paging s2" "pmm_location s2 = ?u"
    using fr by (simp_all add: s2_def active_dir_def paging_def bit_or_iff)
  have wf2: "vm_wf s2" using fresh_dir_wf(1) [OF fresh] s2 by (simp add: vm_wf_def)
  have b0: "dir_index ?b = 0" using pre(7) by (simp add: dir_index_low)
  have pde2: "pde s2 ?b = ?t OR 3" using fresh b0 by (simp add: pde_def s2 fresh_dir_def)
  have tb2: "table_of s2 ?b = ?t" using pde2 fr by (simp add: table_of_def)
  define P where "P = pmem (set_pte ?b (?b OR 3) s2)"
  have P: "P = store32 M (?t + 4 * of_nat (table_index ?b)) (?b OR 3)"
    by (simp add: P_def set_pte_def tb2 s2)
  obtain c' m where cm: "map_pmm_to_virtual_space s2 = Inr (s2\<lparr>con := c', pmem := m,
      first_free_index := 4, last_available_index := PAGES\<rparr>)"
    "\<forall>a. frame a \<noteq> ?b \<longrightarrow> m a = P a"
    "\<forall>j\<le>PAGES. taken j (s2\<lparr>pmem := m\<rparr>)
        \<longleftrightarrow> j = PAGES \<or> 1 \<le> j \<and> j < 4 \<or> j = 0 \<and> taken 0 (set_pte ?b (?b OR 3) s2)"
    using map_pmm_eq [of s2 4] wf2 pde2 present_nonzero [OF fr(5)] pre(5)
    by (auto simp: s2 MEM_UNIT_SIZE_def PAGES_def P_def)
  have "init_vmm s = Inr (s2\<lparr>con := c', pmem := m, first_free_index := 4,
      last_available_index := PAGES, pmm_paging_active := True\<rparr>)"
    using c cm(1) pre(3)
    by (simp add: init_vmm_def create_page_directory_def switch_page_directory_def Let_def s2_def)
  moreover have "fresh_dir m ?d ?t ?u"
  proof -
    have em: "entry m f j = entry P f j" if "frame f = f" "f \<noteq> ?b" "j < 1024" for f j
      using that cm(2) by (intro entry_cong) auto
    have eP: "entry P f j = (if f = ?t \<and> j = table_index ?b then ?b OR 3 else entry M f j)"
      if "frame f = f" "j < 1024" for f j
      using entry_store [OF fr(5) that(1) table_index_less that(2)] by (auto simp: P)
    show ?thesis
      using fresh ne fr em eP identity_entry_index [OF pre(5) b0] by (simp add: fresh_dir_def)
  qed
  moreover have "taken j (s\<lparr>pmem := m\<rparr>) = (j = PAGES \<or> j < 4)" if "j \<le> PAGES" "1 \<le> j" for j
    using cm(3) that by (simp add: taken_bit s2_def)
  moreover have "m a = pmem s a" if "frame a \<notin> boot_frames ?b" for a
    using that cm(2) kernel_tables_mem [OF fr(4-6), of a "pmem s"]
      store_cell_frame [OF fr(5) table_index_less, of a]
    by (simp add: boot_frames_def P M_def)
  ultimately show ?thesis
    by (intro exI [of _ c'] exI [of _ m]) (simp add: s2_def)
qed

lemma init_vmm_result:
  assumes "pre_paging s"
  obtains s' m where "init_vmm s = Inr s'" and "pmem s' = m" and "bitmap s' = bitmap s"
    and "fresh_dir m (bitmap s + 0x1000) (bitmap s + 0x2000) (bitmap s + 0x3000)"
    and "active_dir s' = bitmap s + 0x1000" and "kernel_page_directory s' = bitmap s + 0x1000"
    and "paging s'" and "pmm_inv s'" and "free_set s' = {4..<PAGES}"
    and "\<forall>a. frame a \<notin> boot_frames (bitmap s) \<longrightarrow> m a = pmem s a"
proof -
  let ?b = "bitmap s"
  have pre: "frame ?b = ?b" "0x1000 \<le> unat ?b" "unat ?b + 0x4000 \<le> 0x400000"
    using assms by (simp_all add: pre_paging_def)
  obtain c m where steps: "init_vmm s = Inr (s\<lparr>con := c, pmem := m, pmm_location := ?b + 0x3000,
      kernel_page_directory := ?b + 0x1000, current_page_directory := ?b + 0x1000,
      cr3 := ?b + 0x1000, cr0 := cr0 s OR 0x80000000, first_free_index := 4,
      last_available_index := PAGES, pmm_paging_active := True\<rparr>)"
    "fresh_dir m (?b + 0x1000) (?b + 0x2000) (?b + 0x3000)"
    "\<forall>j\<le>PAGES. 1 \<le> j \<longrightarrow> taken j (s\<lparr>pmem := m\<rparr>) = (j = PAGES \<or> j < 4)"
    "\<forall>a. frame a \<notin> boot_frames ?b \<longrightarrow> m a = pmem s a"
    using init_vmm_steps [OF assms] by blast
  define s' where "s' = s\<lparr>con := c, pmem := m, pmm_location := ?b + 0x3000,
      kernel_page_directory := ?b + 0x1000, current_page_directory := ?b + 0x1000,
      cr3 := ?b + 0x1000, cr0 := cr0 s OR 0x80000000, first_free_index := 4,
      last_available_index := PAGES, pmm_paging_active := True\<rparr>"
  have tk: "taken j s' = (j = PAGES \<or> j < 4)" if "1 \<le> j" "j \<le> PAGES" for j
    using steps(3) that by (simp add: taken_bit s'_def)
  have f: "first_free_index s' = 4" "last_available_index s' = PAGES" "bitmap s' = ?b"
    "pmm_paging_active s'" by (simp_all add: s'_def)
  have pmm: "pmm_inv s'"
    using tk pre unfolding pmm_inv_def f by (auto simp: f PAGES_def frame_fix)
  have "free_set s' = {4..<PAGES}"
    unfolding free_set_def f using tk by auto
  then show ?thesis
    using pmm steps boot_frames_facts [OF pre]
    by (intro that [of s' m]) (simp_all add: s'_def active_dir_def paging_def bit_or_iff)
qed

subsection \<open>The booted kernel\<close>

text \<open>\<^verbatim>\<open>kmain\<close>: \<^verbatim>\<open>init_pmm(0x00300000)\<close> on a machine with empty memory, then \<^verbatim>\<open>init_vmm()\<close>.\<close>

definition vm_start :: vmm where
  "vm_start = init_pmm 0x00300000 (pmm.extend
     (kmm.extend km_boot (pmm.fields 0 0 0 0 False)) (vmm.fields 0x00000011 0 0 0))"

definition vm_boot :: vmm where "vm_boot = projr (init_vmm vm_start)"

lemma vm_start_fields [simp]:
  "bitmap vm_start = 0x00301000" "pmm_location vm_start = 0x00301000" "cr0 vm_start = 0x11"
  "kernel_page_directory vm_start = 0" "\<not> pmm_paging_active vm_start" "pmem vm_start = pmem km_boot"
  by (simp_all add: vm_start_def init_pmm_def kmm.defs pmm.defs vmm.defs PAGE_MASK_def)

lemma vm_start_pre: "pre_paging vm_start"
  by (simp add: pre_paging_def paging_def frame_fix)

lemma free_pages_range:
  assumes "pmm_inv s" and "p \<in> free_pages s"
  obtains i where "p = page_of s i" "i \<in> free_set s" "1 \<le> i" "i < PAGES"
    "unat p = unat (bitmap s) + 4096 * i"
  using assms free_set_bounded [OF assms(1)] unat_page_of [OF assms(1)]
  by (auto simp: free_pages_def)

lemma boot_frame_outside:
  assumes "frame b = b" and "unat b + 0x4000 \<le> 0x400000" and "0x1000 \<le> unat b"
    and "unat a < unat b \<or> unat b + 0x4000 \<le> unat a"
  shows "frame a \<notin> boot_frames b"
proof
  assume "frame a \<in> boot_frames b"
  then obtain k where k: "k < 4" "unat (frame a) = unat b + 4096 * k"
    using boot_frames_facts [OF assms(1,3,2)]
    by (auto simp: boot_frames_def intro: that [of 0] that [of 1] that [of 2] that [of 3])
  have "unat (frame a) \<le> unat a" "unat a < unat (frame a) + 4096"
    using mult_div_mod_eq [of 4096 "unat a"] by (simp_all add: unat_frame)
  with k assms(4) show False by linarith
qed

lemma init_vmm_space:
  assumes "pre_paging s"
  shows "\<exists>s'. init_vmm s = Inr s' \<and> vm_inv s' \<and> free_set s' = {4..<PAGES}
    \<and> active_dir s' = bitmap s + 0x1000 \<and> kernel_page_directory s' = bitmap s + 0x1000
    \<and> (\<forall>va. dir_index va < 1022 \<longrightarrow> translate s' va = (if unat va < 0x400000 then Some va else None))
    \<and> (\<forall>a. unat a < unat (bitmap s) \<or> unat (bitmap s) + 0x4000 \<le> unat a \<longrightarrow> pmem s' a = pmem s a)"
proof -
  have pre: "frame (bitmap s) = bitmap s" "0x1000 \<le> unat (bitmap s)"
    "unat (bitmap s) + 0x4000 \<le> 0x400000" using assms by (simp_all add: pre_paging_def)
  obtain s' m where b: "init_vmm s = Inr s'" "pmem s' = m" "bitmap s' = bitmap s"
    "fresh_dir m (bitmap s + 0x1000) (bitmap s + 0x2000) (bitmap s + 0x3000)"
    "active_dir s' = bitmap s + 0x1000" "kernel_page_directory s' = bitmap s + 0x1000"
    "paging s'" "pmm_inv s'" "free_set s' = {4..<PAGES}"
    "\<forall>a. frame a \<notin> boot_frames (bitmap s) \<longrightarrow> m a = pmem s a"
    by (rule init_vmm_result [OF assms])
  have tr: "translate s' va = (if unat va < 0x400000 then Some va else None)"
    if "dir_index va < 1022" for va
    using fresh_dir_walk [OF b(4) that] b(2,5,7)
    by (simp add: translate_def active_dir_def dir_index_low)
  have fr: "vm_frames s' = {bitmap s + 0x1000, bitmap s + 0x2000, bitmap s + 0x3000}"
    using fresh_dir_wf(2) [OF b(4)] b(2,5) by (simp add: vm_frames_def)
  note u = boot_frames_facts [OF pre]
  have "bitmap s' \<notin> vm_frames s'" "0 \<notin> vm_frames s'" "bitmap s' \<noteq> 0"
    using pre(2) unfolding fr b(3) word_unat_eq_iff insert_iff by (auto simp: u word_unat_eq_iff)
  moreover have "vm_frames s' \<inter> free_pages s' = {}"
  proof (rule ccontr)
    assume "vm_frames s' \<inter> free_pages s' \<noteq> {}"
    then obtain p where p: "p \<in> vm_frames s'" "p \<in> free_pages s'" by auto
    from free_pages_range [OF b(8) p(2)] obtain i where "i \<in> free_set s'"
      "unat p = unat (bitmap s) + 4096 * i" unfolding b(3) by blast
    with p(1) show False unfolding fr b(9) by (auto simp: u)
  qed
  moreover have "vm_wf s'" using fresh_dir_wf(1) [OF b(4)] b(2,5,7) by (simp add: vm_wf_def)
  moreover have "translate s' 0 = Some 0" using tr [of 0] by (simp add: dir_index_def)
  ultimately have "vm_inv s'" using b(8) by (simp add: vm_inv_def)
  with b tr boot_frame_outside [OF pre(1,3,2)] show ?thesis by auto
qed



subsection \<open>Properties of the mapping operations\<close>

lemma vm_boot_facts:
  "vm_inv vm_boot" "free_set vm_boot = {4..<PAGES}" "first_free_index vm_boot = 4"
  "bitmap vm_boot = 0x00301000" "active_dir vm_boot = 0x00302000"
  "dir_index va < 1022 \<Longrightarrow> translate vm_boot va = (if unat va < 0x400000 then Some va else None)"
  "unat a < 0x00301000 \<or> 0x00305000 \<le> unat a \<Longrightarrow> pmem vm_boot a = pmem km_boot a"
proof -
  obtain s' m where i: "init_vmm vm_start = Inr s'" "bitmap s' = bitmap vm_start"
    by (rule init_vmm_result [OF vm_start_pre]) blast
  then have b: "vm_boot = s'" by (simp add: vm_boot_def)
  obtain s'' where s: "init_vmm vm_start = Inr s''" "vm_inv s''" "free_set s'' = {4..<PAGES}"
    "active_dir s'' = bitmap vm_start + 0x1000"
    "\<forall>va. dir_index va < 1022 \<longrightarrow> translate s'' va = (if unat va < 0x400000 then Some va else None)"
    "\<forall>a. unat a < unat (bitmap vm_start) \<or> unat (bitmap vm_start) + 0x4000 \<le> unat a
      \<longrightarrow> pmem s'' a = pmem vm_start a"
    using init_vmm_space [OF vm_start_pre] by blast
  then have b': "s'' = vm_boot" using i(1) b by simp
  show inv: "vm_inv vm_boot" and fs: "free_set vm_boot = {4..<PAGES}"
    and "bitmap vm_boot = 0x00301000" and "active_dir vm_boot = 0x00302000"
    using s i(2) b b' by simp_all
  have "pmm_inv vm_boot" using inv by (simp add: vm_inv_def)
  from least_free(2) [OF this] fs have "first_free_index vm_boot = Min {4..<PAGES}"
    by (simp add: PAGES_def)
  also have "\<dots> = 4" by (rule Min_eqI) (auto simp: PAGES_def)
  finally show "first_free_index vm_boot = 4" .
  show "dir_index va < 1022 \<Longrightarrow> translate vm_boot va = (if unat va < 0x400000 then Some va else None)"
    and "unat a < 0x00301000 \<or> 0x00305000 \<le> unat a \<Longrightarrow> pmem vm_boot a = pmem km_boot a"
    using s(5,6) b' by auto
qed

lemma vm_boot_pde: "unat va < 0x400000 \<Longrightarrow> pde vm_boot va \<noteq> 0"
  using vm_boot_facts(1) vm_boot_facts(6) [of va] translate_eq [of vm_boot va]
  by (auto simp: vm_inv_def dir_index_low [THEN iffD2] split: if_splits)

text \<open>C11: If the page table of an address exists, map (with a present flag) maps the address's page to
  the given frame, changes the translation of no other address and no other invariant, takes no
  page, and get_mapping then reports the frame.\<close>

theorem map_page_maps_one_page:
  assumes "vm_inv s" and "pde s va \<noteq> 0" and "dir_index va < 1022" and "4096 \<le> unat va"
    and "flags < 0x1000" and "bit flags 0"
  shows "\<exists>s'. map_page va pa flags s = Inr s' \<and> vm_inv s' \<and> free_pages s' = free_pages s
    \<and> (\<forall>vb. translate s' vb = (if unat vb div 4096 = unat va div 4096
          then Some (frame pa + of_nat (unat vb mod 4096)) else translate s vb))
    \<and> get_mapping va s' = Inr (1, Some (frame pa))"
  using map_present_spec [OF assms] by blast

lemma map_page_maps_one_page_witness:
  "\<exists>s'. map_page 0x00123000 0x00456000 3 vm_boot = Inr s' \<and> translate s' 0x00123004 = Some 0x00456004
    \<and> translate s' 0x00200000 = Some 0x00200000"
proof -
  have "pde vm_boot 0x00123000 \<noteq> 0" by (intro vm_boot_pde) simp
  from map_page_maps_one_page [OF vm_boot_facts(1) this, of 3 "0x00456000"] obtain s' where
    s': "map_page 0x00123000 0x00456000 3 vm_boot = Inr s'"
    "\<forall>vb. translate s' vb = (if unat vb div 4096 = 0x123
          then Some (frame 0x00456000 + of_nat (unat vb mod 4096)) else translate vm_boot vb)"
    by (auto simp: dir_index_def)
  have "frame 0x00456000 = 0x00456000" by (simp add: frame_fix)
  with s' vm_boot_facts(6) [of "0x00200000"] show ?thesis by (auto simp: dir_index_def)
qed

text \<open>C29: If the page table of an address exists, unmap takes exactly the address's page out of the
  address space, and get_mapping then reports that there is a table but no page.\<close>

theorem unmap_removes_one_page:
  assumes "vm_inv s" and "pde s va \<noteq> 0" and "dir_index va < 1022" and "4096 \<le> unat va"
  shows "\<exists>s'. unmap va s = Inr s' \<and> vm_inv s' \<and> free_pages s' = free_pages s
    \<and> (\<forall>vb. translate s' vb
        = (if unat vb div 4096 = unat va div 4096 then None else translate s vb))
    \<and> get_mapping va s' = Inr (- 1, None)"
proof -
  have wf: "vm_wf s" using assms(1) by (simp add: vm_inv_def)
  note inv = set_pte_inv [OF assms, of 0]
  then have "vm_wf (set_pte va 0 s)" by (simp add: vm_inv_def)
  then have "get_mapping va (set_pte va 0 s) = Inr (- 1, None)"
    using wf assms(2,3) by (simp add: get_mapping_eq set_pte_pte)
  with inv unmap_present [OF wf assms(2)] translate_set_pte [OF wf assms(2,3), of 0] show ?thesis
    by auto
qed

lemma unmap_removes_one_page_witness:
  "\<exists>s'. unmap 0x00123000 vm_boot = Inr s' \<and> translate s' 0x00123004 = None
    \<and> translate s' 0x00200000 = Some 0x00200000"
proof -
  have "pde vm_boot 0x00123000 \<noteq> 0" by (intro vm_boot_pde) simp
  from unmap_removes_one_page [OF vm_boot_facts(1) this] obtain s' where
    s': "unmap 0x00123000 vm_boot = Inr s'"
    "\<forall>vb. translate s' vb = (if unat vb div 4096 = 0x123 then None else translate vm_boot vb)"
    by (auto simp: dir_index_def)
  with vm_boot_facts(6) [of "0x00200000"] show ?thesis by (auto simp: dir_index_def)
qed

lemma km_boot_zero: "0x00200008 \<le> unat a \<Longrightarrow> pmem km_boot a = 0"
  by (simp add: km_boot_def init_kernel_malloc_def Let_def set_is_available_def set_size_def
      store32_outside)

lemma vm_boot_fresh: "fresh_dir (pmem vm_boot) 0x00302000 0x00303000 0x00304000"
proof -
  obtain s' m where "init_vmm vm_start = Inr s'" "pmem s' = m"
    "fresh_dir m (bitmap vm_start + 0x1000) (bitmap vm_start + 0x2000) (bitmap vm_start + 0x3000)"
    by (rule init_vmm_result [OF vm_start_pre]) blast
  then show ?thesis by (simp add: vm_boot_def)
qed

lemma vm_boot_pde_zero: "0 < dir_index va \<Longrightarrow> dir_index va < 1022 \<Longrightarrow> pde vm_boot va = 0"
  using vm_boot_fresh by (simp add: pde_def vm_boot_facts(5) fresh_dir_def)

lemma vm_inv_outside:
  assumes "vm_inv s" and "\<forall>a. frame a = bitmap s \<or> frame a \<in> vm_frames s \<longrightarrow> m a = pmem s a"
  shows "vm_inv (s\<lparr>pmem := m\<rparr>)" and "translate (s\<lparr>pmem := m\<rparr>) va = translate s va"
    and "pde (s\<lparr>pmem := m\<rparr>) va = pde s va" and "free_pages (s\<lparr>pmem := m\<rparr>) = free_pages s"
proof -
  have wf: "vm_wf s" and pmm: "pmm_inv s" using assms(1) by (simp_all add: vm_inv_def)
  have "same_tables (pmem s) (active_dir s) m"
    using assms(2) by (simp add: same_tables_def vm_frames_def)
  note out = outside_update [OF wf this]
  have "\<forall>a. frame a = bitmap s \<longrightarrow> m a = pmem s a" using assms(2) by simp
  note pm = pmm_outside [OF pmm this]
  show "vm_inv (s\<lparr>pmem := m\<rparr>)" using assms(1) out pm by (simp add: vm_inv_def)
  show "translate (s\<lparr>pmem := m\<rparr>) va = translate s va" "pde (s\<lparr>pmem := m\<rparr>) va = pde s va"
    "free_pages (s\<lparr>pmem := m\<rparr>) = free_pages s" by (rule out pm)+
qed

lemma vm_boot_fresh_page:
  "page_of vm_boot 4 = 0x00305000" "frame a = 0x00305000 \<Longrightarrow> pmem vm_boot a = 0"
  "j < 1024 \<Longrightarrow> entry (pmem vm_boot) 0x00305000 j = 0"
proof -
  show "page_of vm_boot 4 = 0x00305000" by (simp add: page_of_def vm_boot_facts MEM_UNIT_SIZE_def)
  show z: "pmem vm_boot a = 0" if "frame a = 0x00305000" for a
  proof -
    have "unat (frame a) \<le> unat a" by (simp add: unat_frame)
    then have "0x00305000 \<le> unat a" by (simp add: that)
    then show ?thesis using vm_boot_facts(7) [of a] km_boot_zero [of a] by simp
  qed
  have "frame 0x00305000 = 0x00305000" by (simp add: frame_fix)
  then have "entry (pmem vm_boot) 0x00305000 j = entry (\<lambda>_. 0) 0x00305000 j" if "j < 1024"
    using that z by (intro entry_cong) auto
  then show "j < 1024 \<Longrightarrow> entry (pmem vm_boot) 0x00305000 j = 0"
    by (simp add: entry_def load32_def)
qed

lemma map_page_new_table:
  assumes "vm_inv s" and "pde s va = 0" and "dir_index va < 1022" and "free_set s \<noteq> {}"
    and "flags < 0x1000" and "bit flags 0" and "p = page_of s (Min (free_set s))"
    and "entry (pmem s) p 0 = 0"
  obtains s' where "map_page va pa flags s = Inr s'" and "vm_inv s'" and "free_pages s' = free_pages s - {p}"
    and "\<And>vb. dir_index vb < 1023 \<Longrightarrow> translate s' vb
        = (if unat vb div 4096 = unat va div 4096 then Some (frame pa + of_nat (unat vb mod 4096))
           else if dir_index vb = dir_index va
           then let e = entry (pmem s) p (table_index vb)
                in if bit e 0 then Some (frame e + of_nat (unat vb mod 4096)) else None
           else translate s vb)"
    and "\<And>a. unat a < 4096 \<Longrightarrow> pmem s' a = 0"
    and "vm_frames s' = insert p (vm_frames s)" and "pde s' va \<noteq> 0" and "p \<in> free_pages s"
    and "\<And>a. frame a \<notin> {0, bitmap s, p} \<union> vm_frames s \<Longrightarrow> pmem s' a = pmem s a"
    and "\<exists>m f. s' = s\<lparr>pmem := m, first_free_index := f\<rparr>"
proof -
  have pmm: "pmm_inv s" using assms(1) by (simp add: vm_inv_def)
  note least = least_free [OF pmm assms(4)]
  then have p: "p = page_of s (first_free_index s)" using assms(7) by simp
  obtain s2 where s2: "map_page va pa flags s = bindR (vmemset (entry (pmem s) p 0) 0 0x1000 s2)
       (vstore32 (PAGE_TABLE_VIRTUAL_ADDR + 4 * (va div 0x1000)) (frame pa OR flags))"
    "vm_inv s2" "free_pages s2 = free_pages s - {p}" "pde s2 va \<noteq> 0"
    "\<forall>vb. dir_index vb < 1023 \<longrightarrow> translate s2 vb = (if dir_index vb = dir_index va
         then let e = entry (pmem s) p (table_index vb)
              in if bit e 0 then Some (frame e + of_nat (unat vb mod 4096)) else None
         else translate s vb)"
    "vm_frames s2 = insert p (vm_frames s)" "\<exists>m f. s2 = s\<lparr>pmem := m, first_free_index := f\<rparr>"
    "\<forall>a. frame a \<noteq> bitmap s \<and> frame a \<noteq> active_dir s \<longrightarrow> pmem s2 a = pmem s a"
    by (rule map_page_absent [OF assms(1,3,2) least(1) p]) blast
  define s3 where "s3 = s2\<lparr>pmem := memset (pmem s2) 0 0 0x1000\<rparr>"
  note z = zero_page_fill [OF s2(2), folded s3_def]
  have "dir_index 0 = 0" by (simp add: dir_index_def)
  then have "dir_index va \<noteq> 0"
    using assms(2) vm_inv_dir(3) [OF assms(1)] by (metis pde_def)
  then have va: "4096 \<le> unat va" by (auto simp: dir_index_low)
  have pde3: "pde s3 va \<noteq> 0" using z(5) s2(4) by simp
  have wf3: "vm_wf s3" using z(2) by (simp add: vm_inv_def)
  then have "vstore32 (PAGE_TABLE_VIRTUAL_ADDR + 4 * (va div 0x1000)) (frame pa OR flags) s3
      = Inr (set_pte va (frame pa OR flags) s3)"
    using resolve_table_window [OF _ pde3] by (simp add: vstore32_def set_pte_def)
  then have map: "map_page va pa flags s = Inr (set_pte va (frame pa OR flags) s3)"
    using s2(1) z(1) assms(8) by simp
  note spec = map_present_spec [OF z(2) pde3 assms(3) va assms(5,6), of pa]
  have ne: "dir_index va \<noteq> 1023" using assms(3) by simp
  have wf2: "vm_wf s2" using s2(2) by (simp add: vm_inv_def)
  have m3: "pmem s3 a = (if frame a = 0 then 0 else pmem s2 a)" for a
    using memset_page [of 0 "pmem s2" 0 a] by (simp add: s3_def frame_def)
  have "same_tables (pmem s2) (active_dir s2) (pmem s3)"
    using s2(2) m3 by (auto simp: same_tables_def vm_inv_def vm_frames_def)
  then have f3: "vm_frames s3 = insert p (vm_frames s)"
    using outside_update(3) [OF wf2] s2(6) by (auto simp: s3_def)
  have tb: "table_of s3 va \<in> insert p (vm_frames s)" using pde_in_frames [OF wf3 pde3] f3 by simp
  have m4: "pmem (set_pte va (frame pa OR flags) s3) a = pmem s3 a" if "frame a \<noteq> table_of s3 va" for a
    using that store_cell_frame [of "table_of s3 va" "table_index va" a]
    by (simp add: set_pte_def table_index_less)
  have tb0: "table_of s3 va \<noteq> 0" using pde_in_frames [OF wf3 pde3] z(2) by (auto simp: vm_inv_def)
  have zero: "pmem (set_pte va (frame pa OR flags) s3) a = 0" if "unat a < 4096" for a
  proof -
    have "frame a = 0" using that by (simp add: word_unat_eq_iff unat_frame)
    with tb0 show ?thesis using m4 [of a] m3 [of a] by simp
  qed
  show ?thesis
  proof (rule that [of "set_pte va (frame pa OR flags) s3"])
    show "vm_frames (set_pte va (frame pa OR flags) s3) = insert p (vm_frames s)"
      using set_pte_frames [OF wf3 pde3 ne] f3 by simp
    show "pde (set_pte va (frame pa OR flags) s3) va \<noteq> 0" using set_pte_pde [OF wf3 pde3 ne] pde3 by simp
    show "p \<in> free_pages s" using first_free_in [OF pmm least(1)] by (simp add: p free_pages_def)
    show "pmem (set_pte va (frame pa OR flags) s3) a = pmem s a"
      if "frame a \<notin> {0, bitmap s, p} \<union> vm_frames s" for a
    proof -
      have "frame a \<noteq> table_of s3 va" "frame a \<noteq> active_dir s"
        using that tb vm_inv_dir(2) [OF assms(1)] by auto
      then show ?thesis using that m4 [of a] m3 [of a] s2(8) by simp
    qed
    obtain m f where "s2 = s\<lparr>pmem := m, first_free_index := f\<rparr>" using s2(7) by blast
    then have "set_pte va (frame pa OR flags) s3
        = s\<lparr>pmem := pmem (set_pte va (frame pa OR flags) s3), first_free_index := f\<rparr>"
      by (simp add: set_pte_def s3_def)
    then show "\<exists>m f. set_pte va (frame pa OR flags) s3 = s\<lparr>pmem := m, first_free_index := f\<rparr>" by blast
  qed (use map spec(2,3,4) z(3,4) s2(3,5) zero in auto)
qed



text \<open>If the page table of an address does not exist and the page taken for it starts with the
  address of an unmapped page, map faults on that address instead of mapping anything.\<close>

theorem map_page_new_table_faults:
  assumes "vm_inv s" and "pde s va = 0" and "dir_index va < 1022" and "free_set s \<noteq> {}"
    and "p = page_of s (Min (free_set s))" and "entry (pmem s) p 0 = x"
    and "dir_index x < 1023" and "dir_index x \<noteq> dir_index va" and "translate s x = None"
  shows "map_page va pa flags s = Inl (PageFault x)"
proof -
  have pmm: "pmm_inv s" using assms(1) by (simp add: vm_inv_def)
  note least = least_free [OF pmm assms(4)]
  then have p: "p = page_of s (first_free_index s)" using assms(5) by simp
  obtain s2 where s2: "map_page va pa flags s = bindR (vmemset (entry (pmem s) p 0) 0 0x1000 s2)
       (vstore32 (PAGE_TABLE_VIRTUAL_ADDR + 4 * (va div 0x1000)) (frame pa OR flags))"
    "\<forall>vb. dir_index vb < 1023 \<longrightarrow> translate s2 vb = (if dir_index vb = dir_index va
         then let e = entry (pmem s) p (table_index vb)
              in if bit e 0 then Some (frame e + of_nat (unat vb mod 4096)) else None
         else translate s vb)"
    by (rule map_page_absent [OF assms(1,3,2) least(1) p]) blast
  then have "translate s2 x = None" using assms(7-9) by simp
  with s2(1) show ?thesis by (simp add: assms(6) vmemset_fault)
qed

lemma map_page_new_table_faults_witness:
  "map_page 0xD0000000 0x00306000 3
     (vm_boot\<lparr>pmem := store32 (pmem vm_boot) (0x00305000 + 4 * of_nat 0) 0xABCD0000\<rparr>)
   = Inl (PageFault 0xABCD0000)"
proof -
  let ?m = "store32 (pmem vm_boot) (0x00305000 + 4 * of_nat 0) 0xABCD0000"
  let ?s = "vm_boot\<lparr>pmem := ?m\<rparr>"
  have al: "frame 0x00305000 = 0x00305000" by (simp add: frame_fix)
  have "vm_frames vm_boot = {0x00302000, 0x00303000, 0x00304000}"
    using fresh_dir_wf(2) [OF vm_boot_fresh] by (simp add: vm_frames_def vm_boot_facts(5))
  then have out: "\<forall>a. frame a = bitmap vm_boot \<or> frame a \<in> vm_frames vm_boot \<longrightarrow> ?m a = pmem vm_boot a"
    using store_cell_frame [OF al, of 0] by (auto simp: vm_boot_facts(4))
  note inv = vm_inv_outside [OF vm_boot_facts(1) out]
  have pmm: "pmm_inv ?s" using inv(1) by (simp add: vm_inv_def)
  have ne: "free_set ?s \<noteq> {}"
    using free_set_empty_iff [OF pmm] vm_boot_facts(3) by (simp add: PAGES_def)
  have "Min (free_set ?s) = 4" using least_free(2) [OF pmm ne] vm_boot_facts(3) by simp
  then have p: "0x00305000 = page_of ?s (Min (free_set ?s))"
    using vm_boot_fresh_page(1) by (simp add: page_of_def)
  have "pde ?s 0xD0000000 = 0" "translate ?s 0xABCD0000 = None"
    using inv(2,3) vm_boot_pde_zero [of "0xD0000000"] vm_boot_facts(6) [of "0xABCD0000"]
    by (simp_all add: dir_index_def)
  moreover have "entry (pmem ?s) 0x00305000 0 = 0xABCD0000"
    using entry_store [OF al al, of 0 0] by simp
  ultimately show ?thesis
    by (intro map_page_new_table_faults [OF inv(1) _ _ ne p]) (simp_all add: dir_index_def)
qed

end
