(* ===== verification/DataArea.thy ===== *)
theory DataArea
  imports KernelSpace
begin

text \<open>
  Data under paging. A data area is a set of addresses that are mapped, injectively, to memory that
  holds neither page tables nor the bitmap of the page allocator; reading and writing it is reading
  and writing a memory of its own (\<open>vview\<close>), and nothing else changes (\<open>wrote\<close>). Words may lie at any
  address and are accessed byte by byte (\<open>vread32\<close>, \<open>vwrite32\<close>). The heap and the message queues are
  proved over data areas.
\<close>

subsection \<open>Words at any address\<close>

definition vread32 :: "u32 \<Rightarrow> 'a vmm_scheme \<Rightarrow> kerror + u32" where
  "vread32 va s =
     bindR (vload8 va s) (\<lambda>b0. bindR (vload8 (va + 1) s) (\<lambda>b1.
     bindR (vload8 (va + 2) s) (\<lambda>b2. bindR (vload8 (va + 3) s) (\<lambda>b3.
     Inr (ucast b0 OR push_bit 8 (ucast b1) OR push_bit 16 (ucast b2) OR push_bit 24 (ucast b3))))))"

definition vwrite32 :: "u32 \<Rightarrow> u32 \<Rightarrow> 'a vmm_scheme \<Rightarrow> kerror + 'a vmm_scheme" where
  "vwrite32 va v s =
     bindR (vstore8 va (ucast v) s) (\<lambda>s. bindR (vstore8 (va + 1) (ucast (drop_bit 8 v)) s) (\<lambda>s.
     bindR (vstore8 (va + 2) (ucast (drop_bit 16 v)) s) (vstore8 (va + 3) (ucast (drop_bit 24 v)))))"

subsection \<open>Writing outside the tables\<close>

definition plain_mem :: "'a vmm_scheme \<Rightarrow> u32 \<Rightarrow> bool" where
  "plain_mem s p \<longleftrightarrow> frame p \<notin> vm_frames s \<and> frame p \<noteq> bitmap s"

lemma plain_update:
  assumes "vm_inv s" and "\<And>a. \<not> plain_mem s a \<Longrightarrow> m a = pmem s a"
  shows "vm_inv (s\<lparr>pmem := m\<rparr>)" and "translate (s\<lparr>pmem := m\<rparr>) = translate s"
    and "vm_frames (s\<lparr>pmem := m\<rparr>) = vm_frames s" and "pde (s\<lparr>pmem := m\<rparr>) = pde s"
    and "free_pages (s\<lparr>pmem := m\<rparr>) = free_pages s" and "plain_mem (s\<lparr>pmem := m\<rparr>) = plain_mem s"
proof -
  have wf: "vm_wf s" and pmm: "pmm_inv s" using assms(1) by (simp_all add: vm_inv_def)
  have st: "same_tables (pmem s) (active_dir s) m"
    using assms(2) by (auto simp: same_tables_def plain_mem_def vm_frames_def)
  note up = outside_update [OF wf st]
  have bm: "\<forall>a. frame a = bitmap s \<longrightarrow> m a = pmem s a" using assms(2) by (auto simp: plain_mem_def)
  note fr = pmm_outside [OF pmm bm]
  show "translate (s\<lparr>pmem := m\<rparr>) = translate s" "pde (s\<lparr>pmem := m\<rparr>) = pde s"
    "vm_frames (s\<lparr>pmem := m\<rparr>) = vm_frames s" "free_pages (s\<lparr>pmem := m\<rparr>) = free_pages s"
    using up fr by (simp_all add: fun_eq_iff)
  then show "vm_inv (s\<lparr>pmem := m\<rparr>)" "plain_mem (s\<lparr>pmem := m\<rparr>) = plain_mem s"
    using assms(1) up(1) fr(1) by (simp_all add: vm_inv_def plain_mem_def fun_eq_iff)
qed

subsection \<open>Data areas\<close>

definition data_area :: "'a vmm_scheme \<Rightarrow> u32 set \<Rightarrow> bool" where
  "data_area s A \<longleftrightarrow> vm_inv s \<and> inj_on (translate s) A
     \<and> (\<forall>a\<in>A. \<exists>p. translate s a = Some p \<and> plain_mem s p)"

definition vview :: "'a vmm_scheme \<Rightarrow> mem" where
  "vview s a = pmem s (the (translate s a))"

text \<open>\<open>s'\<close> is \<open>s\<close> but for the console and for the memory of the area, which now reads as \<open>m\<close>.\<close>

definition wrote :: "'a vmm_scheme \<Rightarrow> u32 set \<Rightarrow> mem \<Rightarrow> 'a vmm_scheme \<Rightarrow> bool" where
  "wrote s A m s' \<longleftrightarrow> (\<exists>c q. s' = s\<lparr>con := c, pmem := q\<rparr>) \<and> data_area s A \<and> data_area s' A
     \<and> translate s' = translate s \<and> pde s' = pde s \<and> vm_frames s' = vm_frames s
     \<and> free_pages s' = free_pages s \<and> (\<forall>a\<in>A. vview s' a = m a)
     \<and> (\<forall>p. (\<forall>a\<in>A. translate s a \<noteq> Some p) \<longrightarrow> pmem s' p = pmem s p)"

lemma data_area_subset: "data_area s A \<Longrightarrow> B \<subseteq> A \<Longrightarrow> data_area s B"
  by (auto simp: data_area_def intro: inj_on_subset)

lemma wrote_refl: "data_area s A \<Longrightarrow> wrote s A (vview s) s"
  by (auto simp: wrote_def intro!: exI [of _ "con s"] exI [of _ "pmem s"])

lemma wrote_trans:
  assumes "wrote s A m s1" and "wrote s1 A m' s2"
  shows "wrote s A m' s2"
proof -
  obtain c q where "s1 = s\<lparr>con := c, pmem := q\<rparr>" using assms(1) by (auto simp: wrote_def)
  moreover obtain c' q' where "s2 = s1\<lparr>con := c', pmem := q'\<rparr>" using assms(2) by (auto simp: wrote_def)
  ultimately have "\<exists>c q. s2 = s\<lparr>con := c, pmem := q\<rparr>"
    by (intro exI [of _ c'] exI [of _ q']) simp
  then show ?thesis using assms by (simp add: wrote_def)
qed

lemma wrote_cong: "wrote s A m s' \<Longrightarrow> (\<And>a. a \<in> A \<Longrightarrow> m a = m' a) \<Longrightarrow> wrote s A m' s'"
  by (simp add: wrote_def)

lemma wroteD:
  assumes "wrote s A m s'"
  shows "data_area s A" and "data_area s' A" and "translate s' = translate s" and "pde s' = pde s"
    and "free_pages s' = free_pages s" and "a \<in> A \<Longrightarrow> vview s' a = m a"
  using assms by (simp_all add: wrote_def)

lemma con_update_area [simp]:
  "free_pages (s\<lparr>con := c\<rparr>) = free_pages s" "vm_inv (s\<lparr>con := c\<rparr>) = vm_inv s"
  "plain_mem (s\<lparr>con := c\<rparr>) p = plain_mem s p"
proof -
  have t: "taken j (s\<lparr>con := c\<rparr>) = taken j s" for j by (simp add: taken_bit bitmap_byte_def)
  then have p: "pmm_inv (s\<lparr>con := c\<rparr>) = pmm_inv s" by (simp add: pmm_inv_def)
  show f: "free_pages (s\<lparr>con := c\<rparr>) = free_pages s"
    by (simp add: free_pages_def free_set_def t page_of_def)
  show "vm_inv (s\<lparr>con := c\<rparr>) = vm_inv s" using p f by (simp add: vm_inv_def)
  show "plain_mem (s\<lparr>con := c\<rparr>) p = plain_mem s p" by (simp add: plain_mem_def)
qed

lemma con_update_view [simp]:
  "data_area (s\<lparr>con := c\<rparr>) A = data_area s A" "vview (s\<lparr>con := c\<rparr>) = vview s"
  by (simp_all add: data_area_def vview_def fun_eq_iff inj_on_def)

lemma wrote_con: "data_area s A \<Longrightarrow> wrote s A (vview s) (s\<lparr>con := c\<rparr>)"
  by (auto simp: wrote_def fun_eq_iff intro!: exI [of _ c] exI [of _ "pmem s"])

lemma vload8_area: "data_area s A \<Longrightarrow> a \<in> A \<Longrightarrow> vload8 a s = Inr (vview s a)"
  by (auto simp: data_area_def vload8_def resolve_def vview_def)

lemma vstore8_area:
  assumes "data_area s A" and "a \<in> A"
  shows "\<exists>s'. vstore8 a v s = Inr s' \<and> wrote s A ((vview s)(a := v)) s'"
proof -
  from assms obtain p where p: "translate s a = Some p" "plain_mem s p" by (auto simp: data_area_def)
  let ?s = "s\<lparr>pmem := (pmem s)(p := v)\<rparr>"
  have inv: "vm_inv s" using assms(1) by (simp add: data_area_def)
  have keep: "((pmem s)(p := v)) b = pmem s b" if "\<not> plain_mem s b" for b using that p(2) by auto
  note up = plain_update [of s "(pmem s)(p := v)", OF inv keep]
  have "data_area ?s A" using assms(1) up by (simp add: data_area_def)
  moreover have "vview ?s b = ((vview s)(a := v)) b" if b: "b \<in> A" for b
  proof -
    obtain q where q: "translate s b = Some q" using b assms(1) by (auto simp: data_area_def)
    have "q = p \<longleftrightarrow> b = a"
      using inj_on_eq_iff [of "translate s" A b a] assms b p(1) q by (simp add: data_area_def)
    with p(1) q show ?thesis by (simp add: vview_def up(2))
  qed
  ultimately have "wrote s A ((vview s)(a := v)) ?s"
    unfolding wrote_def
  proof (intro conjI exI [of _ "con s"] exI [of _ "(pmem s)(p := v)"])
    show "\<forall>q. (\<forall>b\<in>A. translate s b \<noteq> Some q) \<longrightarrow> pmem ?s q = pmem s q" using assms(2) p(1) by auto
  qed (use assms(1) up in simp_all)
  moreover have "vstore8 a v s = Inr ?s" using p(1) by (simp add: vstore8_def resolve_def)
  ultimately show ?thesis by blast
qed

subsection \<open>Words in a data area\<close>

definition cell :: "u32 \<Rightarrow> u32 set" where "cell a = {a, a + 1, a + 2, a + 3}"

lemma vread32_area: "data_area s A \<Longrightarrow> cell a \<subseteq> A \<Longrightarrow> vread32 a s = Inr (load32 (vview s) a)"
  by (simp add: vread32_def vload8_area cell_def load32_def)

lemma vwrite32_area:
  assumes "data_area s A" and "cell a \<subseteq> A"
  shows "\<exists>s'. vwrite32 a v s = Inr s' \<and> wrote s A (store32 (vview s) a v) s'"
proof -
  have in_A: "a \<in> A" "a + 1 \<in> A" "a + 2 \<in> A" "a + 3 \<in> A" using assms(2) by (auto simp: cell_def)
  obtain s1 where s1: "vstore8 a (ucast v) s = Inr s1" "wrote s A ((vview s)(a := ucast v)) s1"
    using vstore8_area [OF assms(1) in_A(1)] by blast
  obtain s2 where s2: "vstore8 (a + 1) (ucast (drop_bit 8 v)) s1 = Inr s2"
    "wrote s1 A ((vview s1)(a + 1 := ucast (drop_bit 8 v))) s2"
    using vstore8_area [OF wroteD(2) [OF s1(2)] in_A(2)] by blast
  obtain s3 where s3: "vstore8 (a + 2) (ucast (drop_bit 16 v)) s2 = Inr s3"
    "wrote s2 A ((vview s2)(a + 2 := ucast (drop_bit 16 v))) s3"
    using vstore8_area [OF wroteD(2) [OF s2(2)] in_A(3)] by blast
  obtain s4 where s4: "vstore8 (a + 3) (ucast (drop_bit 24 v)) s3 = Inr s4"
    "wrote s3 A ((vview s3)(a + 3 := ucast (drop_bit 24 v))) s4"
    using vstore8_area [OF wroteD(2) [OF s3(2)] in_A(4)] by blast
  have "wrote s A ((vview s3)(a + 3 := ucast (drop_bit 24 v))) s4"
    using wrote_trans s1(2) s2(2) s3(2) s4(2) by blast
  then have "wrote s A (store32 (vview s) a v) s4"
    by (rule wrote_cong) (use wroteD(6) [OF s1(2)] wroteD(6) [OF s2(2)] wroteD(6) [OF s3(2)]
        in \<open>auto simp: store32_def\<close>)
  then show ?thesis using s1(1) s2(1) s3(1) s4(1) by (simp add: vwrite32_def)
qed

lemma load32_wrote: "wrote s A m s' \<Longrightarrow> cell a \<subseteq> A \<Longrightarrow> load32 (vview s') a = load32 m a"
  by (simp add: load32_def wroteD(6) cell_def)

subsection \<open>States that agree on memory, paging and the allocator\<close>

definition same_space :: "'a vmm_scheme \<Rightarrow> 'b vmm_scheme \<Rightarrow> bool" where
  "same_space s t \<longleftrightarrow> pmem s = pmem t \<and> cr0 s = cr0 t \<and> cr3 s = cr3 t \<and> bitmap s = bitmap t
     \<and> first_free_index s = first_free_index t \<and> last_available_index s = last_available_index t
     \<and> pmm_paging_active s = pmm_paging_active t"

lemma vmm_agree:
  assumes "same_space s t"
  shows "pmem s = pmem t" and "translate s = translate t" and "vm_frames s = vm_frames t" and "pde s = pde t"
    and "free_pages s = free_pages t" and "vm_inv s = vm_inv t" and "plain_mem s = plain_mem t"
    and "data_area s A = data_area t A" and "vview s = vview t" and "bitmap s = bitmap t"
proof -
  have f: "pmem s = pmem t" "cr0 s = cr0 t" "cr3 s = cr3 t" "bitmap s = bitmap t"
    "first_free_index s = first_free_index t" "last_available_index s = last_available_index t"
    "pmm_paging_active s = pmm_paging_active t"
    using assms by (simp_all add: same_space_def)
  have tk: "taken i s = taken i t" for i using f by (simp add: taken_bit bitmap_byte_def)
  show "pmem s = pmem t" "bitmap s = bitmap t" by (rule f)+
  show tr: "translate s = translate t" using f by (intro ext) (simp add: translate_def paging_def)
  show vf: "vm_frames s = vm_frames t" using f by (simp add: vm_frames_def active_dir_def)
  show "pde s = pde t" using f by (intro ext) (simp add: pde_def active_dir_def)
  have "free_set s = free_set t" using f tk by (simp add: free_set_def)
  then show fp: "free_pages s = free_pages t" using f by (simp add: free_pages_def page_of_def)
  have "pmm_inv s = pmm_inv t" using f tk by (simp add: pmm_inv_def)
  moreover have "vm_wf s = vm_wf t" using f by (simp add: vm_wf_def paging_def active_dir_def)
  ultimately show inv: "vm_inv s = vm_inv t" using f vf tr fp by (simp add: vm_inv_def)
  show pm: "plain_mem s = plain_mem t" using f vf by (intro ext) (simp add: plain_mem_def)
  show "data_area s A = data_area t A" using inv tr pm by (simp add: data_area_def)
  show "vview s = vview t" using f tr by (intro ext) (simp add: vview_def)
qed

end
