(* ===== verification/KHeap.thy ===== *)
theory KHeap
  imports DataArea "HOL-Library.Signed_Division"
begin

text \<open>
  \<^verbatim>\<open>code/mem/heap.c\<close>: the heap of a process. A \<^verbatim>\<open>Heap\<close> object lies in the kernel's own heap, which
  is typed here (\<open>heap_objs\<close>, by address); the chunk headers lie in the process's address space from
  \<^verbatim>\<open>HEAP_START\<close> on and are read and written byte by byte through the page tables, so that a header in
  an unmapped page faults and one that overlaps another one destroys it. A header is two words:
  \<^verbatim>\<open>next\<close>, and \<^verbatim>\<open>allocated\<close> (bit 0) with \<^verbatim>\<open>length\<close> (bits 1 to 31). The list walks need not end; they get
  \<open>loop_fuel\<close> rounds.
\<close>

subsection \<open>Heaps and chunk headers\<close>

definition HEAP_START :: u32 where "HEAP_START = 0xD0000000"
definition HEAP_END :: u32 where "HEAP_END = 0xFFBFF000"
definition sizeof_header :: u32 where "sizeof_header = 8"

record heap =
  current_mem_addr :: u32
  size_array :: "int list"
  list_array :: "u32 list"

record kheap = vmm +
  heap_objs :: "u32 \<rightharpoonup> heap"
  currentHeap :: u32

definition hdr_next :: "u32 \<Rightarrow> 'a kheap_scheme \<Rightarrow> kerror + u32" where
  "hdr_next node s = vread32 node s"

definition hdr_allocated :: "u32 \<Rightarrow> 'a kheap_scheme \<Rightarrow> kerror + u32" where
  "hdr_allocated node s = bindR (vread32 (node + 4) s) (\<lambda>w. Inr (w AND 1))"

definition hdr_length :: "u32 \<Rightarrow> 'a kheap_scheme \<Rightarrow> kerror + u32" where
  "hdr_length node s = bindR (vread32 (node + 4) s) (\<lambda>w. Inr (drop_bit 1 w))"

definition set_next :: "u32 \<Rightarrow> u32 \<Rightarrow> 'a kheap_scheme \<Rightarrow> kerror + 'a kheap_scheme" where
  "set_next node v s = vwrite32 node v s"

definition set_allocated :: "u32 \<Rightarrow> u32 \<Rightarrow> 'a kheap_scheme \<Rightarrow> kerror + 'a kheap_scheme" where
  "set_allocated node v s =
     bindR (vread32 (node + 4) s) (\<lambda>w. vwrite32 (node + 4) ((w AND NOT 1) OR (v AND 1)) s)"

definition set_length :: "u32 \<Rightarrow> u32 \<Rightarrow> 'a kheap_scheme \<Rightarrow> kerror + 'a kheap_scheme" where
  "set_length node v s =
     bindR (vread32 (node + 4) s) (\<lambda>w. vwrite32 (node + 4) ((w AND 1) OR push_bit 1 v) s)"

definition SIZES :: "int list" where
  "SIZES = [16, 32, 48, 64, 80, 96, 112, 128, 256, 512, -1]"

text \<open>\<^verbatim>\<open>Heap::Heap()\<close> on the object at \<open>this\<close>.\<close>

definition heap_ctor :: "u32 \<Rightarrow> 'a kheap_scheme \<Rightarrow> kerror + 'a kheap_scheme" where
  "heap_ctor this s =
     (let s = s\<lparr>heap_objs := (heap_objs s)(this \<mapsto>
            \<lparr>current_mem_addr = HEAP_START, size_array = SIZES, list_array = replicate 11 0\<rparr>)\<rparr>
      in bindR (pmm_alloc_page s) (\<lambda>(page, s).
         bindR (map_page HEAP_START page (PAGE_PRESENT OR PAGE_WRITE) s) (\<lambda>s.
         Inr (printlnk ''n2'' s))))"

definition update_heap :: "u32 \<Rightarrow> (heap \<Rightarrow> heap) \<Rightarrow> 'a kheap_scheme \<Rightarrow> kerror + 'a kheap_scheme" where
  "update_heap this f s =
     bindR (deref (heap_objs s) this) (\<lambda>h. Inr (s\<lparr>heap_objs := (heap_objs s)(this \<mapsto> f h)\<rparr>))"

text \<open>The index of the first size that is larger than \<open>length\<close>; the last one is for all others.\<close>

fun size_index :: "int list \<Rightarrow> nat \<Rightarrow> nat \<Rightarrow> u32 \<Rightarrow> nat" where
  "size_index sizes 0 index len = index"
| "size_index sizes (Suc n) index len =
     (if sint len < sizes ! index then index else size_index sizes n (index + 1) len)"

text \<open>The search in a list of standard chunks: the free node taken, if any, and the last node seen.\<close>

fun find_standard :: "nat \<Rightarrow> u32 \<Rightarrow> u32 \<Rightarrow> 'a kheap_scheme \<Rightarrow> kerror + (u32 \<times> u32 \<times> 'a kheap_scheme)" where
  "find_standard 0 node last_node s = Inl Hang"
| "find_standard (Suc n) node last_node s =
     (if node = 0 then Inr (0, last_node, s)
      else bindR (hdr_allocated node s) (\<lambda>al.
        if al = 0 then bindR (set_allocated node 1 s) (\<lambda>s. Inr (node, last_node, s))
        else bindR (hdr_next node s) (\<lambda>nxt. find_standard n nxt node s)))"

text \<open>
  The body of the loop of \<^verbatim>\<open>find_nonstandart_node\<close> on a free node: neighbours in the list that
  are both free are merged, into the first of them.
\<close>

definition merge_free :: "u32 \<Rightarrow> u32 \<Rightarrow> 'a kheap_scheme \<Rightarrow> kerror + (u32 \<times> 'a kheap_scheme)" where
  "merge_free node last_node s =
     (if last_node = 0 then Inr (node, s)
      else bindR (hdr_allocated last_node s) (\<lambda>al.
        if al \<noteq> 0 then Inr (node, s)
        else bindR (hdr_length last_node s) (\<lambda>l1. bindR (hdr_length node s) (\<lambda>l2.
             bindR (set_length last_node (l1 + l2) s) (\<lambda>s.
             bindR (hdr_next node s) (\<lambda>nxt.
             bindR (set_next last_node nxt s) (\<lambda>s. Inr (last_node, s))))))))"

fun find_nonstandart_node ::
  "nat \<Rightarrow> u32 \<Rightarrow> u32 \<Rightarrow> u32 \<Rightarrow> 'a kheap_scheme \<Rightarrow> kerror + (u32 \<times> u32 \<times> 'a kheap_scheme)" where
  "find_nonstandart_node 0 node len last_node s = Inl Hang"
| "find_nonstandart_node (Suc n) node len last_node s =
     (if node = 0 then Inr (0, last_node, s)
      else bindR (hdr_allocated node s) (\<lambda>al.
        if al = 0
        then bindR (merge_free node last_node s) (\<lambda>(node, s).
             bindR (hdr_length node s) (\<lambda>l.
             if l \<ge> len then Inr (node, last_node, s)
             else bindR (hdr_next node s) (\<lambda>nxt. find_nonstandart_node n nxt len node s)))
        else bindR (hdr_next node s) (\<lambda>nxt. find_nonstandart_node n nxt len node s)))"

definition split_chunk :: "u32 \<Rightarrow> u32 \<Rightarrow> 'a kheap_scheme \<Rightarrow> kerror + 'a kheap_scheme" where
  "split_chunk chunk len s =
     bindR (hdr_length chunk s) (\<lambda>l.
     if l - len > sizeof_header
     then let newchunk = chunk + l
          in bindR (set_next newchunk 0 s) (\<lambda>s.
             bindR (set_allocated newchunk 0 s) (\<lambda>s.
             bindR (hdr_length chunk s) (\<lambda>l.
             bindR (set_length newchunk (l - len) s) (\<lambda>s.
             bindR (set_next chunk newchunk s) (\<lambda>s.
             set_length chunk len s)))))
     else Inr s)"

text \<open>\<^verbatim>\<open>for (int i = 0; i < pages; i++)\<close>: one fresh page after the other from \<open>va\<close> on.\<close>

fun map_fresh :: "nat \<Rightarrow> u32 \<Rightarrow> 'a vmm_scheme \<Rightarrow> kerror + 'a vmm_scheme" where
  "map_fresh 0 va s = Inr s"
| "map_fresh (Suc n) va s =
     bindR (pmm_alloc_page s) (\<lambda>(page, s).
     bindR (map_page va page (PAGE_PRESENT OR PAGE_WRITE) s) (\<lambda>s.
     map_fresh n (va + 0x1000) s))"

text \<open>A new chunk at the end of the heap, appended to the list of its size.\<close>

definition new_chunk ::
  "u32 \<Rightarrow> nat \<Rightarrow> u32 \<Rightarrow> u32 \<Rightarrow> 'a kheap_scheme \<Rightarrow> kerror + (u32 \<times> 'a kheap_scheme)" where
  "new_chunk this index len last_node s =
     bindR (deref (heap_objs s) this) (\<lambda>h.
       let chunk_size = (if size_array h ! index = -1 then len else word_of_int (size_array h ! index));
           new_node_header = current_mem_addr h
       in bindR (set_next new_node_header 0 s) (\<lambda>s.
          bindR (set_allocated new_node_header 1 s) (\<lambda>s.
          bindR (set_length new_node_header chunk_size s) (\<lambda>s.
            let chunk_size = chunk_size + sizeof_header;
                next_page_addr = (current_mem_addr h AND 0xFFFFF000) + 0x1000;
                left_in_page = next_page_addr - current_mem_addr h;
                pages = sint (chunk_size - left_in_page) sdiv 0x1000 + 1
            in bindR (map_fresh (nat pages) next_page_addr s) (\<lambda>s.
               bindR (update_heap this (\<lambda>h. h\<lparr>current_mem_addr := current_mem_addr h + chunk_size\<rparr>) s) (\<lambda>s.
               bindR (if last_node \<noteq> 0 then set_next last_node new_node_header s
                      else update_heap this
                             (\<lambda>h. h\<lparr>list_array := (list_array h)[index := new_node_header]\<rparr>) s) (\<lambda>s.
               Inr (new_node_header + sizeof_header, s))))))))"

definition kmalloc :: "u32 \<Rightarrow> u32 \<Rightarrow> 'a kheap_scheme \<Rightarrow> kerror + (u32 \<times> 'a kheap_scheme)" where
  "kmalloc this len s =
     (if sint len < 0 then Inr (0, s)
      else bindR (deref (heap_objs s) this) (\<lambda>h.
        let index = size_index (size_array h) 10 0 len;
            node = list_array h ! index
        in if index = 10
           then let s = printlnk ''nonstandart'' s
                in bindR (find_nonstandart_node loop_fuel node len 0 s)
                     (\<lambda>(nonstandart_node, last_node, s).
                       if nonstandart_node \<noteq> 0
                       then bindR (split_chunk nonstandart_node (len + sizeof_header) s) (\<lambda>s.
                            bindR (set_allocated nonstandart_node 1 s) (\<lambda>s.
                            Inr (nonstandart_node + sizeof_header, s)))
                       else new_chunk this index len last_node s)
           else bindR (find_standard loop_fuel node 0 s) (\<lambda>(found, last_node, s).
                  if found \<noteq> 0 then Inr (found + sizeof_header, s)
                  else new_chunk this index len last_node s)))"

definition kfree :: "u32 \<Rightarrow> 'a kheap_scheme \<Rightarrow> kerror + 'a kheap_scheme" where
  "kfree p s =
     (let s = printk ''kfree addr: ('' s;
          s = printhexk p s;
          s = printlnk '')'' s
      in set_allocated (p - sizeof_header) 0 s)"

text \<open>The placement routine that \<^verbatim>\<open>kmalloc\<close> no longer calls: its merging loop, then its three cases.\<close>

fun accum_free :: "nat \<Rightarrow> u32 \<Rightarrow> u32 \<Rightarrow> u32 \<Rightarrow> u32 \<Rightarrow> 'a kheap_scheme \<Rightarrow> kerror + (u32 \<times> u32)" where
  "accum_free 0 start temp accum len s = Inl Hang"
| "accum_free (Suc n) start temp accum len s =
     (if temp = 0 then Inr (temp, accum)
      else bindR (hdr_allocated temp s) (\<lambda>al.
        if al \<noteq> 1 \<and> accum < len
        then bindR (hdr_length start s) (\<lambda>l. bindR (hdr_next temp s) (\<lambda>nxt.
             accum_free n start nxt (accum + l) len s))
        else Inr (temp, accum)))"

definition place_split :: "u32 \<Rightarrow> u32 \<Rightarrow> u32 \<Rightarrow> 'a kheap_scheme \<Rightarrow> kerror + (u32 \<times> 'a kheap_scheme)" where
  "place_split nonstandart_node node len s =
     bindR (hdr_length nonstandart_node s) (\<lambda>l.
     if l > len
     then let s = printlnk ''split'' s
          in if l - len > sizeof_header
             then let leftovers_node = nonstandart_node + l
                  in bindR (hdr_next nonstandart_node s) (\<lambda>nxt.
                     bindR (set_next leftovers_node nxt s) (\<lambda>s.
                     bindR (set_allocated leftovers_node 0 s) (\<lambda>s.
                     bindR (hdr_length nonstandart_node s) (\<lambda>l.
                     bindR (set_length leftovers_node (l - len) s) (\<lambda>s.
                     bindR (set_next nonstandart_node leftovers_node s) (\<lambda>s.
                     bindR (set_length nonstandart_node len s) (\<lambda>s.
                     Inr (nonstandart_node + sizeof_header, s))))))))
             else Inr (sizeof_header, s)
     else let s = printlnk ''match'' s
          in bindR (set_allocated node 1 s) (\<lambda>s. Inr (node + sizeof_header, s)))"

definition place_nonstandart_node ::
  "u32 \<Rightarrow> u32 \<Rightarrow> u32 \<Rightarrow> 'a kheap_scheme \<Rightarrow> kerror + (u32 \<times> 'a kheap_scheme)" where
  "place_nonstandart_node nonstandart_node node len s =
     bindR (hdr_length nonstandart_node s) (\<lambda>l.
     if l < len
     then let s = printlnk ''merge'' s
          in bindR (accum_free loop_fuel nonstandart_node nonstandart_node 0 len s) (\<lambda>(temp, accum).
             if accum < len then Inr (0, s)
             else bindR (set_length nonstandart_node accum s) (\<lambda>s.
                  bindR (set_next nonstandart_node temp s) (\<lambda>s.
                  place_split nonstandart_node node len s)))
     else place_split nonstandart_node node len s)"

end
