(* ===== verification/LinkedList.thy ===== *)
theory LinkedList
  imports Faults
begin

text \<open>
  Singly linked lists through \<^verbatim>\<open>next\<close> pointers, as the ready queue and the message queue use them.
  \<open>chain\<close> says which list of addresses a pointer leads to; \<open>list_end\<close> is the loop
  \<^verbatim>\<open>while (it->next) it = it->next\<close> of the code. The locale \<open>linked_list\<close> is the interface of a
  store of nodes; its lemmas say what appending and unlinking a node do to a chain.
\<close>

fun list_end :: "(u32 \<Rightarrow> kerror + u32) \<Rightarrow> nat \<Rightarrow> u32 \<Rightarrow> kerror + u32" where
  "list_end nxt 0 it = Inl Hang"
| "list_end nxt (Suc n) it = bindR (nxt it) (\<lambda>q. if q \<noteq> 0 then list_end nxt n q else Inr it)"

fun chain :: "(u32 \<rightharpoonup> u32) \<Rightarrow> u32 \<Rightarrow> u32 list \<Rightarrow> bool" where
  "chain nxt p [] \<longleftrightarrow> p = 0"
| "chain nxt p (x # xs) \<longleftrightarrow> p = x \<and> x \<noteq> 0 \<and> (case nxt x of None \<Rightarrow> False | Some q \<Rightarrow> chain nxt q xs)"

lemma chain_null [simp]: "chain nxt 0 xs \<longleftrightarrow> xs = []"
  by (cases xs) auto

lemma chain_Cons: "chain nxt p (x # xs) \<longleftrightarrow> p = x \<and> x \<noteq> 0 \<and> (\<exists>q. nxt x = Some q \<and> chain nxt q xs)"
  by (auto split: option.splits)

declare chain.simps(2) [simp del] chain_Cons [simp]

lemma chain_nonnull: "p \<noteq> 0 \<Longrightarrow> chain nxt p xs \<longleftrightarrow> (\<exists>q ys. xs = p # ys \<and> nxt p = Some q \<and> chain nxt q ys)"
  by (cases xs) auto

lemma chain_unique: "chain nxt p xs \<Longrightarrow> chain nxt p ys \<Longrightarrow> xs = ys"
proof (induction xs arbitrary: p ys)
  case Nil
  then show ?case by simp
next
  case (Cons x xs)
  then show ?case by (auto simp: chain_nonnull)
qed

lemma chain_append:
  "chain nxt p (xs @ y # ys) \<Longrightarrow> chain nxt y (y # ys)"
  by (induction xs arbitrary: p) (auto split: option.splits)

lemma chain_distinct: "chain nxt p xs \<Longrightarrow> distinct xs"
proof (induction xs arbitrary: p)
  case Nil
  then show ?case by simp
next
  case (Cons x xs)
  from Cons.prems obtain q where q: "nxt x = Some q" "chain nxt q xs" "x \<noteq> 0" by auto
  have "x \<notin> set xs"
  proof
    assume "x \<in> set xs"
    then obtain as bs where xs: "xs = as @ x # bs" by (auto dest: split_list)
    with q(2) have "chain nxt q (as @ x # bs)" by simp
    then have "chain nxt x (x # bs)" by (rule chain_append)
    then have "chain nxt q bs" using q(1) by simp
    with q(2) have "xs = bs" by (rule chain_unique)
    with xs show False by simp
  qed
  with Cons.IH [OF q(2)] show ?case by simp
qed

lemma chain_nonzero: "chain nxt p xs \<Longrightarrow> x \<in> set xs \<Longrightarrow> x \<noteq> 0"
  by (induction xs arbitrary: p) (auto split: option.splits)

lemma chain_dom: "chain nxt p xs \<Longrightarrow> x \<in> set xs \<Longrightarrow> nxt x \<noteq> None"
  by (induction xs arbitrary: p) (auto split: option.splits)

lemma chain_fuel:
  assumes "chain nxt p xs"
  shows "length xs < loop_fuel"
proof -
  have "set xs \<subseteq> UNIV - {0 :: u32}" using chain_nonzero [OF assms] by auto
  then have "card (set xs) \<le> card (UNIV - {0 :: u32})" by (intro card_mono) simp_all
  moreover have "card (UNIV - {0 :: u32}) < 2 ^ 32"
    by (simp add: card_Diff_singleton card_word)
  ultimately show ?thesis
    using distinct_card [OF chain_distinct [OF assms]] by (simp add: loop_fuel_def)
qed

lemma chain_cong:
  assumes "\<And>x. x \<in> set xs \<Longrightarrow> nxt' x = nxt x"
  shows "chain nxt' p xs = chain nxt p xs"
  using assms by (induction xs arbitrary: p) (auto split: option.splits)

lemma chain_frame: "chain nxt p xs \<Longrightarrow> y \<notin> set xs \<Longrightarrow> chain (nxt(y \<mapsto> q)) p xs"
  by (subst chain_cong) auto

text \<open>The loop to the end of a chain.\<close>

lemma list_end_chain:
  assumes "chain nxt p xs" and "xs \<noteq> []" and "length xs \<le> n"
    and "\<And>x. x \<in> set xs \<Longrightarrow> f x = (case nxt x of None \<Rightarrow> Inl (WildPtr x) | Some q \<Rightarrow> Inr q)"
  shows "list_end f n p = Inr (last xs)"
  using assms
proof (induction xs arbitrary: p n)
  case Nil
  then show ?case by simp
next
  case (Cons x xs)
  then obtain q k where q: "p = x" "nxt x = Some q" "chain nxt q xs" "n = Suc k"
    by (cases n) auto
  have "f x = Inr q" using Cons.prems(4) [of x] q by simp
  then show ?case
    using q Cons.prems Cons.IH [OF q(3)] by (cases "xs = []") (auto simp: chain_nonnull)
qed

subsection \<open>Changing one link\<close>

lemma chain_snoc:
  assumes "chain nxt p xs" and "xs \<noteq> []" and "y \<notin> set xs" and "y \<noteq> 0" and "nxt y = Some 0"
  shows "chain (nxt(last xs \<mapsto> y)) p (xs @ [y])"
  using assms
proof (induction xs arbitrary: p)
  case Nil
  then show ?case by simp
next
  case (Cons x xs)
  from Cons.prems(1) obtain q where q: "p = x" "x \<noteq> 0" "nxt x = Some q" "chain nxt q xs"
    by auto
  show ?case
  proof (cases "xs = []")
    case True
    with q Cons.prems show ?thesis by simp
  next
    case False
    then have "last xs \<noteq> x" using chain_distinct [OF Cons.prems(1)] last_in_set by fastforce
    with False q Cons show ?thesis by simp
  qed
qed

lemma chain_unlink:
  assumes "chain nxt p (xs @ x # y # ys)" and "nxt y = Some q"
  shows "chain (nxt(x \<mapsto> q)) p (xs @ x # ys)"
  using assms
proof (induction xs arbitrary: p)
  case Nil
  have "distinct (x # y # ys)" using chain_distinct [OF Nil(1)] by simp
  with Nil chain_frame [of nxt q ys x q] show ?case
    by (auto simp: fun_upd_same simp del: fun_upd_apply)
next
  case (Cons z xs)
  then have "z \<noteq> x" using chain_distinct [OF Cons.prems(1)] by auto
  with Cons show ?case by auto
qed

lemma chain_link: "chain nxt p (xs @ x # y # ys) \<Longrightarrow> nxt x = Some y"
  by (induction xs arbitrary: p) auto

lemma chain_last: "chain nxt p (xs @ [x]) \<Longrightarrow> nxt x = Some 0"
  by (induction xs arbitrary: p) auto

subsection \<open>The interface of a store of nodes\<close>

locale linked_list =
  fixes nxt :: "'s \<Rightarrow> u32 \<rightharpoonup> u32"
    and put :: "u32 \<Rightarrow> 'n \<Rightarrow> 's \<Rightarrow> 's"
    and link :: "'n \<Rightarrow> u32"
  assumes nxt_put: "nxt (put p n s) = (nxt s)(p \<mapsto> link n)"
begin

definition members :: "'s \<Rightarrow> u32 \<Rightarrow> u32 list \<Rightarrow> bool" where
  "members s p xs \<longleftrightarrow> chain (nxt s) p xs"

lemma append_node:
  assumes "members s p xs" and "xs \<noteq> []" and "y \<notin> set xs" and "y \<noteq> 0"
    and "nxt s y = Some 0" and "link n = y"
  shows "members (put (last xs) n s) p (xs @ [y])"
  using chain_snoc [of "nxt s" p xs y] assms by (simp add: members_def nxt_put)

lemma put_outside:
  assumes "members s p xs" and "y \<notin> set xs"
  shows "members (put y n s) p xs"
  using chain_frame [of "nxt s" p xs y] assms by (simp add: members_def nxt_put)

lemma unlink_node:
  assumes "members s p (xs @ x # y # ys)" and "nxt s y = Some (link n)"
  shows "members (put x n s) p (xs @ x # ys)"
  using chain_unlink [of "nxt s" p xs x y ys] assms by (simp add: members_def nxt_put)

lemma push_node:
  assumes "members s p xs" and "y \<notin> set xs" and "y \<noteq> 0" and "link n = p"
  shows "members (put y n s) y (y # xs)"
  using put_outside [OF assms(1,2), of n] assms(3,4) by (simp add: members_def nxt_put)

end

end
