(* ===== verification/HeapChunks.thy ===== *)
theory HeapChunks
  imports KHeap LinkedList
begin

text \<open>
  The lists of chunks of a process heap, over a data area that holds their headers: what a header
  says (\<open>chunk_next\<close>, \<open>chunk_free\<close>, \<open>chunk_len\<close>), that \<^verbatim>\<open>kmalloc\<close> for a standard size is first fit,
  that \<^verbatim>\<open>kfree\<close> clears one bit, and what splitting a chunk really does.
\<close>

subsection \<open>Headers\<close>

definition hdr_cells :: "u32 \<Rightarrow> u32 set" where "hdr_cells n = cell n \<union> cell (n + 4)"

definition chunk_next :: "mem \<Rightarrow> u32 \<Rightarrow> u32" where "chunk_next m n = load32 m n"
definition chunk_word :: "mem \<Rightarrow> u32 \<Rightarrow> u32" where "chunk_word m n = load32 m (n + 4)"
definition chunk_free :: "mem \<Rightarrow> u32 \<Rightarrow> bool" where "chunk_free m n \<longleftrightarrow> chunk_word m n AND 1 = 0"
definition chunk_len :: "mem \<Rightarrow> u32 \<Rightarrow> u32" where "chunk_len m n = drop_bit 1 (chunk_word m n)"

definition chunks :: "mem \<Rightarrow> u32 \<Rightarrow> u32 list \<Rightarrow> bool" where
  "chunks m p ns \<longleftrightarrow> chain (\<lambda>n. Some (chunk_next m n)) p ns"

lemma chunks_simps [simp]:
  "chunks m p [] \<longleftrightarrow> p = 0"
  "chunks m p (n # ns) \<longleftrightarrow> p = n \<and> n \<noteq> 0 \<and> chunks m (chunk_next m n) ns"
  by (simp_all add: chunks_def)

lemma chunks_length: "chunks m p ns \<Longrightarrow> length ns < loop_fuel"
  by (simp add: chunks_def chain_fuel)

text \<open>Reading and writing the fields of a header in the area.\<close>

lemma hdr_read:
  assumes "data_area s A" and "hdr_cells n \<subseteq> A"
  shows "hdr_next n s = Inr (chunk_next (vview s) n)"
    and "hdr_allocated n s = Inr (chunk_word (vview s) n AND 1)"
    and "hdr_length n s = Inr (chunk_len (vview s) n)"
  using assms by (simp_all add: hdr_next_def hdr_allocated_def hdr_length_def vread32_area hdr_cells_def
      chunk_next_def chunk_word_def chunk_len_def)

lemma set_next_area:
  assumes "data_area s A" and "hdr_cells n \<subseteq> A"
  shows "\<exists>s'. set_next n v s = Inr s' \<and> wrote s A (store32 (vview s) n v) s'"
  using vwrite32_area [OF assms(1), of n v] assms(2) by (simp add: set_next_def hdr_cells_def)

lemma set_word_area:
  assumes "data_area s A" and "hdr_cells n \<subseteq> A"
  shows "\<exists>s'. set_allocated n v s = Inr s'
      \<and> wrote s A (store32 (vview s) (n + 4) ((chunk_word (vview s) n AND NOT 1) OR (v AND 1))) s'"
    and "\<exists>s'. set_length n v s = Inr s'
      \<and> wrote s A (store32 (vview s) (n + 4) ((chunk_word (vview s) n AND 1) OR push_bit 1 v)) s'"
proof -
  have c: "cell (n + 4) \<subseteq> A" using assms(2) by (simp add: hdr_cells_def)
  have r: "vread32 (n + 4) s = Inr (chunk_word (vview s) n)"
    using vread32_area [OF assms(1) c] by (simp add: chunk_word_def)
  note w = vwrite32_area [OF assms(1) c]
  show "\<exists>s'. set_allocated n v s = Inr s'
      \<and> wrote s A (store32 (vview s) (n + 4) ((chunk_word (vview s) n AND NOT 1) OR (v AND 1))) s'"
    "\<exists>s'. set_length n v s = Inr s'
      \<and> wrote s A (store32 (vview s) (n + 4) ((chunk_word (vview s) n AND 1) OR push_bit 1 v)) s'"
    using w by (simp_all add: set_allocated_def set_length_def r)
qed

lemma wrote_chunk:
  assumes "wrote s A m s'" and "hdr_cells n \<subseteq> A"
  shows "chunk_next (vview s') n = chunk_next m n" and "chunk_word (vview s') n = chunk_word m n"
  using load32_wrote [OF assms(1), of n] load32_wrote [OF assms(1), of "n + 4"] assms(2)
  by (simp_all add: chunk_next_def chunk_word_def hdr_cells_def)

lemma chunk_store:
  "chunk_next (store32 m n v) n = v" "chunk_word (store32 m n v) n = chunk_word m n"
  "chunk_next (store32 m (n + 4) v) n = chunk_next m n" "chunk_word (store32 m (n + 4) v) n = v"
  by (simp_all add: chunk_next_def chunk_word_def load32_store32_same load32_store32_apart apart32_header)

text \<open>Headers that share no byte.\<close>

definition hdr_apart :: "u32 \<Rightarrow> u32 \<Rightarrow> bool" where
  "hdr_apart a b \<longleftrightarrow> 8 \<le> unat (a - b) \<and> 8 \<le> unat (b - a)"

lemma hdr_apart_cells:
  assumes "hdr_apart a b"
  shows "apart32 a b" "apart32 a (b + 4)" "apart32 (a + 4) b" "apart32 (a + 4) (b + 4)"
proof -
  have ge: "8 \<le> unat (a - b)" "8 \<le> unat (b - a)" using assms by (simp_all add: hdr_apart_def)
  have eq: "a - (b + 4) = (a - b) - 4" "b + 4 - a = (b - a) + 4" "a + 4 - b = (a - b) + 4"
    "b - (a + 4) = (b - a) - 4" "a + 4 - (b + 4) = a - b" "b + 4 - (a + 4) = b - a" by simp_all
  have ne: "a \<noteq> b" using ge by auto
  then have sum: "unat (a - b) + unat (b - a) = 2 ^ 32"
    using unat_diff_le [of b a] unat_diff_wrap [of b a] unat_diff_le [of a b] unat_diff_wrap [of a b]
      unat_u32_less [of a] unat_u32_less [of b] word_unat_eq_iff [of a b]
    by (cases "unat a < unat b") auto
  have "unat (a - b - 4) = unat (a - b) - 4" "unat (b - a - 4) = unat (b - a) - 4"
    using ge by (subst unat_diff_le; simp)+
  moreover have "4 \<le> unat (b - a + 4)" "4 \<le> unat (a - b + 4)"
    using ge sum by (subst unat_add_small; simp)+
  ultimately show "apart32 a b" "apart32 a (b + 4)" "apart32 (a + 4) b" "apart32 (a + 4) (b + 4)"
    unfolding apart32_def eq using ge by simp_all
qed

lemma chunk_store_apart:
  assumes "hdr_apart a b"
  shows "chunk_next (store32 m a v) b = chunk_next m b" "chunk_word (store32 m a v) b = chunk_word m b"
    "chunk_next (store32 m (a + 4) v) b = chunk_next m b" "chunk_word (store32 m (a + 4) v) b = chunk_word m b"
  using hdr_apart_cells [OF assms] by (simp_all add: chunk_next_def chunk_word_def load32_store32_apart)

lemma hdr_apart_sym: "hdr_apart a b \<Longrightarrow> hdr_apart b a"
  by (simp add: hdr_apart_def)

subsection \<open>Bits of the second word\<close>

lemma word_fields:
  fixes w v :: u32
  shows "((w AND NOT 1) OR (v AND 1)) AND 1 = v AND 1"
    and "drop_bit 1 ((w AND NOT 1) OR (v AND 1)) = drop_bit 1 w"
    and "((w AND 1) OR push_bit 1 v) AND 1 = w AND 1"
    and "drop_bit 1 ((w AND 1) OR push_bit 1 v) = take_bit 31 v"
    and "w AND 1 = 0 \<Longrightarrow> (w AND NOT 1) OR (1 AND 1) = w OR 1"
proof -
  define e :: u32 where "e = 1"
  have e: "bit e n \<longleftrightarrow> n = 0" for n by (simp add: e_def bit_1_iff)
  have p: "bit (push_bit 1 v) n \<longleftrightarrow> n \<noteq> 0 \<and> n < 32 \<and> bit v (n - 1)" for n
    unfolding bit_push_bit_iff by auto
  have d: "bit (drop_bit 1 x) n \<longleftrightarrow> bit x (n + 1)" for x :: u32 and n
    by (simp add: bit_drop_bit_eq)
  note bits = bit_and_iff bit_or_iff bit_not_iff bit_take_bit_iff p d e
  show "((w AND NOT 1) OR (v AND 1)) AND 1 = v AND 1"
    unfolding e_def [symmetric] by (rule bit_word_eqI) (auto simp: bit_and_iff bit_or_iff bit_not_iff e)
  show "drop_bit 1 ((w AND NOT 1) OR (v AND 1)) = drop_bit 1 w"
    unfolding e_def [symmetric]
    by (rule bit_word_eqI, unfold bits) (auto dest: bit_imp_le_length)
  show "((w AND 1) OR push_bit 1 v) AND 1 = w AND 1"
    unfolding e_def [symmetric] by (rule bit_word_eqI, unfold bits) auto
  show "drop_bit 1 ((w AND 1) OR push_bit 1 v) = take_bit 31 v"
    unfolding e_def [symmetric] by (rule bit_word_eqI, unfold bits) auto
  show "(w AND NOT 1) OR (1 AND 1) = w OR 1"
    unfolding e_def [symmetric]
    by (rule bit_word_eqI) (auto simp: bit_and_iff bit_or_iff bit_not_iff e)
qed

subsection \<open>First fit\<close>

lemma find_standard_all_taken:
  assumes "data_area s A" and "chunks (vview s) p ns" and "length ns < k"
    and "\<forall>n\<in>set ns. hdr_cells n \<subseteq> A \<and> \<not> chunk_free (vview s) n"
  shows "find_standard k p last_node s = Inr (0, if ns = [] then last_node else last ns, s)"
  using assms(2-4)
proof (induction ns arbitrary: p last_node k)
  case Nil
  then show ?case by (cases k) auto
next
  case (Cons n ns)
  then obtain j where j: "k = Suc j" by (cases k) auto
  from Cons.prems have n: "p = n" "n \<noteq> 0" "chunks (vview s) (chunk_next (vview s) n) ns" by simp_all
  with Cons.IH [OF n(3), of j n] Cons.prems j hdr_read [OF assms(1), of n] show ?case
    by (auto simp: chunk_free_def)
qed

lemma find_standard_first_free:
  assumes "data_area s A" and "chunks (vview s) p (as @ n # bs)" and "length as < k"
    and "\<forall>a\<in>set as. hdr_cells a \<subseteq> A \<and> \<not> chunk_free (vview s) a"
    and "hdr_cells n \<subseteq> A" and "chunk_free (vview s) n"
  shows "\<exists>l s'. find_standard k p last_node s = Inr (n, l, s')
    \<and> wrote s A (store32 (vview s) (n + 4) (chunk_word (vview s) n OR 1)) s'"
  using assms(2-4)
proof (induction as arbitrary: p last_node k)
  case Nil
  then obtain j where j: "k = Suc j" by (cases k) auto
  obtain s' where "set_allocated n 1 s = Inr s'"
    "wrote s A (store32 (vview s) (n + 4) (chunk_word (vview s) n OR 1)) s'"
    using set_word_area(1) [OF assms(1,5), of 1] word_fields(5) assms(6) by (auto simp: chunk_free_def)
  with Nil hdr_read [OF assms(1,5)] assms(6) j show ?case by (auto simp: chunk_free_def)
next
  case (Cons a as)
  then obtain j where j: "k = Suc j" by (cases k) auto
  from Cons.prems have a: "p = a" "a \<noteq> 0" "chunks (vview s) (chunk_next (vview s) a) (as @ n # bs)" by simp_all
  with Cons.IH [OF a(3), of j a] Cons.prems j hdr_read [OF assms(1), of a] show ?case
    by (auto simp: chunk_free_def)
qed

subsection \<open>The size classes\<close>

definition heap_ok :: "'a kheap_scheme \<Rightarrow> u32 \<Rightarrow> heap \<Rightarrow> bool" where
  "heap_ok s this h \<longleftrightarrow> this \<noteq> 0 \<and> heap_objs s this = Some h \<and> size_array h = SIZES
     \<and> length (list_array h) = 11"

lemma size_index_least:
  assumes "size_index szs k i len = j" and "j < i + k"
  shows "sint len < szs ! j" and "\<And>l. i \<le> l \<Longrightarrow> l < j \<Longrightarrow> szs ! l \<le> sint len"
proof -
  have "sint len < szs ! j \<and> (\<forall>l. i \<le> l \<and> l < j \<longrightarrow> szs ! l \<le> sint len)"
    using assms
  proof (induction k arbitrary: i)
    case 0
    then show ?case by simp
  next
    case (Suc k)
    show ?case
    proof (cases "sint len < szs ! i")
      case True
      with Suc.prems show ?thesis by auto
    next
      case False
      with Suc.prems Suc.IH [of "i + 1"] have "sint len < szs ! j"
        "\<forall>l. i + 1 \<le> l \<and> l < j \<longrightarrow> szs ! l \<le> sint len" by auto
      moreover from this False have "szs ! l \<le> sint len" if "i \<le> l" "l < j" for l
        using that by (cases "l = i") auto
      ultimately show ?thesis by simp
    qed
  qed
  then show "sint len < szs ! j" "\<And>l. i \<le> l \<Longrightarrow> l < j \<Longrightarrow> szs ! l \<le> sint len" by auto
qed

lemma kmalloc_first_fit:
  assumes "heap_ok s this h" and "data_area s A" and "0 \<le> sint len"
    and "size_index SIZES 10 0 len = i" and "i < 10"
    and "chunks (vview s) (list_array h ! i) (as @ n # bs)"
    and "\<forall>a\<in>set as. hdr_cells a \<subseteq> A \<and> \<not> chunk_free (vview s) a"
    and "hdr_cells n \<subseteq> A" and "chunk_free (vview s) n"
  shows "\<exists>s'. kmalloc this len s = Inr (n + 8, s')
    \<and> wrote s A (store32 (vview s) (n + 4) (chunk_word (vview s) n OR 1)) s'"
proof -
  have n: "n \<noteq> 0" using chain_nonzero [OF assms(6) [unfolded chunks_def], of n] by simp
  have len: "length as < loop_fuel" using chunks_length [OF assms(6)] by simp
  obtain l s' where "find_standard loop_fuel (list_array h ! i) 0 s = Inr (n, l, s')"
    "wrote s A (store32 (vview s) (n + 4) (chunk_word (vview s) n OR 1)) s'"
    using find_standard_first_free [OF assms(2,6) len assms(7-9)] by blast
  moreover have "deref (heap_objs s) this = Inr h" using assms(1) by (simp add: heap_ok_def)
  ultimately show ?thesis
    using assms(1,3-5) n by (simp add: kmalloc_def heap_ok_def sizeof_header_def Let_def del: find_standard.simps)
qed

subsection \<open>Freeing\<close>

lemma kfree_clears_bit:
  assumes "data_area s A" and "hdr_cells (p - 8) \<subseteq> A"
  shows "\<exists>s'. kfree p s = Inr s'
    \<and> wrote s A (store32 (vview s) (p - 4) (chunk_word (vview s) (p - 8) AND NOT 1)) s'"
proof -
  define c where "c = con (printlnk '')'' (printhexk p (printk ''kfree addr: ('' s)))"
  have s0: "printlnk '')'' (printhexk p (printk ''kfree addr: ('' s)) = s\<lparr>con := c\<rparr>"
    by (simp add: print_defs c_def)
  have area: "data_area (s\<lparr>con := c\<rparr>) A" using assms(1) by simp
  obtain s' where s': "set_allocated (p - 8) 0 (s\<lparr>con := c\<rparr>) = Inr s'" "wrote (s\<lparr>con := c\<rparr>) A
      (store32 (vview s) (p - 8 + 4) ((chunk_word (vview s) (p - 8) AND NOT 1) OR (0 AND 1))) s'"
    using set_word_area(1) [OF area assms(2), of 0] by auto
  have "wrote s A (store32 (vview s) (p - 8 + 4) ((chunk_word (vview s) (p - 8) AND NOT 1) OR (0 AND 1))) s'"
    by (rule wrote_trans [OF wrote_con [OF assms(1)] s'(2)])
  moreover have "p - 8 + 4 = p - 4" by simp
  moreover have "kfree p s = Inr s'" using s'(1) s0 by (simp add: kfree_def sizeof_header_def)
  ultimately show ?thesis by auto
qed

lemma heap_ok_wrote: "wrote s A m s' \<Longrightarrow> heap_ok s' this h = heap_ok s this h"
  by (auto simp: wrote_def heap_ok_def)

lemma chunks_cong:
  "(\<And>n. n \<in> set ns \<Longrightarrow> chunk_next m' n = chunk_next m n) \<Longrightarrow> chunks m' p ns = chunks m p ns"
  unfolding chunks_def by (rule chain_cong) simp

lemma store32_notin: "a \<notin> cell x \<Longrightarrow> store32 m x v a = m a"
  by (simp add: store32_def cell_def)

lemma store32_load32: "store32 m a (load32 m a) = m"
proof (rule ext)
  fix b
  have "ucast (load32 m a) = m a" "ucast (drop_bit 8 (load32 m a)) = m (a + 1)"
    "ucast (drop_bit 16 (load32 m a)) = m (a + 2)" "ucast (drop_bit 24 (load32 m a)) = m (a + 3)"
    by (rule bit_word_eqI; auto simp: load32_def bit_simps dest: bit_imp_le_length)+
  then show "store32 m a (load32 m a) b = m b" by (simp add: store32_def)
qed

lemma set_clear_1: "w AND 1 \<noteq> 0 \<Longrightarrow> (w AND NOT 1) OR 1 = (w :: u32)"
proof -
  define e :: u32 where "e = 1"
  have e: "bit e n \<longleftrightarrow> n = 0" for n by (simp add: e_def bit_1_iff)
  assume "w AND 1 \<noteq> 0"
  then have "bit w 0" by (metis and_one_eq odd_iff_mod_2_eq_one bit_0 even_iff_mod_2_eq_zero)
  then show ?thesis unfolding e_def [symmetric]
    by (intro bit_word_eqI) (auto simp: bit_and_iff bit_or_iff bit_not_iff e)
qed

lemma store32_twice: "store32 (store32 m a v) a w = store32 m a w"
  by (auto simp: store32_def fun_eq_iff add_small_neq)

lemma kfree_then_kmalloc_restores:
  assumes "heap_ok s this h" and "data_area s A" and "0 \<le> sint len"
    and "size_index SIZES 10 0 len = i" and "i < 10"
    and "chunks (vview s) (list_array h ! i) (as @ n # bs)"
    and "\<forall>a\<in>set (as @ n # bs). hdr_cells a \<subseteq> A" and "\<forall>a\<in>set (as @ bs). hdr_apart n a"
    and "\<forall>a\<in>set (as @ [n]). \<not> chunk_free (vview s) a"
  shows "\<exists>s1 s2. kfree (n + 8) s = Inr s1 \<and> kmalloc this len s1 = Inr (n + 8, s2)
    \<and> wrote s A (vview s) s2"
proof -
  let ?w = "chunk_word (vview s) n"
  have n4: "n + 8 - 4 = n + 4" "n + 8 - 8 = n" by simp_all
  obtain s1 where s1: "kfree (n + 8) s = Inr s1" "wrote s A (store32 (vview s) (n + 4) (?w AND NOT 1)) s1"
    using kfree_clears_bit [OF assms(2), of "n + 8"] assms(7) unfolding n4 by auto
  have next1: "chunk_next (vview s1) a = chunk_next (vview s) a" if "a \<in> set (as @ n # bs)" for a
    using wrote_chunk(1) [OF s1(2), of a] assms(7,8) that
    by (auto simp: chunk_store chunk_store_apart)
  have word1: "chunk_word (vview s1) a = chunk_word (vview s) a" if "a \<in> set as" for a
    using wrote_chunk(2) [OF s1(2), of a] assms(7,8) that by (auto simp: chunk_store_apart)
  have wn: "chunk_word (vview s1) n = ?w AND NOT 1"
    using wrote_chunk(2) [OF s1(2), of n] assms(7) by (simp add: chunk_store)
  have chunks1: "chunks (vview s1) (list_array h ! i) (as @ n # bs)"
    by (rule chunks_cong [OF next1, THEN iffD2]) (use assms(6) in simp_all)
  have free1: "chunk_free (vview s1) n" by (simp add: chunk_free_def wn and.assoc)
  have taken1: "\<forall>a\<in>set as. hdr_cells a \<subseteq> A \<and> \<not> chunk_free (vview s1) a"
    using assms(7,9) word1 by (simp add: chunk_free_def)
  have ok1: "heap_ok s1 this h" using assms(1) heap_ok_wrote [OF s1(2)] by simp
  have cn: "hdr_cells n \<subseteq> A" using assms(7) by simp
  obtain s2 where s2: "kmalloc this len s1 = Inr (n + 8, s2)"
    "wrote s1 A (store32 (vview s1) (n + 4) (chunk_word (vview s1) n OR 1)) s2"
    using kmalloc_first_fit [OF ok1 wroteD(2) [OF s1(2)] assms(3-5) chunks1 taken1 cn free1] by blast
  have "(?w AND NOT 1) OR 1 = ?w" using assms(9) by (intro set_clear_1) (simp add: chunk_free_def)
  then have w2: "wrote s A (store32 (vview s1) (n + 4) ?w) s2"
    using wrote_trans [OF s1(2) s2(2)] wn by simp
  have "wrote s A (vview s) s2"
  proof (rule wrote_cong [OF w2])
    fix a assume a: "a \<in> A"
    show "store32 (vview s1) (n + 4) ?w a = vview s a"
    proof (cases "a \<in> cell (n + 4)")
      case True
      have "store32 (vview s1) (n + 4) ?w a = store32 (vview s) (n + 4) ?w a"
        using True by (auto simp: store32_def cell_def)
      then show ?thesis by (simp add: chunk_word_def store32_load32)
    next
      case False
      then show ?thesis using wroteD(6) [OF s1(2) a] by (simp add: store32_notin)
    qed
  qed
  with s1(1) s2(1) show ?thesis by blast
qed

subsection \<open>Splitting\<close>

lemma split_chunk_effect:
  assumes "data_area s A" and "chunk_len (vview s) chunk = l" and "hdr_cells chunk \<subseteq> A"
    and "hdr_cells (chunk + l) \<subseteq> A" and "hdr_apart chunk (chunk + l)" and "8 < l - len"
  shows "\<exists>s' m. split_chunk chunk len s = Inr s' \<and> wrote s A m s'
    \<and> chunk_next (vview s') chunk = chunk + l \<and> chunk_len (vview s') chunk = take_bit 31 len
    \<and> chunk_free (vview s') chunk = chunk_free (vview s) chunk
    \<and> chunk_next (vview s') (chunk + l) = 0 \<and> chunk_free (vview s') (chunk + l)
    \<and> chunk_len (vview s') (chunk + l) = take_bit 31 (l - len)
    \<and> (\<forall>a\<in>A - hdr_cells chunk - hdr_cells (chunk + l). vview s' a = vview s a)"
proof -
  let ?n = "chunk + l"
  note ap = chunk_store_apart [OF assms(5)] chunk_store_apart [OF hdr_apart_sym [OF assms(5)]]
  obtain s1 where s1: "set_next ?n 0 s = Inr s1" "wrote s A (store32 (vview s) ?n 0) s1"
    using set_next_area [OF assms(1,4)] by blast
  obtain s2 where s2: "set_allocated ?n 0 s1 = Inr s2" "wrote s1 A
      (store32 (vview s1) (?n + 4) ((chunk_word (vview s1) ?n AND NOT 1) OR (0 AND 1))) s2"
    using set_word_area(1) [OF wroteD(2) [OF s1(2)] assms(4)] by blast
  obtain s3 where s3: "set_length ?n (l - len) s2 = Inr s3" "wrote s2 A
      (store32 (vview s2) (?n + 4) ((chunk_word (vview s2) ?n AND 1) OR push_bit 1 (l - len))) s3"
    using set_word_area(2) [OF wroteD(2) [OF s2(2)] assms(4)] by blast
  obtain s4 where s4: "set_next chunk ?n s3 = Inr s4" "wrote s3 A (store32 (vview s3) chunk ?n) s4"
    using set_next_area [OF wroteD(2) [OF s3(2)] assms(3)] by blast
  obtain s5 where s5: "set_length chunk len s4 = Inr s5" "wrote s4 A
      (store32 (vview s4) (chunk + 4) ((chunk_word (vview s4) chunk AND 1) OR push_bit 1 len)) s5"
    using set_word_area(2) [OF wroteD(2) [OF s4(2)] assms(3)] by blast
  note c = wrote_chunk [OF s1(2) assms(3)] wrote_chunk [OF s2(2) assms(3)] wrote_chunk [OF s3(2) assms(3)]
    wrote_chunk [OF s4(2) assms(3)] wrote_chunk [OF s5(2) assms(3)]
  note n = wrote_chunk [OF s1(2) assms(4)] wrote_chunk [OF s2(2) assms(4)] wrote_chunk [OF s3(2) assms(4)]
    wrote_chunk [OF s4(2) assms(4)] wrote_chunk [OF s5(2) assms(4)]
  have len2: "hdr_length chunk s2 = Inr l"
    using hdr_read(3) [OF wroteD(2) [OF s2(2)] assms(3)] c(1-4) assms(2) by (simp add: chunk_len_def ap)
  have split: "split_chunk chunk len s = Inr s5"
    using hdr_read(3) [OF assms(1,3)] assms(2,6) s1(1) s2(1) len2 s3(1) s4(1) s5(1)
    by (simp add: split_chunk_def sizeof_header_def Let_def)
  have w: "\<exists>m. wrote s A m s5" using wrote_trans s1(2) s2(2) s3(2) s4(2) s5(2) by blast
  have next1: "chunk_next (vview s5) chunk = ?n" using c(7,9) by (simp add: chunk_store)
  have word4: "chunk_word (vview s4) chunk = chunk_word (vview s) chunk" using c by (simp add: chunk_store ap)
  have len1: "chunk_len (vview s5) chunk = take_bit 31 len"
    unfolding chunk_len_def c(10) chunk_store(4) by (rule word_fields(4))
  have free1: "chunk_free (vview s5) chunk = chunk_free (vview s) chunk"
    unfolding chunk_free_def c(10) chunk_store(4) word_fields(3) word4 ..
  have nextn: "chunk_next (vview s5) ?n = 0" using n by (simp add: chunk_store ap)
  have wordn: "chunk_word (vview s5) ?n = (chunk_word (vview s2) ?n AND 1) OR push_bit 1 (l - len)"
    unfolding n(10) ap(4,8) n(8) ap n(6) chunk_store(4) ..
  have lenn: "chunk_len (vview s5) ?n = take_bit 31 (l - len)"
    unfolding chunk_len_def wordn by (rule word_fields(4))
  have freen: "chunk_free (vview s5) ?n"
    unfolding chunk_free_def wordn word_fields(3) n(4) chunk_store(4) word_fields(1) by simp
  have rest: "vview s5 a = vview s a" if "a \<in> A - hdr_cells chunk - hdr_cells ?n" for a
    using that wroteD(6) [OF s1(2), of a] wroteD(6) [OF s2(2), of a] wroteD(6) [OF s3(2), of a]
      wroteD(6) [OF s4(2), of a] wroteD(6) [OF s5(2), of a]
    by (simp add: store32_notin hdr_cells_def)
  from split w next1 len1 free1 nextn lenn freen rest show ?thesis by blast
qed

subsection \<open>Reusing a chunk of an unusual size\<close>

lemma size_index_large: "512 \<le> sint len \<Longrightarrow> size_index SIZES 10 0 len = 10"
  by (simp add: SIZES_def eval_nat_numeral)

text \<open>
  A request beyond the standard sizes that is served from a free chunk: \<^verbatim>\<open>kmalloc\<close> asks \<^verbatim>\<open>split_chunk\<close>
  for the length plus a header, and the unsigned difference wraps around if the chunk is not longer.
\<close>

lemma kmalloc_nonstandard_splits:
  assumes "heap_ok s this h" and "data_area s A" and "512 \<le> sint len"
    and "list_array h ! 10 = n" and "n \<noteq> 0" and "hdr_cells n \<subseteq> A" and "hdr_cells (n + l) \<subseteq> A"
    and "chunk_free (vview s) n" and "chunk_len (vview s) n = l" and "len \<le> l" and "8 < l - (len + 8)"
  shows "\<exists>s' m. kmalloc this len s = Inr (n + 8, s') \<and> wrote s A m s'
    \<and> \<not> chunk_free (vview s') n \<and> chunk_len (vview s') n = take_bit 31 (len + 8)
    \<and> chunk_next (vview s') n = n + l \<and> chunk_next (vview s') (n + l) = 0
    \<and> chunk_free (vview s') (n + l) \<and> chunk_len (vview s') (n + l) = take_bit 31 (l - (len + 8))"
proof -
  have l: "512 \<le> unat l" "unat l < 2 ^ 31"
  proof -
    have "uint len = sint len" using assms(3) sint_less [of len]
      unfolding uint_sint by (intro take_bit_int_eq_self) simp_all
    then have "int (unat len) = sint len" by simp
    then have "512 \<le> unat len" using assms(3) by linarith
    then show "512 \<le> unat l" using assms(10) by (simp add: word_le_nat_alt)
    show "unat l < 2 ^ 31"
    proof -
      have "unat l = unat (chunk_word (vview s) n) div 2"
        using unat_u32_less [of "chunk_word (vview s) n"]
        unfolding assms(9) [symmetric] chunk_len_def unsigned_drop_bit_eq
        by (simp add: drop_bit_eq_div take_bit_nat_eq_self)
      then show ?thesis using unat_u32_less [of "chunk_word (vview s) n"] by simp
    qed
  qed
  have ap: "hdr_apart n (n + l)"
  proof -
    have "n + l - n = l" "n - (n + l) = - l" by simp_all
    moreover have "unat (- l) = 2 ^ 32 - unat l" using l unat_diff_wrap [of 0 l] by simp
    ultimately show ?thesis using l by (simp add: hdr_apart_def)
  qed
  define c where "c = con (printlnk ''nonstandart'' s)"
  define s0 where "s0 = s\<lparr>con := c\<rparr>"
  have s0: "printlnk ''nonstandart'' s = s0" by (simp add: s0_def c_def printlnk_def)
  have area0: "data_area s0 A" and view0: "vview s0 = vview s" using assms(2) by (simp_all add: s0_def)
  have find: "find_nonstandart_node (Suc k) n len 0 s0 = Inr (n, 0, s0)" for k
    using assms(5,8-10) hdr_read [OF area0 assms(6)] view0
    by (simp add: chunk_free_def merge_free_def)
  obtain s1 m where s1: "split_chunk n (len + 8) s0 = Inr s1" "wrote s0 A m s1"
    "chunk_next (vview s1) n = n + l" "chunk_len (vview s1) n = take_bit 31 (len + 8)"
    "chunk_next (vview s1) (n + l) = 0"
    "chunk_free (vview s1) (n + l)" "chunk_len (vview s1) (n + l) = take_bit 31 (l - (len + 8))"
    using split_chunk_effect [OF area0 _ assms(6,7) ap assms(11)] assms(9) view0 by auto
  obtain s2 where s2: "set_allocated n 1 s1 = Inr s2" "wrote s1 A
      (store32 (vview s1) (n + 4) ((chunk_word (vview s1) n AND NOT 1) OR (1 AND 1))) s2"
    using set_word_area(1) [OF wroteD(2) [OF s1(2)] assms(6), of 1] by blast
  note c2 = wrote_chunk [OF s2(2) assms(6)] wrote_chunk [OF s2(2) assms(7)]
  have "kmalloc this len s = Inr (n + 8, s2)"
    using assms(1,3-5) find [of "2 ^ 32 - 1", folded loop_fuel_Suc] s0 s1(1) s2(1)
    by (simp add: kmalloc_def heap_ok_def size_index_large sizeof_header_def Let_def deref_def)
  moreover have "wrote s A (store32 (vview s1) (n + 4) ((chunk_word (vview s1) n AND NOT 1) OR (1 AND 1))) s2"
    using wrote_trans [OF wrote_con [OF assms(2), of c]] wrote_trans [OF s1(2) s2(2)] by (simp add: s0_def)
  moreover have "chunk_len (vview s2) n = take_bit 31 (len + 8)"
    using s1(4) unfolding chunk_len_def c2(2) chunk_store(4) word_fields(2) .
  moreover have "\<not> chunk_free (vview s2) n"
    unfolding chunk_free_def c2(2) chunk_store(4) word_fields(1) by simp
  moreover have "chunk_next (vview s2) n = n + l" using s1(3) c2(1) by (simp add: chunk_store)
  moreover have "chunk_next (vview s2) (n + l) = 0"
    using s1(5) unfolding c2(3) chunk_store_apart(3) [OF ap] .
  moreover have "chunk_word (vview s2) (n + l) = chunk_word (vview s1) (n + l)"
    unfolding c2(4) chunk_store_apart(4) [OF ap] ..
  then have "chunk_free (vview s2) (n + l)" "chunk_len (vview s2) (n + l) = take_bit 31 (l - (len + 8))"
    using s1(6,7) by (simp_all add: chunk_free_def chunk_len_def)
  ultimately show ?thesis by blast
qed

end
