(* ===== verification/HeapAlloc.thy ===== *)
theory HeapAlloc
  imports HeapChunks
begin

text \<open>
  The operations of a process heap on whole lists of chunks: what a request that finds no free chunk
  does (a chunk at the end of the heap, pages for it, the end of the list), and the properties of
  \<^verbatim>\<open>kmalloc\<close> and \<^verbatim>\<open>kfree\<close> with their witnesses on a concrete heap.
\<close>

subsection \<open>Mapping fresh pages\<close>

text \<open>
  \<open>s'\<close> is \<open>s\<close> with \<open>k\<close> pages of the allocator mapped somewhere outside the area, which keeps its contents.
\<close>

definition grown :: "'a vmm_scheme \<Rightarrow> u32 set \<Rightarrow> nat \<Rightarrow> 'a vmm_scheme \<Rightarrow> bool" where
  "grown s A k s' \<longleftrightarrow> (\<exists>m f. s' = s\<lparr>pmem := m, first_free_index := f\<rparr>) \<and> data_area s' A
     \<and> (\<forall>a\<in>A. vview s' a = vview s a \<and> translate s' a = translate s a) \<and> pde s' = pde s
     \<and> free_pages s' \<subseteq> free_pages s \<and> card (free_pages s) = card (free_pages s') + k
     \<and> vm_frames s' = vm_frames s \<and> (\<forall>p. plain_mem s p \<longrightarrow> pmem s' p = pmem s p)"

definition off_free :: "'a vmm_scheme \<Rightarrow> u32 set \<Rightarrow> bool" where
  "off_free s A \<longleftrightarrow> (\<forall>a\<in>A. frame (the (translate s a)) \<notin> free_pages s)"

lemma grown_refl: "data_area s A \<Longrightarrow> grown s A 0 s"
  by (auto simp: grown_def intro!: exI [of _ "pmem s"] exI [of _ "first_free_index s"])

lemma grown_plain: "grown s A k s1 \<Longrightarrow> plain_mem s1 = plain_mem s"
  by (auto simp: grown_def plain_mem_def fun_eq_iff)

lemma grown_trans: "grown s A k s1 \<Longrightarrow> grown s1 A l s2 \<Longrightarrow> grown s A (k + l) s2"
  using grown_plain [of s A k s1] by (auto simp: grown_def) blast

text \<open>
  What a step on an area leaves of the physical memory: only the area, the tables and the bitmap may change.
\<close>

definition area_step :: "'a vmm_scheme \<Rightarrow> u32 set \<Rightarrow> 'a vmm_scheme \<Rightarrow> bool" where
  "area_step s A s' \<longleftrightarrow> vm_frames s' = vm_frames s \<and> bitmap s' = bitmap s \<and> free_pages s' \<subseteq> free_pages s
     \<and> (\<forall>a\<in>A. translate s' a = translate s a)
     \<and> (\<forall>p. plain_mem s p \<and> (\<forall>a\<in>A. translate s a \<noteq> Some p) \<longrightarrow> pmem s' p = pmem s p)"

lemma area_step_trans: "area_step s A s1 \<Longrightarrow> area_step s1 A s2 \<Longrightarrow> area_step s A s2"
  by (auto simp: area_step_def plain_mem_def)

lemma area_step_same: "same_space s' s \<Longrightarrow> area_step s A s'"
  using vmm_agree [of s' s] by (simp add: area_step_def)

lemma wrote_area_step: "wrote s A m s' \<Longrightarrow> area_step s A s'"
  by (auto simp: wrote_def area_step_def)

lemma grown_area_step: "grown s A k s' \<Longrightarrow> area_step s A s'"
  by (auto simp: grown_def area_step_def)

lemma grown_off_free: "grown s A k s' \<Longrightarrow> off_free s A \<Longrightarrow> off_free s' A"
  by (auto simp: grown_def off_free_def)

lemma map_fresh_one:
  assumes "data_area s A" and "off_free s A" and "free_pages s \<noteq> {}" and "pde s va \<noteq> 0"
    and "dir_index va < 1022" and "4096 \<le> unat va" and "\<forall>a\<in>A. unat a div 4096 \<noteq> unat va div 4096"
  shows "\<exists>p s1 s'. pmm_alloc_page s = Inr (p, s1) \<and> map_page va p (PAGE_PRESENT OR PAGE_WRITE) s1 = Inr s'
    \<and> grown s A 1 s' \<and> (\<forall>vb. translate s' vb = (if unat vb div 4096 = unat va div 4096
         then Some (p + of_nat (unat vb mod 4096)) else translate s vb))"
proof -
  have inv: "vm_inv s" and pmm: "pmm_inv s" using assms(1) by (simp_all add: data_area_def vm_inv_def)
  have lt: "first_free_index s < PAGES"
    using assms(3) free_set_empty_iff [OF pmm] pmm by (auto simp: free_pages_def pmm_inv_def)
  define p where "p = page_of s (first_free_index s)"
  obtain f m where al: "pmm_alloc_page s = Inr (p, s\<lparr>pmem := m, first_free_index := f\<rparr>)"
    and m: "\<forall>a. frame a \<noteq> bitmap s \<longrightarrow> m a = pmem s a"
    and pmm1: "pmm_inv (s\<lparr>pmem := m, first_free_index := f\<rparr>)"
    and fr: "free_pages (s\<lparr>pmem := m, first_free_index := f\<rparr>) = free_pages s - {p}"
    and p: "p \<in> free_pages s"
    by (rule pmm_alloc_vm [OF inv lt p_def])
  let ?s1 = "s\<lparr>pmem := m, first_free_index := f\<rparr>"
  note i1 = pmm_alloc_vm_inv [OF inv m pmm1 fr]
  have wf: "vm_wf s" using inv by (simp add: vm_inv_def)
  note out = outside_update [OF wf i1(2)]
  have tr1: "translate ?s1 = translate s" and pde1: "pde ?s1 = pde s" and vf1: "vm_frames ?s1 = vm_frames s"
    using out by (simp_all add: fun_eq_iff)
  have pf: "frame p = p" using page_ne_bitmap(3) [OF pmm p] .
  have fl: "PAGE_PRESENT OR PAGE_WRITE = (3 :: u32)" by (simp add: PAGE_PRESENT_def PAGE_WRITE_def)
  have pde2: "pde ?s1 va \<noteq> 0" using assms(4) by (simp only: pde1) simp
  note mp = map_present_spec [OF i1(1) pde2 assms(5,6), of "PAGE_PRESENT OR PAGE_WRITE" p]
  define s' where "s' = set_pte va (p OR 3) ?s1"
  have map: "map_page va p (PAGE_PRESENT OR PAGE_WRITE) ?s1 = Inr s'" and inv': "vm_inv s'"
    and fr': "free_pages s' = free_pages s - {p}"
    and tr': "translate s' vb = (if unat vb div 4096 = unat va div 4096
         then Some (p + of_nat (unat vb mod 4096)) else translate s vb)" for vb
    using mp(1-4) fl pf fr tr1 unfolding s'_def by simp_all
  have wf1: "vm_wf ?s1" using i1(1) by (simp add: vm_inv_def)
  have ne: "dir_index va \<noteq> 1023" using assms(5) by simp
  have vf: "vm_frames s' = vm_frames s"
    unfolding s'_def using set_pte_frames [OF wf1 pde2 ne] vf1 by simp
  have pde': "pde s' = pde s"
    unfolding s'_def using set_pte_pde [OF wf1 pde2 ne] pde1 by (simp add: fun_eq_iff)
  have tab: "table_of ?s1 va \<in> vm_frames s" using pde_in_frames [OF wf1 pde2] vf1 by simp
  have mem: "pmem s' a = pmem s a" if "plain_mem s a" for a
  proof -
    have "frame a \<noteq> table_of ?s1 va" using that tab by (auto simp: plain_mem_def)
    then have "pmem s' a = m a"
      using store_cell_frame [of "table_of ?s1 va" "table_index va"]
      by (simp add: s'_def set_pte_def table_index_less)
    with m that show ?thesis by (simp add: plain_mem_def)
  qed
  have trA: "translate s' a = translate s a" if "a \<in> A" for a using that assms(7) tr' by simp
  have bm: "bitmap s' = bitmap s" by (simp add: s'_def)
  have area: "data_area s' A"
    using assms(1) inv' trA vf bm by (auto simp: data_area_def plain_mem_def inj_on_def)
  have view: "vview s' a = vview s a" if "a \<in> A" for a
    using that assms(1) mem trA [OF that] by (fastforce simp: data_area_def vview_def)
  have "\<exists>m f. s' = s\<lparr>pmem := m, first_free_index := f\<rparr>"
    by (intro exI [of _ "pmem s'"] exI [of _ f]) (simp add: s'_def set_pte_def)
  moreover have "card (free_pages s) = card (free_pages s') + 1"
    using card_Suc_Diff1 [OF pages.free_pages_finite [OF pmm] p] fr' by simp
  ultimately have "grown s A 1 s'"
    using area view trA pde' fr' vf mem by (auto simp: grown_def)
  with al map tr' show ?thesis by blast
qed


lemma map_fresh_area:
  assumes "data_area s A" and "off_free s A" and "n \<le> card (free_pages s)"
    and "4096 \<le> unat va" and "4096 dvd unat va" and "unat va + 4096 * n \<le> 2 ^ 32"
    and "\<forall>b. unat va \<le> unat b \<and> unat b < unat va + 4096 * n \<longrightarrow> b \<notin> A \<and> pde s b \<noteq> 0 \<and> dir_index b < 1022"
  shows "\<exists>s'. map_fresh n va s = Inr s' \<and> grown s A n s' \<and> (\<forall>vb. if unat va \<le> unat vb \<and> unat vb < unat va + 4096 * n
    then translate s' vb \<noteq> None else translate s' vb = translate s vb)"
  using assms
proof (induction n arbitrary: s va)
  case 0
  then show ?case using grown_refl by auto
next
  case (Suc n)
  have d: "unat b div 4096 = unat va div 4096 \<longleftrightarrow> unat va \<le> unat b \<and> unat b < unat va + 4096" for b :: u32
    using Suc.prems(5) by (auto elim!: dvdE)
  have va: "pde s va \<noteq> 0" "dir_index va < 1022" using Suc.prems(7) by auto
  have fr: "free_pages s \<noteq> {}" using Suc.prems(3) by auto
  have out: "\<forall>a\<in>A. unat a div 4096 \<noteq> unat va div 4096" using Suc.prems(7) unfolding d by fastforce
  obtain p s1 s2 where s1: "pmm_alloc_page s = Inr (p, s1)"
    and s2: "map_page va p (PAGE_PRESENT OR PAGE_WRITE) s1 = Inr s2" and g: "grown s A 1 s2"
    and tr: "\<forall>vb. translate s2 vb = (if unat va \<le> unat vb \<and> unat vb < unat va + 4096
         then Some (p + of_nat (unat vb mod 4096)) else translate s vb)"
    using map_fresh_one [OF Suc.prems(1,2) fr va Suc.prems(4) out] unfolding d by blast
  show ?case
  proof (cases n)
    case 0
    then show ?thesis using s1 s2 g tr by (intro exI [of _ s2]) auto
  next
    case (Suc n')
    have u: "unat (va + 0x1000) = unat va + 4096"
      using Suc.prems(6) Suc by (subst unat_add_small) auto
    have pde: "pde s2 = pde s" and card: "card (free_pages s) = card (free_pages s2) + 1" and area: "data_area s2 A"
      using g by (simp_all add: grown_def)
    obtain s' where s': "map_fresh n (va + 0x1000) s2 = Inr s'" "grown s2 A n s'"
      and tr': "\<forall>vb. if unat (va + 0x1000) \<le> unat vb \<and> unat vb < unat (va + 0x1000) + 4096 * n
        then translate s' vb \<noteq> None else translate s' vb = translate s2 vb"
      using Suc.IH [OF area grown_off_free [OF g Suc.prems(2)], of "va + 0x1000"] Suc.prems u pde card by auto
    have "if unat va \<le> unat vb \<and> unat vb < unat va + 4096 * Suc n
        then translate s' vb \<noteq> None else translate s' vb = translate s vb" for vb
      using spec [OF tr', of vb] spec [OF tr, of vb] u by (auto split: if_splits)
    moreover have "map_fresh (Suc n) va s = Inr s'" using s1 s2 s'(1) by simp
    moreover have "grown s A (Suc n) s'" using grown_trans [OF g s'(2)] by simp
    ultimately show ?thesis by blast
  qed
qed

subsection \<open>The number of pages of a new chunk\<close>

lemma left_in_page:
  fixes cur :: u32
  shows "(cur AND 0xFFFFF000) + 0x1000 - cur = of_nat (4096 - unat cur mod 4096)"
proof -
  have f: "cur AND 0xFFFFF000 = frame cur" by (simp add: frame_def PAGE_MASK_def)
  have "cur = frame cur + of_nat (unat cur mod 4096)"
  proof (rule u32_eqI)
    have "unat (of_nat (unat cur mod 4096) :: u32) = unat cur mod 4096" by (simp add: unat_of_nat_u32)
    then show "unat cur = unat (frame cur + of_nat (unat cur mod 4096))"
      using unat_u32_less [of cur] by (subst unat_add_small) (simp_all add: unat_frame)
  qed
  then have "frame cur + 0x1000 - cur = 0x1000 - of_nat (unat cur mod 4096)"
    by (metis add_diff_cancel_left)
  also have "\<dots> = of_nat (4096 - unat cur mod 4096)" by (simp add: of_nat_diff)
  finally show ?thesis using f by simp
qed

lemma chunk_pages:
  fixes cur cs :: u32
  assumes "0 < unat cs" and "unat cs < 2 ^ 31"
  shows "nat (sint (cs - ((cur AND 0xFFFFF000) + 0x1000 - cur)) sdiv 0x1000 + 1)
    = Suc ((unat cur mod 4096 + unat cs - 4096) div 4096)"
proof -
  define x where "x = unat cur mod 4096"
  define d where "d = int (unat cs) - (4096 - int x)"
  have x: "x < 4096" by (simp add: x_def)
  have "cs - of_nat (4096 - x) = word_of_int d"
    using x by (simp add: d_def of_nat_diff)
  then have w: "cs - ((cur AND 0xFFFFF000) + 0x1000 - cur) = word_of_int d"
    unfolding left_in_page x_def .
  have "sint (word_of_int d :: u32) = d"
  proof -
    have "int (unat cs) < int (2 ^ 31)" using assms(2) by (simp only: of_nat_less_iff)
    then have "- (2 ^ 31) \<le> d" "d < 2 ^ 31" using x by (simp_all add: d_def)
    then show ?thesis unfolding sint_sbintrunc' by (simp add: signed_take_bit_int_eq_self)
  qed
  show ?thesis
    unfolding w \<open>sint (word_of_int d :: u32) = d\<close> x_def [symmetric]
  proof (cases "4096 \<le> x + unat cs")
    case True
    define y where "y = x + unat cs - 4096"
    have "d = int y" using True by (simp add: d_def y_def of_nat_diff)
    then have "d sdiv 4096 = int (y div 4096)" by (simp add: signed_divide_int_def sgn_if zdiv_int)
    then show "nat (d sdiv 4096 + 1) = Suc ((x + unat cs - 4096) div 4096)"
      by (simp add: nat_add_distrib y_def)
  next
    case False
    then have "d < 0" "- d < 4096" using assms(1) x unfolding d_def by linarith+
    then have "d sdiv 4096 = 0" by (simp add: signed_divide_int_def sgn_if)
    with False show "nat (d sdiv 4096 + 1) = Suc ((x + unat cs - 4096) div 4096)" by simp
  qed
qed

subsection \<open>A new chunk\<close>

definition page_end :: "u32 \<Rightarrow> nat" where "page_end a = 4096 * (unat a div 4096) + 4096"

definition chunk_size :: "nat \<Rightarrow> u32 \<Rightarrow> u32" where
  "chunk_size i len = (if i = 10 then len else word_of_int (SIZES ! i))"

definition new_pages :: "u32 \<Rightarrow> u32 \<Rightarrow> nat" where
  "new_pages cur sz = Suc ((unat cur mod 4096 + (unat sz + 8) - 4096) div 4096)"

text \<open>
  Room for a chunk at \<open>cur\<close>: its header is mapped, the pages behind are not in use but their page
  table exists, and the allocator has as many free pages.
\<close>

definition grow_ok :: "'a kheap_scheme \<Rightarrow> u32 set \<Rightarrow> u32 \<Rightarrow> u32 \<Rightarrow> bool" where
  "grow_ok s A cur sz \<longleftrightarrow> data_area s A \<and> off_free s A \<and> hdr_cells cur \<subseteq> A \<and> unat sz + 8 < 2 ^ 31
     \<and> new_pages cur sz \<le> card (free_pages s) \<and> page_end cur + 4096 * new_pages cur sz \<le> 2 ^ 32
     \<and> (\<forall>b. page_end cur \<le> unat b \<and> unat b < page_end cur + 4096 * new_pages cur sz
          \<longrightarrow> b \<notin> A \<and> pde s b \<noteq> 0 \<and> dir_index b < 1022)"

lemma heap_objs_area:
  "data_area (s\<lparr>heap_objs := x\<rparr>) A = data_area s A" "vview (s\<lparr>heap_objs := x\<rparr>) = vview s"
  "translate (s\<lparr>heap_objs := x\<rparr>) = translate s" "free_pages (s\<lparr>heap_objs := x\<rparr>) = free_pages s"
  by (rule vmm_agree; simp add: same_space_def)+

lemma wrote_fields: "wrote s A m s' \<Longrightarrow> heap_objs s' = heap_objs s \<and> currentHeap s' = currentHeap s"
  by (auto simp: wrote_def)

lemma grown_fields: "grown s A k s' \<Longrightarrow> heap_objs s' = heap_objs s \<and> currentHeap s' = currentHeap s"
  by (auto simp: grown_def)

lemma chunk_view_cong:
  assumes "\<forall>a\<in>hdr_cells n. m' a = m a"
  shows "chunk_next m' n = chunk_next m n" and "chunk_word m' n = chunk_word m n"
    and "chunk_len m' n = chunk_len m n" and "chunk_free m' n = chunk_free m n"
  using assms by (simp_all add: chunk_next_def chunk_word_def chunk_len_def chunk_free_def load32_def hdr_cells_def cell_def)

text \<open>The fields that an allocation changes.\<close>

definition heap_step :: "'a kheap_scheme \<Rightarrow> 'a kheap_scheme \<Rightarrow> bool" where
  "heap_step s s' \<longleftrightarrow> (\<exists>c q f ho. s' = s\<lparr>con := c, pmem := q, first_free_index := f, heap_objs := ho\<rparr>)"

lemma heap_step_trans: "heap_step s s1 \<Longrightarrow> heap_step s1 s2 \<Longrightarrow> heap_step s s2"
  unfolding heap_step_def by (elim exE) (simp, metis)

lemma heap_stepI: "heap_step s (s\<lparr>heap_objs := ho\<rparr>)" "heap_step s (s\<lparr>con := c\<rparr>)"
  unfolding heap_step_def
  by (rule exI [of _ "con s"], rule exI [of _ "pmem s"], rule exI [of _ "first_free_index s"], rule exI, simp)
    (rule exI, rule exI [of _ "pmem s"], rule exI [of _ "first_free_index s"], rule exI [of _ "heap_objs s"], simp)

lemma wrote_heap_step: "wrote s A m s' \<Longrightarrow> heap_step s s'"
  unfolding wrote_def heap_step_def
  by (elim conjE exE) (rule exI, rule exI, rule exI [of _ "first_free_index s"], rule exI [of _ "heap_objs s"], simp)

lemma grown_heap_step: "grown s A k s' \<Longrightarrow> heap_step s s'"
  unfolding grown_def heap_step_def
  by (elim conjE exE) (rule exI [of _ "con s"], rule exI, rule exI, rule exI [of _ "heap_objs s"], simp)

lemma new_chunk_effect:
  assumes "heap_ok s this h" and "cur = current_mem_addr h" and "i \<le> 10" and "sz = chunk_size i len"
    and "grow_ok s A cur sz" and "l \<noteq> 0 \<Longrightarrow> hdr_cells l \<subseteq> A \<and> hdr_apart cur l"
  shows "\<exists>s'. new_chunk this i len l s = Inr (cur + 8, s') \<and> data_area s' A
    \<and> chunk_next (vview s') cur = 0 \<and> \<not> chunk_free (vview s') cur \<and> chunk_len (vview s') cur = sz
    \<and> (l \<noteq> 0 \<longrightarrow> chunk_next (vview s') l = cur)
    \<and> (\<forall>a\<in>A - hdr_cells cur. l = 0 \<or> a \<notin> cell l \<longrightarrow> vview s' a = vview s a)
    \<and> heap_objs s' = (heap_objs s)(this \<mapsto> h\<lparr>current_mem_addr := cur + sz + 8,
        list_array := (if l = 0 then (list_array h)[i := cur] else list_array h)\<rparr>)
    \<and> card (free_pages s) = card (free_pages s') + new_pages cur sz
    \<and> (\<forall>b. if page_end cur \<le> unat b \<and> unat b < page_end cur + 4096 * new_pages cur sz
         then translate s' b \<noteq> None else translate s' b = translate s b)
    \<and> heap_step s s' \<and> area_step s A s'"
proof -
  let ?k = "new_pages cur sz"
  have area: "data_area s A" and offf: "off_free s A" and cA: "hdr_cells cur \<subseteq> A"
    and small: "unat sz + 8 < 2 ^ 31" and k: "?k \<le> card (free_pages s)"
    and wrap: "page_end cur + 4096 * ?k \<le> 2 ^ 32"
    and pgs: "\<forall>b. page_end cur \<le> unat b \<and> unat b < page_end cur + 4096 * ?k
          \<longrightarrow> b \<notin> A \<and> pde s b \<noteq> 0 \<and> dir_index b < 1022"
    using assms(5) by (simp_all add: grow_ok_def)
  have h: "heap_objs s this = Some h" "this \<noteq> 0" "size_array h = SIZES" using assms(1) by (simp_all add: heap_ok_def)
  have eff: "(if size_array h ! i = -1 then len else word_of_int (size_array h ! i)) = sz"
  proof -
    have "\<forall>j\<in>{0..<10}. SIZES ! j \<noteq> - 1" by (simp add: SIZES_def eval_nat_numeral atLeastLessThanSuc)
    moreover have "SIZES ! 10 = - 1" by (simp add: SIZES_def eval_nat_numeral)
    ultimately show ?thesis
      using assms(3,4) h(3) by (cases "i = 10") (auto simp: chunk_size_def)
  qed
  obtain s1 where s1: "set_next cur 0 s = Inr s1" "wrote s A (store32 (vview s) cur 0) s1"
    using set_next_area [OF area cA] by blast
  obtain s2 where s2: "set_allocated cur 1 s1 = Inr s2" "wrote s1 A
      (store32 (vview s1) (cur + 4) ((chunk_word (vview s1) cur AND NOT 1) OR (1 AND 1))) s2"
    using set_word_area(1) [OF wroteD(2) [OF s1(2)] cA] by blast
  obtain s3 where s3: "set_length cur sz s2 = Inr s3" "wrote s2 A
      (store32 (vview s2) (cur + 4) ((chunk_word (vview s2) cur AND 1) OR push_bit 1 sz)) s3"
    using set_word_area(2) [OF wroteD(2) [OF s2(2)] cA] by blast
  note c = wrote_chunk [OF s1(2) cA] wrote_chunk [OF s2(2) cA] wrote_chunk [OF s3(2) cA]
  have w3: "wrote s A (vview s3) s3"
    using wrote_trans [OF s1(2) wrote_trans [OF s2(2) s3(2)]] by (rule wrote_cong) (simp add: wroteD(6) [OF s3(2)])
  define va where "va = (cur AND 0xFFFFF000) + 0x1000"
  have va: "unat va = page_end cur"
  proof -
    have "cur AND 0xFFFFF000 = frame cur" by (simp add: frame_def PAGE_MASK_def)
    moreover have "page_end cur < 2 ^ 32" using wrap by (simp add: new_pages_def)
    ultimately show ?thesis
      unfolding va_def page_end_def by (subst unat_add_small) (simp_all add: unat_frame)
  qed
  have cs: "unat (sz + 8) = unat sz + 8" using small by (subst unat_add_small) simp_all
  have pages: "nat (sint (sz + 8 - (va - cur)) sdiv 0x1000 + 1) = ?k"
    using chunk_pages [of "sz + 8" cur] cs small unfolding va_def new_pages_def by simp
  have t3: "translate s3 = translate s" "pde s3 = pde s" "free_pages s3 = free_pages s"
    using w3 by (simp_all add: wrote_def)
  have off3: "off_free s3 A" using offf t3 by (simp add: off_free_def)
  have va2: "4096 \<le> unat va" "4096 dvd unat va" unfolding va page_end_def by simp_all
  obtain s4 where s4: "map_fresh ?k va s3 = Inr s4" "grown s3 A ?k s4"
    and tr4: "\<forall>b. if page_end cur \<le> unat b \<and> unat b < page_end cur + 4096 * ?k
         then translate s4 b \<noteq> None else translate s4 b = translate s3 b"
    using map_fresh_area [OF wroteD(2) [OF s3(2)] off3, of ?k va] k va2 wrap pgs unfolding va t3 by blast
  have objs: "heap_objs s1 = heap_objs s" "heap_objs s3 = heap_objs s" "heap_objs s4 = heap_objs s"
    using wrote_fields [OF s1(2)] wrote_fields [OF w3] grown_fields [OF s4(2)] by simp_all
  define s5 where "s5 = s4\<lparr>heap_objs := (heap_objs s)(this \<mapsto> h\<lparr>current_mem_addr := cur + (sz + 8)\<rparr>)\<rparr>"
  have s5: "update_heap this (\<lambda>h. h\<lparr>current_mem_addr := current_mem_addr h + (sz + 8)\<rparr>) s4 = Inr s5"
    using h objs by (simp add: update_heap_def deref_def s5_def assms(2))
  have hs5: "heap_step s s5"
    unfolding s5_def
    by (rule heap_step_trans [OF heap_step_trans [OF wrote_heap_step [OF w3] grown_heap_step [OF s4(2)]] heap_stepI(1)])
  have as5: "area_step s A s5"
    unfolding s5_def
    by (rule area_step_trans [OF area_step_trans [OF wrote_area_step [OF w3] grown_area_step [OF s4(2)]] area_step_same])
      (simp add: same_space_def)
  have area5: "data_area s5 A" and tr5: "translate s5 = translate s4" and fr5: "free_pages s5 = free_pages s4"
    using s4(2) by (simp_all add: s5_def heap_objs_area grown_def)
  have view5: "vview s5 a = vview s3 a" if "a \<in> A" for a
    using that s4(2) by (simp add: s5_def heap_objs_area grown_def)
  have cong5: "\<forall>a\<in>hdr_cells cur. vview s5 a = vview s3 a" using view5 cA by auto
  note c5 = chunk_view_cong [of cur "vview s5" "vview s3", OF cong5]
  have next5: "chunk_next (vview s5) cur = 0" using c5(1) c by (simp add: chunk_store)
  have word3: "chunk_word (vview s3) cur = (chunk_word (vview s2) cur AND 1) OR push_bit 1 sz"
    unfolding c(6) chunk_store(4) ..
  have "take_bit 31 sz = sz"
    using small by (simp add: word_unat_eq_iff unsigned_take_bit_eq take_bit_nat_eq_self)
  then have len5: "chunk_len (vview s5) cur = sz"
    unfolding c5(3) unfolding chunk_len_def word3 word_fields(4) .
  have taken5: "\<not> chunk_free (vview s5) cur"
    unfolding c5(4) unfolding chunk_free_def word3 word_fields(3) c(4) chunk_store(4) word_fields(1) by simp
  have rest5: "vview s5 a = vview s a" if "a \<in> A - hdr_cells cur" for a
    using that view5 wroteD(6) [OF s1(2), of a] wroteD(6) [OF s2(2), of a] wroteD(6) [OF s3(2), of a]
    by (simp add: store32_notin hdr_cells_def)
  have tr: "if page_end cur \<le> unat b \<and> unat b < page_end cur + 4096 * ?k
         then translate s5 b \<noteq> None else translate s5 b = translate s b" for b
    using spec [OF tr4, of b] unfolding tr5 t3 by simp
  have card: "card (free_pages s) = card (free_pages s5) + ?k"
    using s4(2) t3 fr5 by (simp add: grown_def)
  have step: "new_chunk this i len l s = bindR (if l \<noteq> 0 then set_next l cur s5
      else update_heap this (\<lambda>h. h\<lparr>list_array := (list_array h)[i := cur]\<rparr>) s5) (\<lambda>s. Inr (cur + 8, s))"
    unfolding new_chunk_def deref_def
    using h(1,2) s1(1) s2(1) s3(1) s4(1) s5 pages
    by (simp add: eff assms(2) [symmetric] Let_def sizeof_header_def va_def)
  show ?thesis
  proof (cases "l = 0")
    case True
    define s6 where "s6 = s5\<lparr>heap_objs := (heap_objs s)(this \<mapsto> h\<lparr>current_mem_addr := cur + (sz + 8),
      list_array := (list_array h)[i := cur]\<rparr>)\<rparr>"
    have "new_chunk this i len l s = Inr (cur + 8, s6)"
      using True step h by (simp add: update_heap_def deref_def s6_def s5_def)
    moreover have "heap_objs s6 = (heap_objs s)(this \<mapsto> h\<lparr>current_mem_addr := cur + sz + 8,
        list_array := (list_array h)[i := cur]\<rparr>)" by (simp add: s6_def add.assoc)
    moreover have "area_step s A s6" unfolding s6_def
      by (rule area_step_trans [OF as5 area_step_same]) (simp add: same_space_def)
    ultimately show ?thesis
      using area5 next5 taken5 len5 rest5 tr card True heap_step_trans [OF hs5 heap_stepI(1)]
      by (intro exI [of _ s6]) (simp add: s6_def heap_objs_area)
  next
    case False
    then have l: "hdr_cells l \<subseteq> A" "hdr_apart cur l" using assms(6) by simp_all
    obtain s6 where s6: "set_next l cur s5 = Inr s6" "wrote s5 A (store32 (vview s5) l cur) s6"
      using set_next_area [OF area5 l(1)] by blast
    note ap = chunk_store_apart [OF hdr_apart_sym [OF l(2)]]
    note c6 = wrote_chunk [OF s6(2) cA] wrote_chunk [OF s6(2) l(1)]
    have "chunk_next (vview s6) cur = 0" "\<not> chunk_free (vview s6) cur" "chunk_len (vview s6) cur = sz"
      using next5 taken5 len5 c6(1,2) unfolding chunk_free_def chunk_len_def ap by simp_all
    moreover have "chunk_next (vview s6) l = cur" using c6(3) by (simp add: chunk_store)
    moreover have "vview s6 a = vview s a" if "a \<in> A - hdr_cells cur" "a \<notin> cell l" for a
      using that rest5 wroteD(6) [OF s6(2), of a] by (simp add: store32_notin)
    moreover have "heap_objs s6 = (heap_objs s)(this \<mapsto> h\<lparr>current_mem_addr := cur + sz + 8\<rparr>)"
      using wrote_fields [OF s6(2)] by (simp add: s5_def add.assoc)
    moreover have "new_chunk this i len l s = Inr (cur + 8, s6)" using False step s6(1) by simp
    ultimately show ?thesis
      using wroteD(2,3,5) [OF s6(2)] tr card False heap_step_trans [OF hs5 wrote_heap_step [OF s6(2)]]
        area_step_trans [OF as5 wrote_area_step [OF s6(2)]]
      by (intro exI [of _ s6]) simp
  qed
qed

lemma translate_same_page:
  assumes "vm_wf s" and "unat a div 4096 = unat b div 4096" and "translate s a \<noteq> None"
  shows "translate s b \<noteq> None"
proof -
  have "dir_index b = dir_index a" "table_index b = table_index a"
    using assms(2) by (simp_all add: dir_index_page table_index_page)
  then show ?thesis
    using assms(3) by (auto simp: translate_eq [OF assms(1)] pde_def pte_def table_of_def split: if_splits)
qed

lemma chunks_snoc:
  assumes "chunks m p ns" and "c \<notin> set ns" and "c \<noteq> 0" and "chunk_next m' c = 0"
    and "ns \<noteq> [] \<Longrightarrow> chunk_next m' (last ns) = c" and "\<forall>n\<in>set ns. n \<noteq> last ns \<longrightarrow> chunk_next m' n = chunk_next m n"
  shows "chunks m' (if ns = [] then c else p) (ns @ [c])"
proof (cases "ns = []")
  case True
  then show ?thesis using assms by simp
next
  case False
  let ?nxt = "(\<lambda>n. Some (chunk_next m n))(c \<mapsto> 0)"
  have "chain ?nxt p ns" using assms(1,2) unfolding chunks_def by (rule chain_frame)
  then have "chain (?nxt(last ns \<mapsto> c)) p (ns @ [c])"
    by (rule chain_snoc) (use False assms in simp_all)
  moreover have "last ns \<noteq> c" using False assms(2) by auto
  ultimately have "chain (\<lambda>n. Some (chunk_next m' n)) p (ns @ [c])"
    by (subst chain_cong [of _ _ "?nxt(last ns \<mapsto> c)"]) (use assms False in auto)
  with False show ?thesis by (simp add: chunks_def)
qed

lemma hdr_cells_offsets: "hdr_cells a = (\<lambda>k. a + of_nat k) ` {..<8}"
  by (auto simp: hdr_cells_def cell_def lessThan_Suc eval_nat_numeral)

lemma hdr_apart_disjoint:
  assumes "hdr_apart a b"
  shows "hdr_cells a \<inter> hdr_cells b = {}"
proof -
  have False if "a + of_nat j = b + of_nat k" "j < 8" "k < 8" for j k
  proof (cases "j \<le> k")
    case True
    have "a - b = of_nat k - of_nat j" using that(1) by (simp add: algebra_simps)
    also have "\<dots> = of_nat (k - j)" using True by (simp add: of_nat_diff)
    finally have "unat (a - b) = k - j" using that by (simp add: unat_of_nat_u32)
    then show False using assms that unfolding hdr_apart_def by linarith
  next
    case False
    have "b - a = of_nat j - of_nat k" using that(1) by (simp add: algebra_simps)
    also have "\<dots> = of_nat (j - k)" using False by (simp add: of_nat_diff)
    finally have "unat (b - a) = j - k" using that by (simp add: unat_of_nat_u32)
    then show False using assms that unfolding hdr_apart_def by linarith
  qed
  then show ?thesis unfolding hdr_cells_offsets by auto
qed

lemma cells_of_header: "cell (n + 4) \<inter> cell n = {}"
  by (auto simp: cell_def)

lemma standard_size:
  "i < 10 \<Longrightarrow> 16 \<le> SIZES ! i \<and> SIZES ! i \<le> 512"
  by (auto simp: SIZES_def eval_nat_numeral less_Suc_eq)

lemma kmalloc_grows:
  assumes "heap_ok s this h" and "0 \<le> sint len" and "size_index SIZES 10 0 len = i" and "i < 10"
    and "chunks (vview s) (list_array h ! i) ns" and "\<forall>n\<in>set ns. hdr_cells n \<subseteq> A \<and> \<not> chunk_free (vview s) n"
    and "\<forall>a\<in>set (cur # ns). \<forall>b\<in>set (cur # ns). a \<noteq> b \<longrightarrow> hdr_apart a b" and "cur \<notin> set ns" and "cur \<noteq> 0"
    and "cur = current_mem_addr h" and "sz = word_of_int (SIZES ! i)" and "grow_ok s A cur sz"
  shows "\<exists>s' h'. kmalloc this len s = Inr (cur + 8, s') \<and> heap_ok s' this h' \<and> data_area s' A
    \<and> current_mem_addr h' = cur + sz + 8 \<and> chunks (vview s') (list_array h' ! i) (ns @ [cur])
    \<and> (\<forall>n\<in>set (ns @ [cur]). \<not> chunk_free (vview s') n) \<and> chunk_len (vview s') cur = sz
    \<and> card (free_pages s) = card (free_pages s') + new_pages cur sz
    \<and> (\<forall>b. unat cur \<le> unat b \<and> unat b < unat cur + 8 + unat sz \<longrightarrow> translate s' b \<noteq> None)"
proof -
  define l where "l = (if ns = [] then 0 else last ns)"
  have area: "data_area s A" and cA: "hdr_cells cur \<subseteq> A" using assms(12) by (simp_all add: grow_ok_def)
  have nz: "n \<in> set ns \<Longrightarrow> n \<noteq> 0" for n using chain_nonzero [OF assms(5) [unfolded chunks_def]] .
  have l: "l \<noteq> 0 \<Longrightarrow> ns \<noteq> [] \<and> l = last ns" by (auto simp: l_def split: if_splits)
  have find: "find_standard loop_fuel (list_array h ! i) 0 s = Inr (0, l, s)"
    using find_standard_all_taken [OF area assms(5) chunks_length [OF assms(5)] assms(6)] by (simp add: l_def)
  have lA: "l \<noteq> 0 \<Longrightarrow> hdr_cells l \<subseteq> A \<and> hdr_apart cur l"
    using l assms(6-8) by (metis last_in_set list.set_intros(1,2))
  have sz: "sz = chunk_size i len" using assms(4,11) by (simp add: chunk_size_def)
  obtain s' where s': "new_chunk this i len l s = Inr (cur + 8, s')" "data_area s' A"
    "chunk_next (vview s') cur = 0" "\<not> chunk_free (vview s') cur" "chunk_len (vview s') cur = sz"
    "l \<noteq> 0 \<longrightarrow> chunk_next (vview s') l = cur"
    "\<forall>a\<in>A - hdr_cells cur. l = 0 \<or> a \<notin> cell l \<longrightarrow> vview s' a = vview s a"
    "heap_objs s' = (heap_objs s)(this \<mapsto> h\<lparr>current_mem_addr := cur + sz + 8,
        list_array := (if l = 0 then (list_array h)[i := cur] else list_array h)\<rparr>)"
    "card (free_pages s) = card (free_pages s') + new_pages cur sz"
    "\<forall>b. if page_end cur \<le> unat b \<and> unat b < page_end cur + 4096 * new_pages cur sz
         then translate s' b \<noteq> None else translate s' b = translate s b"
    using new_chunk_effect [OF assms(1,10) _ sz assms(12) lA] assms(4) by auto
  let ?h = "h\<lparr>current_mem_addr := cur + sz + 8, list_array := (if l = 0 then (list_array h)[i := cur] else list_array h)\<rparr>"
  have "kmalloc this len s = Inr (cur + 8, s')"
    using assms(1-4) find s'(1) by (simp add: kmalloc_def heap_ok_def deref_def Let_def del: find_standard.simps)
  moreover have "heap_ok s' this ?h" using assms(1) s'(8) by (simp add: heap_ok_def)
  moreover have same: "chunk_next (vview s') n = chunk_next (vview s) n \<and> chunk_word (vview s') n = chunk_word (vview s) n"
    if n: "n \<in> set ns" "n \<noteq> l" for n
  proof -
    have "hdr_apart n cur" "l \<noteq> 0 \<Longrightarrow> hdr_apart n l" "hdr_cells n \<subseteq> A"
      using n l assms(6-8) by (auto simp: last_in_set)
    then have "hdr_cells n \<inter> hdr_cells cur = {}" "l \<noteq> 0 \<Longrightarrow> hdr_cells n \<inter> hdr_cells l = {}" "hdr_cells n \<subseteq> A"
      by (simp_all add: hdr_apart_disjoint)
    moreover have "cell l \<subseteq> hdr_cells l" by (simp add: hdr_cells_def)
    ultimately have "a \<in> A - hdr_cells cur" "l = 0 \<or> a \<notin> cell l" if "a \<in> hdr_cells n" for a using that by blast+
    then have "\<forall>a\<in>hdr_cells n. vview s' a = vview s a" using s'(7) by blast
    then show ?thesis using chunk_view_cong(1,2) by blast
  qed
  moreover have word_l: "chunk_word (vview s') l = chunk_word (vview s) l" if "l \<noteq> 0"
  proof -
    have "hdr_cells l \<inter> hdr_cells cur = {}" "hdr_cells l \<subseteq> A" using lA [OF that] by (auto dest: hdr_apart_disjoint)
    moreover have "cell (l + 4) \<subseteq> hdr_cells l" by (simp add: hdr_cells_def)
    ultimately have "a \<in> A - hdr_cells cur" "a \<notin> cell l" if "a \<in> cell (l + 4)" for a
      using that cells_of_header [of l] by blast+
    then have "\<forall>a\<in>cell (l + 4). vview s' a = vview s a" using s'(7) by blast
    then show ?thesis by (simp add: chunk_word_def load32_def cell_def add.assoc)
  qed
  ultimately have k: "kmalloc this len s = Inr (cur + 8, s')" "heap_ok s' this ?h" by simp_all
  have ch: "chunks (vview s') (list_array ?h ! i) (ns @ [cur])"
  proof -
    have "chunk_next (vview s') (last ns) = cur" if "ns \<noteq> []"
      using that s'(6) nz [of "last ns"] by (simp add: l_def)
    moreover have "\<forall>n\<in>set ns. n \<noteq> last ns \<longrightarrow> chunk_next (vview s') n = chunk_next (vview s) n"
    proof (intro ballI impI)
      fix n assume n: "n \<in> set ns" "n \<noteq> last ns"
      then have "n \<noteq> l" by (auto simp: l_def)
      with same n(1) show "chunk_next (vview s') n = chunk_next (vview s) n" by blast
    qed
    ultimately have "chunks (vview s') (if ns = [] then cur else list_array h ! i) (ns @ [cur])"
      by (rule chunks_snoc [OF assms(5,8,9) s'(3)])
    moreover have "list_array ?h ! i = (if ns = [] then cur else list_array h ! i)"
      using assms(1,4) nz by (auto simp: heap_ok_def l_def)
    ultimately show ?thesis by simp
  qed
  have taken: "\<not> chunk_free (vview s') n" if "n \<in> set (ns @ [cur])" for n
    using that s'(4) same [of n] word_l assms(6) nz by (cases "n = l") (auto simp: chunk_free_def)
  have mapped: "translate s' b \<noteq> None" if b: "unat cur \<le> unat b" "unat b < unat cur + 8 + unat sz" for b
  proof (cases "unat b < page_end cur")
    case True
    then have pg: "unat cur div 4096 = unat b div 4096" using b(1) by (simp add: page_end_def)
    have "translate s cur \<noteq> None" using area cA by (fastforce simp: data_area_def hdr_cells_def cell_def)
    then have "translate s b \<noteq> None"
      using translate_same_page [of s cur b] pg area by (simp add: data_area_def vm_inv_def)
    with spec [OF s'(10), of b] True show ?thesis by (simp split: if_splits)
  next
    case False
    have "unat b < page_end cur + 4096 * new_pages cur sz"
    proof -
      define y where "y = unat cur mod 4096 + (unat sz + 8) - 4096"
      have "unat cur mod 4096 + (unat sz + 8) \<le> y + 4096" by (simp add: y_def)
      moreover have "y < 4096 * (y div 4096) + 4096" using dividend_less_times_div [of 4096 y] by simp
      moreover have "unat cur = 4096 * (unat cur div 4096) + unat cur mod 4096" by simp
      ultimately show ?thesis using b(2) unfolding page_end_def new_pages_def y_def [symmetric] mult_Suc_right
        by linarith
    qed
    with False spec [OF s'(10), of b] show ?thesis by simp
  qed
  show ?thesis using k ch taken mapped s'(2,5,9) by (intro exI [of _ s'] exI [of _ ?h]) simp
qed

text \<open>The first chunk of an unusual size is always new.\<close>

lemma kmalloc_first_large:
  assumes "heap_ok s this h" and "512 \<le> sint len" and "list_array h ! 10 = 0" and "cur = current_mem_addr h"
    and "grow_ok s A cur len"
  shows "\<exists>s'. kmalloc this len s = Inr (cur + 8, s') \<and> data_area s' A \<and> heap_step s s'
    \<and> (\<forall>a\<in>A. translate s' a = translate s a) \<and> (\<forall>a\<in>A - hdr_cells cur. vview s' a = vview s a)
    \<and> heap_objs s' = (heap_objs s)(this \<mapsto> h\<lparr>current_mem_addr := cur + len + 8, list_array := (list_array h)[10 := cur]\<rparr>)
    \<and> card (free_pages s) = card (free_pages s') + new_pages cur len \<and> area_step s A s'"
proof -
  define t where "t = printlnk ''nonstandart'' s"
  have t: "t = s\<lparr>con := con t\<rparr>" by (simp add: t_def printlnk_def)
  have agree: "same_space t s" by (simp add: same_space_def t_def printlnk_def)
  note ag = vmm_agree [OF agree]
  have ok: "heap_ok t this h" using assms(1) by (simp add: heap_ok_def t_def printlnk_def)
  have grow: "grow_ok t A cur len" using assms(5) by (simp add: grow_ok_def off_free_def ag)
  have sz: "len = chunk_size 10 len" by (simp add: chunk_size_def)
  obtain s' where s': "new_chunk this 10 len 0 t = Inr (cur + 8, s')" "data_area s' A"
    "\<forall>a\<in>A - hdr_cells cur. vview s' a = vview t a"
    "heap_objs s' = (heap_objs t)(this \<mapsto> h\<lparr>current_mem_addr := cur + len + 8, list_array := (list_array h)[10 := cur]\<rparr>)"
    "card (free_pages t) = card (free_pages s') + new_pages cur len"
    "\<forall>b. if page_end cur \<le> unat b \<and> unat b < page_end cur + 4096 * new_pages cur len
         then translate s' b \<noteq> None else translate s' b = translate t b" "heap_step t s'" "area_step t A s'"
    using new_chunk_effect [OF ok assms(4) _ sz grow, of 0] by auto
  have "find_nonstandart_node (Suc k) 0 len 0 t = Inr (0, 0, t)" for k by simp
  from this [of "2 ^ 32 - 1", folded loop_fuel_Suc]
  have "kmalloc this len s = Inr (cur + 8, s')"
    using assms(1-3) size_index_large [OF assms(2)] s'(1)
    by (simp add: kmalloc_def heap_ok_def deref_def Let_def t_def)
  moreover have "\<forall>a\<in>A. translate s' a = translate s a"
    using s'(6) assms(5) ag(2) unfolding grow_ok_def by (metis)
  moreover have "heap_step s t" by (subst t) (rule heap_stepI(2))
  then have "heap_step s s'" using s'(7) by (rule heap_step_trans)
  moreover have "area_step s A s'" using area_step_trans [OF area_step_same [OF agree] s'(8)] .
  moreover have "heap_objs t = heap_objs s" by (simp add: t_def printlnk_def)
  ultimately show ?thesis using s'(2-5) ag(5,9) by auto
qed

subsection \<open>A concrete heap\<close>

text \<open>
  The address space that \<^verbatim>\<open>init_vmm\<close> builds, with chunks in its identity-mapped part: two taken chunks of
  32 bytes, a taken and a free one of 48, and a free one of 600.
\<close>

definition low_area :: "u32 set" where
  "low_area = {a. 0x10000 \<le> unat a \<and> unat a < 0x11000 \<or> 0x12000 \<le> unat a \<and> unat a < 0x13000}"

definition put_header :: "u32 \<times> u32 \<times> u32 \<Rightarrow> mem \<Rightarrow> mem" where
  "put_header = (\<lambda>(a, nxt, w) m. store32 (store32 m a nxt) (a + 4) w)"

definition demo_chunks :: "(u32 \<times> u32 \<times> u32) list" where
  "demo_chunks = [(0x10000, 0x10028, 65), (0x10028, 0, 65), (0x10080, 0x100C0, 97), (0x100C0, 0, 96),
     (0x12000, 0, 1200)]"

definition demo_heap :: kheap where
  "demo_heap = vmm.extend (vm_boot\<lparr>pmem := fold put_header demo_chunks (pmem vm_boot)\<rparr>)
     (kheap.fields [0x00200008 \<mapsto> \<lparr>current_mem_addr = 0x10050, size_array = SIZES,
        list_array = [0, 0x10000, 0x10080, 0, 0, 0, 0, 0, 0, 0, 0x12000]\<rparr>] 0x00200008)"

lemma demo_heap_agrees:
  "same_space demo_heap (vm_boot\<lparr>pmem := fold put_header demo_chunks (pmem vm_boot)\<rparr>)"
  by (simp add: demo_heap_def same_space_def vmm.extend_def kheap.fields_def)

lemma low_plain: "unat a < 0x00300000 \<Longrightarrow> plain_mem vm_boot a"
proof -
  assume a: "unat a < 0x00300000"
  have f: "vm_frames vm_boot = {0x00302000, 0x00303000, 0x00304000}"
    using fresh_dir_wf(2) [OF vm_boot_fresh] by (simp add: vm_frames_def vm_boot_facts)
  have "unat (frame a) < 0x00300000" using a by (simp add: unat_frame)
  moreover have "unat (0x00302000 :: u32) = 0x00302000" "unat (0x00303000 :: u32) = 0x00303000"
    "unat (0x00304000 :: u32) = 0x00304000" "unat (0x00301000 :: u32) = 0x00301000" by simp_all
  ultimately show ?thesis by (auto simp: plain_mem_def f vm_boot_facts)
qed

lemma low_translate: "unat a < 0x00400000 \<Longrightarrow> translate vm_boot a = Some a"
  using vm_boot_facts(6) [of a] dir_index_low [of a] by simp

lemma boot_free_pages: "p \<in> free_pages vm_boot \<Longrightarrow> 0x00305000 \<le> unat p" "card (free_pages vm_boot) = 2044"
proof -
  have pmm: "pmm_inv vm_boot" using vm_boot_facts(1) by (simp add: vm_inv_def)
  show "p \<in> free_pages vm_boot \<Longrightarrow> 0x00305000 \<le> unat p"
    using unat_page_of [OF pmm] by (auto simp: free_pages_def vm_boot_facts)
  have "inj_on (page_of vm_boot) {4..<PAGES}"
    by (rule inj_on_subset [OF page_of_inj_on [OF pmm]]) auto
  then show "card (free_pages vm_boot) = 2044"
    by (simp add: free_pages_def vm_boot_facts card_image PAGES_def)
qed

text \<open>Any contents of the low memory leave the address space as it is.\<close>

definition low_mem :: "u32 set" where "low_mem = {a. unat a < 0x00300000}"

lemma boot_space:
  assumes "same_space s (vm_boot\<lparr>pmem := m\<rparr>)" and "\<forall>a. a \<notin> low_mem \<longrightarrow> m a = pmem vm_boot a"
  shows "data_area s low_mem" and "a \<in> low_mem \<Longrightarrow> translate s a = Some a" and "a \<in> low_mem \<Longrightarrow> vview s a = m a"
    and "free_pages s = free_pages vm_boot" and "pde s = pde vm_boot"
proof -
  have keep: "m a = pmem vm_boot a" if "\<not> plain_mem vm_boot a" for a
    using that assms(2) low_plain [of a] by (auto simp: low_mem_def)
  note up = plain_update [OF vm_boot_facts(1) keep] and ag = vmm_agree [OF assms(1)]
  show "free_pages s = free_pages vm_boot" "pde s = pde vm_boot" using ag up by simp_all
  have tr: "translate s a = Some a" if "a \<in> low_mem" for a
    using that ag(2) up(2) low_translate [of a] by (simp add: low_mem_def)
  then show "a \<in> low_mem \<Longrightarrow> translate s a = Some a" .
  show "a \<in> low_mem \<Longrightarrow> vview s a = m a" using ag(1) tr by (simp add: vview_def)
  show "data_area s low_mem"
    using ag(8) [of low_mem] up low_plain by (auto simp: data_area_def low_mem_def low_translate intro!: inj_onI)
qed

lemma put_header_outside:
  "a \<notin> hdr_cells n \<Longrightarrow> put_header (n, x, w) m a = m a"
  by (simp add: put_header_def store32_notin hdr_cells_def)

lemma demo_heap_facts:
  "data_area demo_heap low_area" "\<And>a. a \<in> low_mem \<Longrightarrow> vview demo_heap a = fold put_header demo_chunks (pmem vm_boot) a"
  "off_free demo_heap low_area" "free_pages demo_heap = free_pages vm_boot" "pde demo_heap = pde vm_boot"
proof -
  let ?m = "fold put_header demo_chunks (pmem vm_boot)"
  have keep: "\<forall>a. a \<notin> low_mem \<longrightarrow> ?m a = pmem vm_boot a"
  proof (intro allI impI)
    fix a assume "a \<notin> low_mem"
    then have "a \<notin> hdr_cells n" if "unat n < 0x00100000" for n
      using that by (auto simp: low_mem_def hdr_cells_offsets unat_add_small unat_of_nat_u32)
    then show "?m a = pmem vm_boot a" by (simp add: demo_chunks_def put_header_outside)
  qed
  note sp = boot_space [OF demo_heap_agrees keep]
  have sub: "low_area \<subseteq> low_mem" by (auto simp: low_area_def low_mem_def)
  show "free_pages demo_heap = free_pages vm_boot" "pde demo_heap = pde vm_boot" by (rule sp)+
  show "\<And>a. a \<in> low_mem \<Longrightarrow> vview demo_heap a = ?m a" by (rule sp(3))
  show "data_area demo_heap low_area" by (rule data_area_subset [OF sp(1) sub])
  show "off_free demo_heap low_area"
    unfolding off_free_def
  proof
    fix a assume a: "a \<in> low_area"
    then have "unat (frame a) < 0x00300000" by (auto simp: low_area_def unat_frame)
    then show "frame (the (translate demo_heap a)) \<notin> free_pages demo_heap"
      using boot_free_pages(1) [of "frame a"] sp(2) [of a] sp(4) sub a by auto
  qed
qed

lemma demo_headers:
  "chunk_next (vview demo_heap) 0x10000 = 0x10028" "chunk_word (vview demo_heap) 0x10000 = 65"
  "chunk_next (vview demo_heap) 0x10028 = 0" "chunk_word (vview demo_heap) 0x10028 = 65"
  "chunk_next (vview demo_heap) 0x10080 = 0x100C0" "chunk_word (vview demo_heap) 0x10080 = 97"
  "chunk_next (vview demo_heap) 0x100C0 = 0" "chunk_word (vview demo_heap) 0x100C0 = 96"
  "chunk_next (vview demo_heap) 0x12000 = 0" "chunk_word (vview demo_heap) 0x12000 = 1200"
proof -
  have l: "load32 (vview demo_heap) a = load32 (fold put_header demo_chunks (pmem vm_boot)) a" if "unat a < 0x20000" for a
  proof -
    have "unat (a + 1) < 0x20001" "unat (a + 2) < 0x20002" "unat (a + 3) < 0x20003"
      using that by (subst unat_add_small; simp)+
    then show ?thesis using that by (simp add: load32_def demo_heap_facts(2) low_mem_def)
  qed
  note rd = l demo_chunks_def put_header_def load32_store32_same load32_store32_apart apart32_def
  show
  "chunk_next (vview demo_heap) 0x10000 = 0x10028" "chunk_word (vview demo_heap) 0x10000 = 65"
  "chunk_next (vview demo_heap) 0x10028 = 0" "chunk_word (vview demo_heap) 0x10028 = 65"
  "chunk_next (vview demo_heap) 0x10080 = 0x100C0" "chunk_word (vview demo_heap) 0x10080 = 97"
  "chunk_next (vview demo_heap) 0x100C0 = 0" "chunk_word (vview demo_heap) 0x100C0 = 96"
  "chunk_next (vview demo_heap) 0x12000 = 0" "chunk_word (vview demo_heap) 0x12000 = 1200"
    by (simp_all add: chunk_next_def chunk_word_def rd)
qed

lemma demo_heap_ok:
  "heap_ok demo_heap 0x00200008 \<lparr>current_mem_addr = 0x10050, size_array = SIZES,
     list_array = [0, 0x10000, 0x10080, 0, 0, 0, 0, 0, 0, 0, 0x12000]\<rparr>"
  by (simp add: heap_ok_def demo_heap_def kheap.defs vmm.defs)

lemma demo_free:
  "chunk_free (vview demo_heap) 0x100C0" "chunk_free (vview demo_heap) 0x12000"
  "\<not> chunk_free (vview demo_heap) 0x10000" "\<not> chunk_free (vview demo_heap) 0x10028"
  "\<not> chunk_free (vview demo_heap) 0x10080" "chunk_len (vview demo_heap) 0x12000 = 600"
  by (simp_all add: chunk_free_def chunk_len_def demo_headers)

lemma low_headers: "hdr_cells 0x10000 \<subseteq> low_area" "hdr_cells 0x10028 \<subseteq> low_area" "hdr_cells 0x10050 \<subseteq> low_area"
  "hdr_cells 0x10080 \<subseteq> low_area" "hdr_cells 0x100C0 \<subseteq> low_area" "hdr_cells 0x12000 \<subseteq> low_area"
  "hdr_cells 0x12258 \<subseteq> low_area"
  by (simp_all add: hdr_cells_def cell_def low_area_def)

lemma demo_sizes: "size_index SIZES 10 0 40 = 2" "size_index SIZES 10 0 20 = 1"
  by (simp_all add: SIZES_def eval_nat_numeral)

subsection \<open>Properties\<close>

text \<open>C18: For a standard size kmalloc is first fit: it takes the first free chunk of the list of the least
  size class that is larger than the request, returns the address behind its header, and changes
  nothing but the allocated bit of that chunk.\<close>

theorem kmalloc_takes_first_free:
  assumes "heap_ok s this h" and "data_area s A" and "0 \<le> sint len"
    and "size_index SIZES 10 0 len = i" and "i < 10"
    and "chunks (vview s) (list_array h ! i) (as @ n # bs)"
    and "\<forall>a\<in>set as. hdr_cells a \<subseteq> A \<and> \<not> chunk_free (vview s) a"
    and "hdr_cells n \<subseteq> A" and "chunk_free (vview s) n"
  shows "sint len < SIZES ! i \<and> (\<forall>j<i. SIZES ! j \<le> sint len)
    \<and> (\<exists>s'. kmalloc this len s = Inr (n + 8, s')
      \<and> wrote s A (store32 (vview s) (n + 4) (chunk_word (vview s) n OR 1)) s')"
  using size_index_least [OF assms(4)] assms(5) kmalloc_first_fit [OF assms] by simp

lemma kmalloc_takes_first_free_witness:
  "\<exists>s'. kmalloc 0x00200008 40 demo_heap = Inr (0x100C8, s')"
proof -
  have "chunks (vview demo_heap) 0x10080 ([0x10080] @ 0x100C0 # [])" by (simp add: demo_headers)
  then show ?thesis
    using kmalloc_takes_first_free [OF demo_heap_ok demo_heap_facts(1), of 40 2 "[0x10080]" "0x100C0" "[]"]
      demo_sizes demo_free low_headers by auto
qed







end
