(* ===== verification/Tasks.thy ===== *)
theory Tasks
  imports HeapAlloc
begin

text \<open>
  \<^verbatim>\<open>code/TaskManager.cpp\<close> without the timer interrupt: the threads, the ready queue, and the
  creation of threads and processes. Thread descriptors and list nodes are allocated by
  \<^verbatim>\<open>kernel_malloc\<close> and kept in typed stores by address (\<open>threads\<close>, \<open>tnodes\<close>); freeing leaves a node
  readable, as it does in the code. A field that is never initialised holds what its bytes in
  memory held. The addresses of \<^verbatim>\<open>thread_start\<close> and \<^verbatim>\<open>thread_exit\<close> are chosen by the linker.
\<close>

record thread =
  t_esp :: u32
  t_ebp :: u32
  t_ebx :: u32
  t_esi :: u32
  t_edi :: u32
  t_eflags :: u32
  t_page_directory :: u32
  t_heap :: u32
  t_id :: u32
  t_stack :: u32

record thread_list =
  tl_thread :: u32
  tl_next :: u32
  tl_remove :: bool

record tasks = kheap +
  threads :: "u32 \<rightharpoonup> thread"
  tnodes :: "u32 \<rightharpoonup> thread_list"
  current_thread :: u32
  ready_queue :: u32
  tid :: u32
  addr_thread_start :: u32
  addr_thread_exit :: u32

definition sizeof_thread :: u32 where "sizeof_thread = 40"
definition sizeof_thread_list :: u32 where "sizeof_thread_list = 12"
definition sizeof_Heap :: u32 where "sizeof_Heap = 92"

text \<open>What a fresh, uninitialised \<^verbatim>\<open>thread_t\<close> holds.\<close>

definition raw_thread :: "mem \<Rightarrow> u32 \<Rightarrow> thread" where
  "raw_thread m p = \<lparr>t_esp = load32 m p, t_ebp = load32 m (p + 4), t_ebx = load32 m (p + 8),
     t_esi = load32 m (p + 12), t_edi = load32 m (p + 16), t_eflags = load32 m (p + 20),
     t_page_directory = load32 m (p + 24), t_heap = load32 m (p + 28), t_id = load32 m (p + 32),
     t_stack = load32 m (p + 36)\<rparr>"

definition put_thread :: "u32 \<Rightarrow> thread \<Rightarrow> 'a tasks_scheme \<Rightarrow> 'a tasks_scheme" where
  "put_thread p t s = s\<lparr>threads := (threads s)(p \<mapsto> t)\<rparr>"

definition put_tnode :: "u32 \<Rightarrow> thread_list \<Rightarrow> 'a tasks_scheme \<Rightarrow> 'a tasks_scheme" where
  "put_tnode p n s = s\<lparr>tnodes := (tnodes s)(p \<mapsto> n)\<rparr>"

definition thread_at :: "u32 \<Rightarrow> 'a tasks_scheme \<Rightarrow> kerror + thread" where
  "thread_at p s = deref (threads s) p"

definition tnode_at :: "u32 \<Rightarrow> 'a tasks_scheme \<Rightarrow> kerror + thread_list" where
  "tnode_at p s = deref (tnodes s) p"

definition set_tl_next :: "u32 \<Rightarrow> u32 \<Rightarrow> 'a tasks_scheme \<Rightarrow> kerror + 'a tasks_scheme" where
  "set_tl_next p q s = bindR (tnode_at p s) (\<lambda>n. Inr (put_tnode p (n\<lparr>tl_next := q\<rparr>) s))"

text \<open>Initialising an object that \<^verbatim>\<open>kernel_malloc\<close> returned: a null pointer faults.\<close>

definition init_thread :: "u32 \<Rightarrow> thread \<Rightarrow> 'a tasks_scheme \<Rightarrow> kerror + 'a tasks_scheme" where
  "init_thread p t s = (if p = 0 then Inl NullDeref else Inr (put_thread p t s))"

definition init_tnode :: "u32 \<Rightarrow> thread_list \<Rightarrow> 'a tasks_scheme \<Rightarrow> kerror + 'a tasks_scheme" where
  "init_tnode p n s = (if p = 0 then Inl NullDeref else Inr (put_tnode p n s))"

subsection \<open>The ready queue\<close>

definition addThread :: "u32 \<Rightarrow> 'a tasks_scheme \<Rightarrow> kerror + 'a tasks_scheme" where
  "addThread t s =
     bindR (kernel_malloc sizeof_thread_list s) (\<lambda>(item, s).
     bindR (init_tnode item \<lparr>tl_thread = t, tl_next = 0, tl_remove = False\<rparr> s) (\<lambda>s.
     if ready_queue s = 0
     then Inr (printlnk ''addThread--'' (s\<lparr>ready_queue := item\<rparr>))
     else bindR (list_end (\<lambda>p. bindR (tnode_at p s) (\<lambda>n. Inr (tl_next n))) loop_fuel (ready_queue s))
            (\<lambda>iterator. set_tl_next iterator item s)))"

text \<open>The loop of \<^verbatim>\<open>removeThread\<close>. It goes on after a removal, from the node after the removed one.\<close>

fun remove_loop :: "nat \<Rightarrow> u32 \<Rightarrow> u32 \<Rightarrow> 'a tasks_scheme \<Rightarrow> kerror + 'a tasks_scheme" where
  "remove_loop 0 t iterator s = Inl Hang"
| "remove_loop (Suc k) t iterator s =
     bindR (tnode_at iterator s) (\<lambda>n.
     if tl_next n = 0 then Inr s
     else bindR (tnode_at (tl_next n) s) (\<lambda>m.
       bindR (if tl_thread m = t
              then bindR (set_tl_next iterator (tl_next m) s) (\<lambda>s. Inr (kernel_free (tl_next n) s))
              else Inr s) (\<lambda>s.
       bindR (tnode_at iterator s) (\<lambda>n. remove_loop k t (tl_next n) s))))"

definition removeThread :: "u32 \<Rightarrow> 'a tasks_scheme \<Rightarrow> kerror + 'a tasks_scheme" where
  "removeThread t s =
     bindR (tnode_at (ready_queue s) s) (\<lambda>n.
     if tl_thread n = t
     then Inr (kernel_free (ready_queue s) (s\<lparr>ready_queue := tl_next n\<rparr>))
     else remove_loop loop_fuel t (ready_queue s) s)"

definition currentThread :: "'a tasks_scheme \<Rightarrow> kerror + u32" where
  "currentThread s =
     bindR (tnode_at (current_thread s) s) (\<lambda>n. bindR (thread_at (tl_thread n) s) (\<lambda>t. Inr (t_id t)))"

fun running_loop :: "nat \<Rightarrow> u32 \<Rightarrow> u32 \<Rightarrow> 'a tasks_scheme \<Rightarrow> kerror + bool" where
  "running_loop 0 ident iterator s = Inl Hang"
| "running_loop (Suc k) ident iterator s =
     (if iterator = 0 then Inr False
      else bindR (tnode_at iterator s) (\<lambda>n.
        bindR (thread_at (tl_thread n) s) (\<lambda>t.
        if t_id t = ident then Inr True else running_loop k ident (tl_next n) s)))"

definition isRunning :: "u32 \<Rightarrow> 'a tasks_scheme \<Rightarrow> kerror + bool" where
  "isRunning ident s =
     bindR (currentThread s) (\<lambda>cur.
     if cur = ident then Inr True else running_loop loop_fuel ident (ready_queue s) s)"

subsection \<open>Threads and processes\<close>

text \<open>\<^verbatim>\<open>TaskManager::init\<close>: the code that is running becomes the first thread.\<close>

definition tasks_init :: "'a tasks_scheme \<Rightarrow> kerror + 'a tasks_scheme" where
  "tasks_init s =
     bindR (kernel_malloc sizeof_thread s) (\<lambda>(initial_thread, s).
     bindR (init_thread initial_thread
              ((raw_thread (pmem s) initial_thread)\<lparr>t_id := tid s, t_stack := 0\<rparr>) s) (\<lambda>s.
       let s = s\<lparr>tid := tid s + 1\<rparr>
       in bindR (kernel_malloc sizeof_Heap s) (\<lambda>(h, s).
     bindR (heap_ctor h s) (\<lambda>s.
       let s = s\<lparr>currentHeap := h\<rparr>
       in bindR (thread_at initial_thread s) (\<lambda>t.
       let s = put_thread initial_thread
                 (t\<lparr>t_heap := h, t_page_directory := current_page_directory s\<rparr>) s
       in bindR (kernel_malloc sizeof_thread_list s) (\<lambda>(cur, s).
     bindR (init_tnode cur \<lparr>tl_thread = initial_thread, tl_next = 0, tl_remove = False\<rparr>
              (s\<lparr>current_thread := cur\<rparr>)) (\<lambda>s.
     Inr (printlnk ''init--'' (s\<lparr>ready_queue := 0\<rparr>)))))))))"

text \<open>\<^verbatim>\<open>createThread(child, pd, heap)\<close>; the result of the code is always 0.\<close>

definition create_thread_in :: "u32 \<Rightarrow> u32 \<Rightarrow> u32 \<Rightarrow> 'a tasks_scheme \<Rightarrow> kerror + (int \<times> 'a tasks_scheme)" where
  "create_thread_in child pd h s =
     (let s = printk ''PD: '' s; s = printhexk (current_page_directory s) s; s = printlnk '''' s
      in bindR (kernel_malloc sizeof_thread s) (\<lambda>(thr, s).
         bindR (init_thread thr \<lparr>t_esp = 0, t_ebp = 0, t_ebx = 0, t_esi = 0, t_edi = 0, t_eflags = 0,
                  t_page_directory = pd, t_heap = h, t_id = tid s, t_stack = 0\<rparr> s) (\<lambda>s.
           let s = s\<lparr>tid := tid s + 1\<rparr>; s = printlnk ''2'' s
           in bindR (kmalloc (currentHeap s) (4 * 0x100) s) (\<lambda>(stk, s).
              let stack = stk + 4 * 0xFC
              in bindR (vwrite32 (stack - 4) child s) (\<lambda>s.
                 bindR (vwrite32 (stack - 8) (addr_thread_exit s) s) (\<lambda>s.
                 bindR (vwrite32 (stack - 12) (addr_thread_start s) s) (\<lambda>s.
                 bindR (thread_at thr s) (\<lambda>t.
                   let s = put_thread thr (t\<lparr>t_stack := stk, t_esp := stack - 12, t_ebp := 0,
                             t_eflags := 0x200\<rparr>) s
                   in bindR (addThread thr s) (\<lambda>s. Inr (0, printlnk ''create--'' s))))))))))"

definition createThread :: "u32 \<Rightarrow> 'a tasks_scheme \<Rightarrow> kerror + (int \<times> 'a tasks_scheme)" where
  "createThread child s =
     bindR (tnode_at (current_thread s) s) (\<lambda>n.
     bindR (thread_at (tl_thread n) s) (\<lambda>t.
     create_thread_in child (t_page_directory t) (t_heap t) s))"

definition createProcess :: "u32 \<Rightarrow> 'a tasks_scheme \<Rightarrow> kerror + (int \<times> 'a tasks_scheme)" where
  "createProcess child s =
     (let s = printlnk ''++pd'' s
      in bindR (create_page_directory s) (\<lambda>(pd, s).
           let s = printk ''pd: '' s; s = printhexk pd s; s = printlnk '''' s
           in bindR (kernel_malloc sizeof_Heap s) (\<lambda>(h, s).
              bindR (heap_ctor h (switch_page_directory pd s)) (\<lambda>s.
                let s = printk ''Heap: '' s; s = printhexk h s; s = printlnk '''' s;
                    s = s\<lparr>currentHeap := h\<rparr>
                in bindR (create_thread_in child pd h s) (\<lambda>(result, s).
                   bindR (tnode_at (current_thread s) s) (\<lambda>n.
                   bindR (thread_at (tl_thread n) s) (\<lambda>t.
                   Inr (result, switch_page_directory (t_page_directory t)
                                  (s\<lparr>currentHeap := t_heap t\<rparr>)))))))))"

text \<open>
  \<^verbatim>\<open>thread_exit\<close> marks the running thread and then prints for ever; \<open>thread_exit_after\<close> is the state
  after \<open>n\<close> rounds of that loop.
\<close>

definition thread_exit_mark :: "'a tasks_scheme \<Rightarrow> kerror + 'a tasks_scheme" where
  "thread_exit_mark s =
     (let s = printlnk ''Thread returned '' s
      in bindR (tnode_at (current_thread s) s) (\<lambda>n.
         Inr (put_tnode (current_thread s) (n\<lparr>tl_remove := True\<rparr>) s)))"

definition thread_exit_after :: "nat \<Rightarrow> 'a tasks_scheme \<Rightarrow> kerror + 'a tasks_scheme" where
  "thread_exit_after n s = bindR (thread_exit_mark s) (\<lambda>s. Inr ((printk ''A'' ^^ n) s))"

text \<open>\<^verbatim>\<open>thread_start\<close> runs the virtual method \<^verbatim>\<open>launch\<close> of the object, which is the program's.\<close>

definition thread_start ::
  "(u32 \<Rightarrow> 'a tasks_scheme \<Rightarrow> kerror + 'a tasks_scheme) \<Rightarrow> u32 \<Rightarrow> 'a tasks_scheme \<Rightarrow> kerror + 'a tasks_scheme"
where
  "thread_start launch launchable s = launch launchable s"

subsection \<open>The ready queue as a list of threads\<close>

definition tl_links :: "'a tasks_scheme \<Rightarrow> u32 \<rightharpoonup> u32" where
  "tl_links s = (\<lambda>p. map_option tl_next (tnodes s p))"

interpretation tq: linked_list
    "tl_links :: 'a tasks_scheme \<Rightarrow> u32 \<rightharpoonup> u32" put_tnode tl_next
  by unfold_locales (auto simp: tl_links_def put_tnode_def)

text \<open>
  \<open>queue_nodes s p xs ts\<close>: from \<open>p\<close> on, the \<^verbatim>\<open>next\<close> pointers lead through the nodes \<open>xs\<close>, and these
  hold the threads \<open>ts\<close>. \<open>queue_rep\<close> is the abstraction of the ready queue.
\<close>

definition queue_nodes :: "'a tasks_scheme \<Rightarrow> u32 \<Rightarrow> u32 list \<Rightarrow> u32 list \<Rightarrow> bool" where
  "queue_nodes s p xs ts \<longleftrightarrow> tq.members s p xs \<and> ts = map (\<lambda>x. tl_thread (the (tnodes s x))) xs"

definition queue_rep :: "'a tasks_scheme \<Rightarrow> u32 list \<Rightarrow> bool" where
  "queue_rep s ts \<longleftrightarrow> (\<exists>xs. queue_nodes s (ready_queue s) xs ts)"

text \<open>The list nodes lie in the part of the kernel heap that has been handed out.\<close>

definition task_inv :: "'a tasks_scheme \<Rightarrow> bool" where
  "task_inv s \<longleftrightarrow> km_inv s \<and> dom (tnodes s) \<subseteq> km_used s"

lemma queue_nodes_simps [simp]:
  "queue_nodes s p [] ts \<longleftrightarrow> p = 0 \<and> ts = []"
  "queue_nodes s p (x # xs) ts \<longleftrightarrow> p = x \<and> x \<noteq> 0 \<and> (\<exists>n ts'. tnodes s x = Some n
     \<and> ts = tl_thread n # ts' \<and> queue_nodes s (tl_next n) xs ts')"
  by (auto simp: queue_nodes_def tq.members_def tl_links_def)

lemma queue_nodes_null [simp]: "queue_nodes s 0 xs ts \<longleftrightarrow> xs = [] \<and> ts = []"
  by (cases xs) auto

lemma queue_nodes_nonnull:
  "p \<noteq> 0 \<Longrightarrow> queue_nodes s p xs ts \<longleftrightarrow> (\<exists>n ys ts'. xs = p # ys \<and> tnodes s p = Some n
     \<and> ts = tl_thread n # ts' \<and> queue_nodes s (tl_next n) ys ts')"
  by (cases xs) auto

lemma queue_nodes_cong:
  "tnodes s' = tnodes s \<Longrightarrow> queue_nodes s' p xs ts = queue_nodes s p xs ts"
  by (simp add: queue_nodes_def tq.members_def tl_links_def)

lemma queue_nodes_members:
  assumes "queue_nodes s p xs ts"
  shows "distinct xs" and "length xs < loop_fuel" and "set xs \<subseteq> dom (tnodes s)" and "0 \<notin> set xs"
    and "length ts = length xs"
proof -
  have ch: "chain (tl_links s) p xs" and ts: "length ts = length xs"
    using assms by (auto simp: queue_nodes_def tq.members_def)
  show "distinct xs" "length xs < loop_fuel" "length ts = length xs"
    using chain_distinct [OF ch] chain_fuel [OF ch] ts by auto
  show "set xs \<subseteq> dom (tnodes s)" using chain_dom [OF ch] by (auto simp: tl_links_def)
  show "0 \<notin> set xs" using chain_nonzero [OF ch] by blast
qed

lemma tnode_at_put:
  "p \<noteq> 0 \<Longrightarrow> tnode_at p (put_tnode p n s) = Inr n"
  "q \<noteq> p \<Longrightarrow> tnode_at q (put_tnode p n s) = tnode_at q s"
  by (simp_all add: tnode_at_def put_tnode_def deref_def)

lemma put_tnode_fields [simp]:
  "tnodes (put_tnode p n s) = (tnodes s)(p \<mapsto> n)" "threads (put_tnode p n s) = threads s"
  "ready_queue (put_tnode p n s) = ready_queue s" "current_thread (put_tnode p n s) = current_thread s"
  "currentHeap (put_tnode p n s) = currentHeap s" "pmem (put_tnode p n s) = pmem s"
  "iflag (put_tnode p n s) = iflag s"
  by (simp_all add: put_tnode_def)

lemma put_tnode_km [simp]:
  "km_inv (put_tnode p n s) = km_inv s" "km_used (put_tnode p n s) = km_used s"
  "km_room (put_tnode p n s) = km_room s"
  by (simp_all add: put_tnode_def km_inv_def km_used_def km_room_def)

lemma queue_nodes_frame:
  assumes "queue_nodes s p xs ts" and "y \<notin> set xs"
  shows "queue_nodes (put_tnode y n s) p xs ts"
  using assms tq.put_outside [of s p xs y n] by (auto simp: queue_nodes_def)

lemma queue_end:
  assumes "queue_nodes s p xs ts" and "p \<noteq> 0"
  shows "list_end (\<lambda>p. bindR (tnode_at p s) (\<lambda>n. Inr (tl_next n))) loop_fuel p = Inr (last xs)"
proof (rule list_end_chain)
  show "chain (tl_links s) p xs" using assms(1) by (simp add: queue_nodes_def tq.members_def)
  show "xs \<noteq> []" using assms by auto
  show "length xs \<le> loop_fuel" using queue_nodes_members(2) [OF assms(1)] by simp
  fix x assume "x \<in> set xs"
  then obtain n where "tnodes s x = Some n" "x \<noteq> 0" using queue_nodes_members [OF assms(1)] by auto
  then show "bindR (tnode_at x s) (\<lambda>n. Inr (tl_next n))
      = (case tl_links s x of None \<Rightarrow> Inl (WildPtr x) | Some q \<Rightarrow> Inr q)"
    by (simp add: tnode_at_def deref_def tl_links_def)
qed

text \<open>Appending a node: link the last node to it.\<close>

lemma queue_nodes_snoc:
  assumes "queue_nodes s p xs ts" and "xs \<noteq> []" and "tnodes s y = Some n" and "tl_next n = 0"
    and "y \<noteq> 0" and "y \<notin> set xs" and "tnodes s (last xs) = Some l"
  shows "queue_nodes (put_tnode (last xs) (l\<lparr>tl_next := y\<rparr>) s) p (xs @ [y]) (ts @ [tl_thread n])"
proof -
  have "last xs \<in> set xs" using assms(2) by simp
  then have "last xs \<noteq> y" using assms(6) by auto
  moreover have "tq.members (put_tnode (last xs) (l\<lparr>tl_next := y\<rparr>) s) p (xs @ [y])"
    by (rule tq.append_node) (use assms in \<open>auto simp: queue_nodes_def tl_links_def\<close>)
  ultimately show ?thesis using assms by (auto simp: queue_nodes_def)
qed

lemma set_tl_next_Some:
  "p \<noteq> 0 \<Longrightarrow> tnodes s p = Some n \<Longrightarrow> set_tl_next p q s = Inr (put_tnode p (n\<lparr>tl_next := q\<rparr>) s)"
  by (simp add: set_tl_next_def tnode_at_def deref_def)

text \<open>Appending a node to the queue, as \<^verbatim>\<open>addThread\<close> and the timer do it.\<close>

lemma queue_append:
  assumes "queue_nodes s p xs ts" and "p \<noteq> 0" and "tnodes s y = Some n" and "tl_next n = 0"
    and "y \<noteq> 0" and "y \<notin> set xs"
  obtains l where "tnodes s (last xs) = Some l" and "last xs \<noteq> 0"
    and "bindR (list_end (\<lambda>p. bindR (tnode_at p s) (\<lambda>n. Inr (tl_next n))) loop_fuel p)
        (\<lambda>it. set_tl_next it y s) = Inr (put_tnode (last xs) (l\<lparr>tl_next := y\<rparr>) s)"
    and "queue_nodes (put_tnode (last xs) (l\<lparr>tl_next := y\<rparr>) s) p (xs @ [y]) (ts @ [tl_thread n])"
proof -
  have ne: "xs \<noteq> []" using assms(1,2) by auto
  then have "last xs \<in> set xs" by simp
  with queue_nodes_members [OF assms(1)] obtain l where l: "tnodes s (last xs) = Some l" "last xs \<noteq> 0"
    by fastforce
  show ?thesis
    by (rule that [OF l])
      (use queue_end [OF assms(1,2)] set_tl_next_Some [OF l(2,1)] queue_nodes_snoc [OF assms(1) ne assms(3-6) l(1)]
        in simp_all)
qed

subsection \<open>Adding a thread\<close>

lemma printlnk_fields [simp]:
  "tnodes (printlnk m s) = tnodes s" "threads (printlnk m s) = threads s"
  "ready_queue (printlnk m s) = ready_queue s" "current_thread (printlnk m s) = current_thread s"
  "km_inv (printlnk m s) = km_inv s" "km_used (printlnk m s) = km_used s"
  by (simp_all add: printlnk_def km_inv_def km_used_def)

lemma km_room_update [simp]:
  "km_room (printlnk m s) = km_room s" "km_room (s\<lparr>ready_queue := q\<rparr>) = km_room s"
  by (simp_all add: km_room_def printlnk_def)

lemma task_inv_update [simp]:
  "task_inv (printlnk m s) = task_inv s" "task_inv (s\<lparr>ready_queue := q\<rparr>) = task_inv s"
  "task_inv (s\<lparr>current_thread := q\<rparr>) = task_inv s"
  by (simp_all add: task_inv_def km_inv_def km_used_def printlnk_def)

lemma task_inv_new_node:
  assumes "task_inv s" and "unat bytes + 8 < km_room s" and "0 < unat bytes"
  defines "p \<equiv> current_address s + 8"
    and "s1 \<equiv> s\<lparr>pmem := taken_mem (pmem s) (current_address s) bytes,
      current_address := current_address s + 8 + bytes\<rparr>"
  shows "kernel_malloc bytes s = Inr (p, s1)" and "task_inv s1" and "p \<noteq> 0" and "p \<notin> dom (tnodes s)"
    and "p \<in> km_used s1" and "km_used s \<subseteq> km_used s1" and "p \<notin> km_used s"
    and "km_room s1 + unat bytes + 8 = km_room s"
proof -
  have km: "km_inv s" using assms(1) by (simp add: task_inv_def)
  have le: "unat bytes + 8 \<le> km_room s" using assms(2) by simp
  show eq: "kernel_malloc bytes s = Inr (p, s1)" using kernel_malloc_tail [OF km le] by (simp add: p_def s1_def)
  have cur: "current_address s1 = current_address s + 8 + bytes" by (simp add: s1_def)
  show "km_room s1 + unat bytes + 8 = km_room s"
    using km_arith(3) [OF km le] assms(2) by (simp add: km_room_def cur)
  have p: "p \<in> block p bytes" using assms(3) by (simp add: block_def)
  show "p \<noteq> 0" using km_block_used(1) [OF km assms(2)] by (simp add: p_def)
  show n: "p \<notin> km_used s" using km_block_used(2) [OF km assms(2)] p by (auto simp: p_def)
  show "km_used s \<subseteq> km_used s1" "p \<in> km_used s1"
    using km_block_used(3) [OF km assms(2) cur] p by (auto simp: p_def)
  then show "task_inv s1" "p \<notin> dom (tnodes s)"
    using assms(1) n kernel_malloc_km_inv [OF km assms(2)] by (auto simp: task_inv_def s1_def)
qed

text \<open>
  What \<^verbatim>\<open>addThread\<close> does: a node \<open>y\<close> at the end of the queue; all other nodes keep their thread and their
  mark, and only the kernel heap, the console and the queue change.
\<close>

lemma addThread_result:
  assumes "task_inv s" and "20 < km_room s" and "queue_nodes s (ready_queue s) xs ts"
  shows "\<exists>s' y. addThread t s = Inr s' \<and> task_inv s' \<and> km_room s' + 20 = km_room s
    \<and> queue_nodes s' (ready_queue s') (xs @ [y]) (ts @ [t]) \<and> y \<notin> dom (tnodes s) \<and> \<not> tl_remove (the (tnodes s' y))
    \<and> (\<forall>x k. tnodes s x = Some k \<longrightarrow> (\<exists>m. tnodes s' x = Some m \<and> tl_thread m = tl_thread k \<and> tl_remove m = tl_remove k))
    \<and> (\<exists>co tn rq. s' = s\<lparr>con := co, pmem := taken_mem (pmem s) (current_address s) 12,
         current_address := current_address s + 8 + 12, tnodes := tn, ready_queue := rq\<rparr>)"
proof -
  note xs = assms(3)
  define y where "y = current_address s + 8"
  define s1 where "s1 = s\<lparr>pmem := taken_mem (pmem s) (current_address s) 12,
      current_address := current_address s + 8 + 12\<rparr>"
  let ?n = "\<lparr>tl_thread = t, tl_next = 0, tl_remove = False\<rparr>"
  define s2 where "s2 = put_tnode y ?n s1"
  have m: "kernel_malloc 12 s = Inr (y, s1)" "task_inv s1" "y \<noteq> 0" "y \<notin> dom (tnodes s)" "y \<in> km_used s1"
    "km_room s1 + 20 = km_room s"
    using task_inv_new_node [OF assms(1), of 12] assms(2) by (simp_all add: y_def s1_def)
  have y: "y \<notin> set xs" using queue_nodes_members(3) [OF xs] m(4) by auto
  have s1: "tnodes s1 = tnodes s" "ready_queue s1 = ready_queue s" by (simp_all add: s1_def)
  have room2: "km_room s2 + 20 = km_room s" using m(6) by (simp add: s2_def)
  have inv2: "task_inv s2" using m(2,5) by (auto simp: s2_def task_inv_def)
  have xs2: "queue_nodes s2 (ready_queue s2) xs ts"
    using queue_nodes_frame [OF _ y, of s1 "ready_queue s" ts ?n] xs queue_nodes_cong [OF s1(1)] s1(2)
    by (simp add: s2_def)
  have n2: "tnodes s2 y = Some ?n" by (simp add: s2_def)
  have old: "tnodes s2 x = Some k" if "tnodes s x = Some k" for x k using that m(4) s1(1) by (auto simp: s2_def)
  have add: "addThread t s = (if ready_queue s2 = 0
     then Inr (printlnk ''addThread--'' (s2\<lparr>ready_queue := y\<rparr>))
     else bindR (list_end (\<lambda>p. bindR (tnode_at p s2) (\<lambda>n. Inr (tl_next n))) loop_fuel (ready_queue s2))
            (\<lambda>it. set_tl_next it y s2))"
    using m(1,3) by (simp add: addThread_def sizeof_thread_list_def init_tnode_def s2_def)
  show ?thesis
  proof (cases "ready_queue s2 = 0")
    case True
    let ?s = "printlnk ''addThread--'' (s2\<lparr>ready_queue := y\<rparr>)"
    have "xs = []" "ts = []" using True xs2 by simp_all
    then have "queue_nodes ?s (ready_queue ?s) (xs @ [y]) (ts @ [t])" using n2 m(3) by simp
    moreover have "task_inv ?s" "km_room ?s + 20 = km_room s" using inv2 room2 by simp_all
    moreover have "\<exists>co tn rq. ?s = s\<lparr>con := co, pmem := taken_mem (pmem s) (current_address s) 12,
         current_address := current_address s + 8 + 12, tnodes := tn, ready_queue := rq\<rparr>"
      by (rule exI [of _ "con ?s"], rule exI [of _ "tnodes s2"], rule exI [of _ y])
        (simp add: s2_def s1_def put_tnode_def printlnk_def)
    ultimately show ?thesis
      using add True old n2 m(4) by (intro exI [of _ ?s] exI [of _ y]) auto
  next
    case False
    obtain l where l: "tnodes s2 (last xs) = Some l" "last xs \<noteq> 0"
      "bindR (list_end (\<lambda>p. bindR (tnode_at p s2) (\<lambda>n. Inr (tl_next n))) loop_fuel (ready_queue s2))
        (\<lambda>it. set_tl_next it y s2) = Inr (put_tnode (last xs) (l\<lparr>tl_next := y\<rparr>) s2)"
      "queue_nodes (put_tnode (last xs) (l\<lparr>tl_next := y\<rparr>) s2) (ready_queue s2) (xs @ [y]) (ts @ [tl_thread ?n])"
      by (rule queue_append [OF xs2 False n2 _ m(3) y]) auto
    let ?s = "put_tnode (last xs) (l\<lparr>tl_next := y\<rparr>) s2"
    have "addThread t s = Inr ?s" unfolding add by (simp only: False if_False l(3))
    moreover have "queue_nodes ?s (ready_queue ?s) (xs @ [y]) (ts @ [t])" using l(4) by simp
    moreover have "task_inv ?s" using inv2 l(1) by (auto simp: task_inv_def)
    moreover have "\<exists>co tn rq. ?s = s\<lparr>con := co, pmem := taken_mem (pmem s) (current_address s) 12,
         current_address := current_address s + 8 + 12, tnodes := tn, ready_queue := rq\<rparr>"
      by (rule exI [of _ "con s"], rule exI [of _ "tnodes ?s"], rule exI [of _ "ready_queue s"])
        (simp add: s2_def s1_def put_tnode_def)
    moreover have "\<forall>x k. tnodes s x = Some k \<longrightarrow> (\<exists>m. tnodes ?s x = Some m \<and> tl_thread m = tl_thread k
        \<and> tl_remove m = tl_remove k)"
      using old l(1) by fastforce
    moreover have "\<not> tl_remove (the (tnodes ?s y))"
      using n2 l(1) by auto
    ultimately show ?thesis using room2 m(4) by (intro exI [of _ ?s] exI [of _ y]) auto
  qed
qed

lemma addThread_queue:
  assumes "task_inv s" and "20 < km_room s" and "queue_rep s ts"
  shows "\<exists>s'. addThread t s = Inr s' \<and> task_inv s' \<and> queue_rep s' (ts @ [t]) \<and> km_room s' + 20 = km_room s
    \<and> threads s' = threads s \<and> current_thread s' = current_thread s"
proof -
  obtain xs where "queue_nodes s (ready_queue s) xs ts" using assms(3) by (auto simp: queue_rep_def)
  from addThread_result [OF assms(1,2) this, of t] show ?thesis by (fastforce simp: queue_rep_def)
qed

subsection \<open>Removing a thread\<close>

lemma kernel_free_fields [simp]:
  "tnodes (kernel_free p s) = tnodes s" "threads (kernel_free p s) = threads s"
  "ready_queue (kernel_free p s) = ready_queue s" "current_thread (kernel_free p s) = current_thread s"
  "currentHeap (kernel_free p s) = currentHeap s" "iflag (kernel_free p s) = iflag s"
  by (simp_all add: kernel_free_def set_is_available_def)

lemma task_inv_free:
  assumes "task_inv s" and "p \<in> km_used s"
  shows "task_inv (kernel_free p s)"
proof -
  have p: "0x00200000 \<le> unat p" "unat p < unat (current_address s)" using assms(2) by (auto simp: km_used_def)
  then have "unat (p - 8) = unat p - 8" by (subst unat_diff_le) simp_all
  then have "km_inv (kernel_free p s)" "current_address (kernel_free p s) = current_address s"
    using kernel_free_km_inv [of s p] assms(1) p by (simp_all add: task_inv_def)
  then show ?thesis using assms(1) by (simp add: task_inv_def km_used_def)
qed

abbreviation node_thread :: "'a tasks_scheme \<Rightarrow> u32 \<Rightarrow> u32" where
  "node_thread s x \<equiv> tl_thread (the (tnodes s x))"

declare remove_loop.simps(2) [simp del]

lemma remove_loop_walk:
  assumes "queue_nodes s x (x # xs @ y # ys) ts" and "\<forall>z\<in>set (xs @ [y]). node_thread s z \<noteq> t"
  shows "remove_loop (Suc (length xs) + k) t x s = remove_loop k t y s"
  using assms
proof (induction xs arbitrary: x ts)
  case Nil
  then show ?case by (auto simp: tnode_at_def deref_def remove_loop.simps(2) [of _ t x])
next
  case (Cons z xs)
  from Cons.prems(1) obtain n ts' where n: "tnodes s x = Some n" "x \<noteq> 0"
    "queue_nodes s (tl_next n) (z # xs @ y # ys) ts'"
    by (simp only: append_Cons queue_nodes_simps(2)) blast
  from n(3) obtain m where m: "tl_next n = z" "z \<noteq> 0" "tnodes s z = Some m"
    by (simp only: queue_nodes_simps(2)) blast
  have "tl_thread m \<noteq> t" using Cons.prems(2) m by simp
  note nm = n(1) m(1) n(2) m(3,2) n(3) [unfolded m(1)] this
  have "remove_loop (Suc (length (z # xs)) + k) t x s = remove_loop (Suc (length xs) + k) t z s"
    using nm(1-5,7) by (simp add: tnode_at_def deref_def remove_loop.simps(2) [of _ t x])
  with Cons.IH [OF nm(6)] Cons.prems(2) show ?case by simp
qed

lemma remove_loop_absent:
  assumes "queue_nodes s x (x # xs) ts" and "\<forall>z\<in>set xs. node_thread s z \<noteq> t" and "length xs < k"
  shows "remove_loop k t x s = Inr s"
proof (cases xs rule: rev_cases)
  case Nil
  with assms show ?thesis by (cases k) (auto simp: tnode_at_def deref_def remove_loop.simps(2))
next
  case (snoc zs z)
  then have w: "remove_loop k t x s = remove_loop (k - length xs) t z s"
    using remove_loop_walk [of s x zs z "[]" ts t "k - length xs"] assms by (simp del: remove_loop.simps)
  have "chain (tl_links s) x ((x # zs) @ [z])"
    using assms(1) snoc by (simp add: queue_nodes_def tq.members_def)
  then have "tl_links s z = Some 0" by (rule chain_last)
  then obtain n where n: "tnodes s z = Some n" "tl_next n = 0" by (auto simp: tl_links_def)
  have z: "z \<noteq> 0" using queue_nodes_members(4) [OF assms(1)] snoc by auto
  obtain j where j: "k - length xs = Suc j" using assms(3) by (cases "k - length xs") auto
  show ?thesis unfolding w j using n z by (simp add: remove_loop.simps(2) tnode_at_def deref_def)
qed

lemma removeThread_first:
  assumes "queue_nodes s (ready_queue s) (x # xs) ts"
  obtains n where "tnodes s x = Some n" and "x \<noteq> 0" and "ready_queue s = x"
    and "ts = tl_thread n # map (node_thread s) xs"
    and "queue_nodes s (tl_next n) xs (map (node_thread s) xs)"
    and "removeThread t s = (if tl_thread n = t then Inr (kernel_free x (s\<lparr>ready_queue := tl_next n\<rparr>))
           else remove_loop loop_fuel t x s)"
proof -
  from assms obtain n ts' where n: "ready_queue s = x" "x \<noteq> 0" "tnodes s x = Some n"
    "ts = tl_thread n # ts'" "queue_nodes s (tl_next n) xs ts'" by auto
  moreover have "ts' = map (node_thread s) xs" using n(5) by (simp add: queue_nodes_def)
  moreover have "removeThread t s = (if tl_thread n = t
      then Inr (kernel_free x (s\<lparr>ready_queue := tl_next n\<rparr>)) else remove_loop loop_fuel t x s)"
    using n(1-3) by (simp add: removeThread_def tnode_at_def deref_def)
  ultimately show ?thesis using that by blast
qed

text \<open>Removing the thread of the node \<open>y\<close> behind \<open>x\<close>: where the loop stands then.\<close>

lemma removeThread_middle:
  assumes "queue_nodes s (ready_queue s) (as @ x # y # bs) ts"
    and "\<forall>z\<in>set (as @ [x]). node_thread s z \<noteq> t" and "node_thread s y = t"
  obtains n m where "tnodes s x = Some n" and "tnodes s y = Some m" and "x \<noteq> 0" and "y \<noteq> 0"
    and "tl_next n = y"
    and "removeThread t s = remove_loop (loop_fuel - Suc (length as)) t (tl_next m)
            (kernel_free y (put_tnode x (n\<lparr>tl_next := tl_next m\<rparr>) s))"
proof -
  note mem = queue_nodes_members [OF assms(1)]
  have ch: "chain (tl_links s) (ready_queue s) (as @ x # y # bs)"
    using assms(1) by (simp add: queue_nodes_def tq.members_def)
  obtain n where n: "tnodes s x = Some n" "tl_next n = y" using chain_link [OF ch] by (auto simp: tl_links_def)
  have xy: "x \<noteq> 0" "y \<noteq> 0" "y \<in> dom (tnodes s)" "x \<noteq> y" using mem by auto
  then obtain m where m: "tnodes s y = Some m" by auto
  have fuel: "loop_fuel - length as = Suc (loop_fuel - Suc (length as))" using mem(2) by simp
  have walk: "removeThread t s = remove_loop (loop_fuel - length as) t x s"
  proof (cases as)
    case Nil
    have "queue_nodes s (ready_queue s) (x # y # bs) ts" using assms(1) Nil by simp
    then obtain k where "tnodes s x = Some k" "removeThread t s = (if tl_thread k = t
        then Inr (kernel_free x (s\<lparr>ready_queue := tl_next k\<rparr>)) else remove_loop loop_fuel t x s)"
      by (rule removeThread_first [where t = t])
    then show ?thesis using assms(2) Nil by simp
  next
    case (Cons z zs)
    have q: "queue_nodes s (ready_queue s) (z # zs @ x # y # bs) ts" using assms(1) Cons by simp
    then obtain k where k: "ready_queue s = z" "tnodes s z = Some k" "removeThread t s = (if tl_thread k = t
        then Inr (kernel_free z (s\<lparr>ready_queue := tl_next k\<rparr>)) else remove_loop loop_fuel t z s)"
      by (rule removeThread_first [where t = t])
    have f: "loop_fuel = Suc (length zs) + (loop_fuel - length as)" using mem(2) Cons by simp
    have "remove_loop (Suc (length zs) + (loop_fuel - length as)) t z s = remove_loop (loop_fuel - length as) t x s"
      by (rule remove_loop_walk [OF q [unfolded k(1)]]) (use assms(2) Cons in auto)
    then show ?thesis using k(2,3) assms(2) Cons f by simp
  qed
  have "removeThread t s = remove_loop (loop_fuel - Suc (length as)) t (tl_next m)
            (kernel_free y (put_tnode x (n\<lparr>tl_next := tl_next m\<rparr>) s))"
    unfolding walk fuel remove_loop.simps(2)
    using n m xy assms(3) by (simp add: tnode_at_def deref_def set_tl_next_def)
  with n m xy show ?thesis using that by blast
qed

lemma queue_nodes_upd_queue [simp]:
  "queue_nodes (s\<lparr>ready_queue := q\<rparr>) p xs ts = queue_nodes s p xs ts"
  "queue_nodes (kernel_free y s) p xs ts = queue_nodes s p xs ts"
  by (rule queue_nodes_cong; simp)+

lemma queue_nodes_unlink:
  assumes "queue_nodes s p (as @ x # y # bs) ts" and "tnodes s x = Some n" and "tnodes s y = Some m"
  defines "s' \<equiv> put_tnode x (n\<lparr>tl_next := tl_next m\<rparr>) s"
  shows "queue_nodes s' p (as @ x # bs) (map (node_thread s) (as @ x # bs))"
    and "queue_nodes s' (tl_next m) bs (map (node_thread s) bs)"
proof -
  have "tq.members s' p (as @ x # bs)"
    unfolding s'_def
    by (rule tq.unlink_node) (use assms(1,3) in \<open>auto simp: queue_nodes_def tl_links_def\<close>)
  moreover have same: "node_thread s' z = node_thread s z" for z using assms(2) by (simp add: s'_def)
  ultimately show all: "queue_nodes s' p (as @ x # bs) (map (node_thread s) (as @ x # bs))"
    by (simp add: queue_nodes_def)
  have "chain (tl_links s') x (x # bs)"
    using all chain_append [of "tl_links s'" p as x bs] by (simp add: queue_nodes_def tq.members_def)
  then have "chain (tl_links s') (tl_next m) bs" by (auto simp: tl_links_def s'_def)
  then show "queue_nodes s' (tl_next m) bs (map (node_thread s) bs)"
    by (simp add: queue_nodes_def tq.members_def same)
qed

lemma removeThread_absent:
  assumes "queue_rep s ts" and "ts \<noteq> []" and "t \<notin> set ts"
  shows "removeThread t s = Inr s"
proof -
  obtain xs where xs: "queue_nodes s (ready_queue s) xs ts" using assms(1) by (auto simp: queue_rep_def)
  have ts: "ts = map (node_thread s) xs" using xs by (simp add: queue_nodes_def)
  obtain x ys where ys: "xs = x # ys" using assms(2) ts by (cases xs) auto
  obtain n where n: "tnodes s x = Some n" "ready_queue s = x" "removeThread t s = (if tl_thread n = t
      then Inr (kernel_free x (s\<lparr>ready_queue := tl_next n\<rparr>)) else remove_loop loop_fuel t x s)"
    by (rule removeThread_first [OF xs [unfolded ys]]) blast
  have "remove_loop loop_fuel t x s = Inr s"
    by (rule remove_loop_absent [OF xs [unfolded n(2) ys]])
      (use assms(3) ts ys queue_nodes_members(2) [OF xs] in auto)
  then show ?thesis using n assms(3) ts ys by auto
qed

lemma removeThread_queue:
  assumes "queue_rep s ts" and "distinct ts" and "task_inv s"
  shows "ts = [] \<Longrightarrow> removeThread t s = Inl NullDeref"
    and "ts \<noteq> [] \<Longrightarrow> t \<notin> set ts \<Longrightarrow> removeThread t s = Inr s"
    and "t \<in> set ts \<Longrightarrow> hd ts = t \<or> last ts \<noteq> t \<Longrightarrow>
      \<exists>s'. removeThread t s = Inr s' \<and> task_inv s' \<and> queue_rep s' (remove1 t ts)
        \<and> threads s' = threads s \<and> current_thread s' = current_thread s"
    and "ts \<noteq> [] \<Longrightarrow> hd ts \<noteq> t \<Longrightarrow> last ts = t \<Longrightarrow> removeThread t s = Inl NullDeref"
proof -
  obtain xs where xs: "queue_nodes s (ready_queue s) xs ts" using assms(1) by (auto simp: queue_rep_def)
  have ts: "ts = map (node_thread s) xs" using xs by (simp add: queue_nodes_def)
  note mem = queue_nodes_members [OF xs]
  show "ts = [] \<Longrightarrow> removeThread t s = Inl NullDeref"
    using xs by (cases xs) (auto simp: removeThread_def tnode_at_def)
  show "ts \<noteq> [] \<Longrightarrow> t \<notin> set ts \<Longrightarrow> removeThread t s = Inr s"
    by (rule removeThread_absent [OF assms(1)])
  have split: "\<exists>as x y bs. xs = as @ x # y # bs \<and> (\<forall>z\<in>set (as @ [x]). node_thread s z \<noteq> t)
      \<and> node_thread s y = t \<and> (\<forall>z\<in>set bs. node_thread s z \<noteq> t)" if t: "t \<in> set ts" "hd ts \<noteq> t"
  proof -
    obtain us vs where us: "ts = us @ t # vs" "t \<notin> set us" "t \<notin> set vs"
      using t(1) assms(2) by (auto dest: split_list)
    then obtain us' y vs' where xs': "xs = us' @ y # vs'" "us = map (node_thread s) us'"
      "t = node_thread s y" "vs = map (node_thread s) vs'"
      unfolding ts map_eq_append_conv map_eq_Cons_conv by blast
    have "us' \<noteq> []" using t(2) us xs' by (cases us') auto
    then obtain as x where "us' = as @ [x]" by (cases us' rule: rev_cases) auto
    with us xs' have "xs = as @ x # y # vs'" "\<forall>z\<in>set (as @ [x]). node_thread s z \<noteq> t"
      "node_thread s y = t" "\<forall>z\<in>set vs'. node_thread s z \<noteq> t" by (auto simp: image_iff)
    then show ?thesis by blast
  qed
  show "\<exists>s'. removeThread t s = Inr s' \<and> task_inv s' \<and> queue_rep s' (remove1 t ts)
        \<and> threads s' = threads s \<and> current_thread s' = current_thread s"
    if t: "t \<in> set ts" "hd ts = t \<or> last ts \<noteq> t"
  proof (cases "hd ts = t")
    case True
    obtain x ys where ys: "xs = x # ys" using t(1) ts by (cases xs) auto
    obtain n where n: "tnodes s x = Some n" "ts = tl_thread n # map (node_thread s) ys"
      "queue_nodes s (tl_next n) ys (map (node_thread s) ys)" "removeThread t s = (if tl_thread n = t
        then Inr (kernel_free x (s\<lparr>ready_queue := tl_next n\<rparr>)) else remove_loop loop_fuel t x s)"
      by (rule removeThread_first [OF xs [unfolded ys]]) blast
    let ?s = "kernel_free x (s\<lparr>ready_queue := tl_next n\<rparr>)"
    have "x \<in> km_used s" using assms(3) n(1) by (auto simp: task_inv_def)
    then have "task_inv ?s" using assms(3) by (intro task_inv_free) (simp_all add: km_used_def)
    moreover have "queue_rep ?s (remove1 t ts)"
      unfolding queue_rep_def using n(2,3) True by (intro exI [of _ ys]) simp
    moreover have "removeThread t s = Inr ?s" using n True by simp
    ultimately show ?thesis by (intro exI [of _ ?s]) simp
  next
    case False
    then obtain as x y bs where sp: "xs = as @ x # y # bs" "\<forall>z\<in>set (as @ [x]). node_thread s z \<noteq> t"
      "node_thread s y = t" "\<forall>z\<in>set bs. node_thread s z \<noteq> t" using split t(1) by blast
    obtain n m where nm: "tnodes s x = Some n" "tnodes s y = Some m" "x \<noteq> 0"
      "removeThread t s = remove_loop (loop_fuel - Suc (length as)) t (tl_next m)
            (kernel_free y (put_tnode x (n\<lparr>tl_next := tl_next m\<rparr>) s))"
      by (rule removeThread_middle [OF xs [unfolded sp(1)] sp(2,3)]) blast
    let ?s = "kernel_free y (put_tnode x (n\<lparr>tl_next := tl_next m\<rparr>) s)"
    note un = queue_nodes_unlink [OF xs [unfolded sp(1)] nm(1,2)]
    have "last ts \<noteq> t" using t(2) False by simp
    then have "bs \<noteq> []" using sp(3) by (auto simp: ts sp(1))
    then obtain cs where b: "bs = tl_next m # cs" using un(2) by (cases bs) auto
    have same: "node_thread ?s z = node_thread s z" for z using nm(1) by simp
    have "queue_nodes ?s (tl_next m) (tl_next m # cs) (map (node_thread s) bs)"
      unfolding queue_nodes_upd_queue b [symmetric] by (rule un(2))
    then have "remove_loop (loop_fuel - Suc (length as)) t (tl_next m) ?s = Inr ?s"
      by (rule remove_loop_absent) (use b sp(4) mem(2) sp(1) same in auto)
    then have "removeThread t s = Inr ?s" using nm(4) by simp
    moreover have "x \<in> km_used s" "y \<in> km_used s" using assms(3) nm by (auto simp: task_inv_def)
    then have "task_inv ?s" using assms(3) by (intro task_inv_free) (auto simp: task_inv_def)
    moreover have "remove1 t ts = map (node_thread s) (as @ x # bs)"
      using sp(2,3) by (auto simp: ts sp(1) remove1_append image_iff)
    with un(1) have "queue_rep ?s (remove1 t ts)" unfolding queue_rep_def by auto
    ultimately show ?thesis by (intro exI [of _ ?s]) simp
  qed
  show "removeThread t s = Inl NullDeref" if t: "ts \<noteq> []" "hd ts \<noteq> t" "last ts = t"
  proof -
    have "t \<in> set ts" using t(1,3) last_in_set by blast
    then obtain as x y bs where sp: "xs = as @ x # y # bs" "\<forall>z\<in>set (as @ [x]). node_thread s z \<noteq> t"
      "node_thread s y = t" "\<forall>z\<in>set bs. node_thread s z \<noteq> t" using split t(2) by blast
    obtain n m where nm: "tnodes s x = Some n" "tnodes s y = Some m"
      "removeThread t s = remove_loop (loop_fuel - Suc (length as)) t (tl_next m)
            (kernel_free y (put_tnode x (n\<lparr>tl_next := tl_next m\<rparr>) s))"
      by (rule removeThread_middle [OF xs [unfolded sp(1)] sp(2,3)]) blast
    have "bs = []" using t(3) sp(4) by (cases bs rule: rev_cases) (auto simp: ts sp(1))
    then have "tl_next m = 0" using queue_nodes_unlink(2) [OF xs [unfolded sp(1)] nm(1,2)] by simp
    moreover have "loop_fuel - Suc (length as) = Suc (loop_fuel - Suc (Suc (length as)))"
      using mem(2) sp(1) by simp
    ultimately show ?thesis using nm(3) by (simp add: remove_loop.simps(2) tnode_at_def)
  qed
qed

subsection \<open>Asking for a thread\<close>

text \<open>The running thread and the waiting ones have descriptors.\<close>

definition described :: "'a tasks_scheme \<Rightarrow> u32 \<Rightarrow> bool" where
  "described s t \<longleftrightarrow> t \<noteq> 0 \<and> t \<in> dom (threads s)"

abbreviation thread_ident :: "'a tasks_scheme \<Rightarrow> u32 \<Rightarrow> u32" where
  "thread_ident s t \<equiv> t_id (the (threads s t))"

lemma thread_at_described: "described s t \<Longrightarrow> thread_at t s = Inr (the (threads s t))"
  by (auto simp: described_def thread_at_def deref_def)

definition is_current :: "'a tasks_scheme \<Rightarrow> u32 \<Rightarrow> bool" where
  "is_current s t \<longleftrightarrow> current_thread s \<noteq> 0 \<and> (\<exists>n. tnodes s (current_thread s) = Some n \<and> tl_thread n = t)"

lemma currentThread_is: "is_current s t \<Longrightarrow> described s t \<Longrightarrow> currentThread s = Inr (thread_ident s t)"
  by (auto simp: is_current_def currentThread_def tnode_at_def deref_Some thread_at_described deref_def)

lemma running_loop_queue:
  assumes "queue_nodes s p xs ts" and "\<forall>t\<in>set ts. described s t" and "length xs < k"
  shows "running_loop k i p s = Inr (\<exists>t\<in>set ts. thread_ident s t = i)"
  using assms
proof (induction xs arbitrary: p ts k)
  case Nil
  then show ?case by (cases k) auto
next
  case (Cons x xs)
  then obtain j where j: "k = Suc j" by (cases k) auto
  from Cons.prems(1) obtain n ts' where n: "p = x" "x \<noteq> 0" "tnodes s x = Some n" "ts = tl_thread n # ts'"
    "queue_nodes s (tl_next n) xs ts'" by auto
  with Cons.IH [OF n(5), of j] Cons.prems(2,3) j show ?case
    by (simp add: tnode_at_def deref_def thread_at_described)
qed

lemma isRunning_spec:
  assumes "queue_rep s ts" and "is_current s c" and "\<forall>t\<in>set (c # ts). described s t"
  shows "isRunning i s = Inr (\<exists>t\<in>set (c # ts). thread_ident s t = i)"
proof -
  obtain xs where xs: "queue_nodes s (ready_queue s) xs ts" using assms(1) by (auto simp: queue_rep_def)
  with assms show ?thesis
    using running_loop_queue [OF xs _ queue_nodes_members(2) [OF xs], of i]
    by (auto simp: isRunning_def currentThread_is simp del: running_loop.simps)
qed

subsection \<open>Properties\<close>

text \<open>
  A state for the witnesses: the thread of the node at \<open>0x200008\<close> runs, three threads wait.
\<close>

definition demo_thread :: "u32 \<Rightarrow> thread" where
  "demo_thread i = \<lparr>t_esp = 0xD0000100 + 0x100 * i, t_ebp = 0, t_ebx = i, t_esi = 0, t_edi = 0, t_eflags = 0x200,
     t_page_directory = 0x00302000 + 0x1000 * i, t_heap = 0x00201000 + 0x100 * i, t_id = i,
     t_stack = 0xD0000000 + 0x100 * i\<rparr>"

definition demo_tasks :: tasks where
  "demo_tasks =
    \<lparr>con = \<lparr>vram = (\<lambda>_. 0), cursorX = 0, cursorY = 0\<rparr>,
     pmem = store32 (store32 (\<lambda>_. 0) 0x00200200 1) (0x00200200 + 4) 0x000FFE00, iflag = True,
     device8 = (\<lambda>_ _. 0), device16 = (\<lambda>_ _. 0), ptrace = [], is_initialized = True,
     start_address = 0x00200000, last_valid_address = 0x00300000, current_address = 0x00200200,
     pmm_location = 0x00304000, first_free_index = 4, last_available_index = 0x1FFF,
     bitmap = 0x00301000, pmm_paging_active = True,
     cr0 = 0x80000011, cr3 = 0x00302000, current_page_directory = 0x00302000,
     kernel_page_directory = 0x00302000, heap_objs = Map.empty, currentHeap = 0x00201000,
     threads = [0x00200100 \<mapsto> demo_thread 0, 0x00200130 \<mapsto> demo_thread 1,
       0x00200160 \<mapsto> demo_thread 2, 0x00200190 \<mapsto> demo_thread 3],
     tnodes =
       [0x00200008 \<mapsto> \<lparr>tl_thread = 0x00200100, tl_next = 0, tl_remove = False\<rparr>,
        0x00200020 \<mapsto> \<lparr>tl_thread = 0x00200130, tl_next = 0x00200038, tl_remove = False\<rparr>,
        0x00200038 \<mapsto> \<lparr>tl_thread = 0x00200160, tl_next = 0x00200050, tl_remove = False\<rparr>,
        0x00200050 \<mapsto> \<lparr>tl_thread = 0x00200190, tl_next = 0, tl_remove = False\<rparr>],
     current_thread = 0x00200008, ready_queue = 0x00200020, tid = 4,
     addr_thread_start = 0x00101000, addr_thread_exit = 0x00101100\<rparr>"

lemma demo_nodes:
  "queue_nodes demo_tasks 0x00200020 [0x00200020, 0x00200038, 0x00200050]
     [0x00200130, 0x00200160, 0x00200190]"
  by (simp add: demo_tasks_def)

lemma demo_facts [simp]:
  "task_inv demo_tasks" "km_room demo_tasks = 0x000FFE00"
  "queue_rep demo_tasks [0x00200130, 0x00200160, 0x00200190]"
  "is_current demo_tasks 0x00200100" "\<forall>t\<in>{0x00200100, 0x00200130, 0x00200160, 0x00200190}. described demo_tasks t"
proof -
  show "task_inv demo_tasks"
    using mb_header(2) [of "store32 (\<lambda>_. 0) 0x00200200 1" "0x00200200" "0x000FFE00"]
      mb_header_frame(1) [of "store32 (\<lambda>_. 0) 0x00200200 1" "0x00200200" "0x000FFE00"]
    by (simp add: demo_tasks_def task_inv_def km_inv_def km_used_def del: mb_header_frame)
  show "km_room demo_tasks = 0x000FFE00" by (simp add: demo_tasks_def km_room_def)
  have "ready_queue demo_tasks = 0x00200020" by (simp add: demo_tasks_def)
  then show "queue_rep demo_tasks [0x00200130, 0x00200160, 0x00200190]"
    using demo_nodes by (auto simp only: queue_rep_def)
  show "is_current demo_tasks 0x00200100" "\<forall>t\<in>{0x00200100, 0x00200130, 0x00200160, 0x00200190}. described demo_tasks t"
    by (simp_all add: demo_tasks_def is_current_def described_def)
qed

text \<open>While the kernel heap has room for a list node, addThread succeeds and puts the thread at
  the end of the ready queue, behind all others; it disturbs neither descriptors nor the running thread.\<close>

theorem addThread_appends:
  assumes "task_inv s" and "20 < km_room s" and "queue_rep s ts"
  shows "\<exists>s'. addThread t s = Inr s' \<and> task_inv s' \<and> queue_rep s' (ts @ [t]) \<and> km_room s' + 20 = km_room s
    \<and> threads s' = threads s \<and> current_thread s' = current_thread s"
  by (rule addThread_queue [OF assms])

lemma addThread_appends_witness:
  "\<exists>s'. addThread 0x002001C0 demo_tasks = Inr s'
    \<and> queue_rep s' [0x00200130, 0x00200160, 0x00200190, 0x002001C0]"
  using addThread_appends [OF demo_facts(1) _ demo_facts(3), of "0x002001C0"] by auto

text \<open>C24: removeThread takes a waiting thread out of the ready queue and keeps the order of the others.
  It follows a null pointer if the queue is empty, and also if the thread is the last one but not
  the first: the loop then goes on behind the removed node. A thread that does not wait changes nothing.\<close>

theorem removeThread_removes:
  assumes "queue_rep s ts" and "distinct ts" and "task_inv s"
  shows "if ts = [] \<or> hd ts \<noteq> t \<and> last ts = t then removeThread t s = Inl NullDeref
    else if t \<notin> set ts then removeThread t s = Inr s
    else \<exists>s'. removeThread t s = Inr s' \<and> task_inv s' \<and> queue_rep s' (remove1 t ts)
      \<and> threads s' = threads s \<and> current_thread s' = current_thread s"
  using removeThread_queue [OF assms] by auto

lemma removeThread_removes_witness:
  "(\<exists>s'. removeThread 0x00200160 demo_tasks = Inr s' \<and> queue_rep s' [0x00200130, 0x00200190])
    \<and> removeThread 0x00200190 demo_tasks = Inl NullDeref"
  using removeThread_removes [OF demo_facts(3) _ demo_facts(1), of "0x00200160"]
    removeThread_removes [OF demo_facts(3) _ demo_facts(1), of "0x00200190"] by auto

text \<open>isRunning returns, and says whether the identifier belongs to the running thread or to one
  of the waiting threads.\<close>

theorem isRunning_known_threads:
  assumes "queue_rep s ts" and "is_current s c" and "\<forall>t\<in>set (c # ts). described s t"
  shows "isRunning i s = Inr (i \<in> (\<lambda>t. thread_ident s t) ` set (c # ts))"
  using isRunning_spec [OF assms] by (auto simp: image_iff)

lemma isRunning_known_threads_witness:
  "isRunning 3 demo_tasks = Inr True \<and> isRunning 7 demo_tasks = Inr False"
proof -
  have i: "isRunning i demo_tasks = Inr (i \<in> {0, 1, 2, 3})" for i
    using isRunning_known_threads [OF demo_facts(3,4), of i] demo_facts(5)
    by (simp add: demo_tasks_def demo_thread_def)
  show ?thesis by (simp only: i) simp
qed

end
