(* ===== verification/Ipc.thy ===== *)
theory Ipc
  imports Tasks
begin

text \<open>
  \<^verbatim>\<open>code/IPC.cpp\<close>: messages between threads, one queue for all of them. A message is a node
  \<^verbatim>\<open>struct dataq\<close> (\<open>mnodes\<close>, by address) and a copy of the payload, both in the kernel heap. Sender
  and receiver buffers are in the running address space: \<^verbatim>\<open>memcpy\<close> goes through the page tables.
\<close>

record dataq =
  q_tid :: u32
  q_cbData :: u32
  q_data :: u32
  q_next :: u32

record ipc = tasks +
  mnodes :: "u32 \<rightharpoonup> dataq"
  msgs :: u32

definition sizeof_dataq :: u32 where "sizeof_dataq = 16"

definition put_mnode :: "u32 \<Rightarrow> dataq \<Rightarrow> 'a ipc_scheme \<Rightarrow> 'a ipc_scheme" where
  "put_mnode p n s = s\<lparr>mnodes := (mnodes s)(p \<mapsto> n)\<rparr>"

definition mnode_at :: "u32 \<Rightarrow> 'a ipc_scheme \<Rightarrow> kerror + dataq" where
  "mnode_at p s = deref (mnodes s) p"

definition init_mnode :: "u32 \<Rightarrow> dataq \<Rightarrow> 'a ipc_scheme \<Rightarrow> kerror + 'a ipc_scheme" where
  "init_mnode p n s = (if p = 0 then Inl NullDeref else Inr (put_mnode p n s))"

definition set_q_next :: "u32 \<Rightarrow> u32 \<Rightarrow> 'a ipc_scheme \<Rightarrow> kerror + 'a ipc_scheme" where
  "set_q_next p q s = bindR (mnode_at p s) (\<lambda>n. Inr (put_mnode p (n\<lparr>q_next := q\<rparr>) s))"

text \<open>\<^verbatim>\<open>memcpy\<close> of \<^verbatim>\<open>kmain.cpp\<close>, under paging.\<close>

function vmemcpy :: "u32 \<Rightarrow> u32 \<Rightarrow> u32 \<Rightarrow> 'a vmm_scheme \<Rightarrow> kerror + 'a vmm_scheme" where
  "vmemcpy dest src len s =
     (if len \<noteq> 0
      then bindR (vload8 src s) (\<lambda>b. bindR (vstore8 dest b s) (vmemcpy (dest + 1) (src + 1) (len - 1)))
      else Inr s)"
  by pat_completeness auto
termination
  by (relation "measure (\<lambda>(_, _, len, _). unat len)") (auto simp: unat_minus_one unat_gt_0)

declare vmemcpy.simps [simp del]

definition enqueue_msg :: "u32 \<Rightarrow> 'a ipc_scheme \<Rightarrow> kerror + 'a ipc_scheme" where
  "enqueue_msg msg s =
     (if msgs s = 0 then Inr (s\<lparr>msgs := msg\<rparr>)
      else bindR (list_end (\<lambda>p. bindR (mnode_at p s) (\<lambda>n. Inr (q_next n))) loop_fuel (msgs s))
             (\<lambda>it. set_q_next it msg s))"

definition sendMessage :: "u32 \<Rightarrow> u32 \<Rightarrow> u32 \<Rightarrow> 'a ipc_scheme \<Rightarrow> kerror + 'a ipc_scheme" where
  "sendMessage ident data cbData s =
     (let s = cli s
      in bindR (isRunning ident s) (\<lambda>running.
         bindR (if running
                then bindR (kernel_malloc sizeof_dataq s) (\<lambda>(msg, s).
                     bindR (init_mnode msg \<lparr>q_tid = ident, q_cbData = cbData,
                              q_data = load32 (pmem s) (msg + 8), q_next = 0\<rparr> s) (\<lambda>s.
                     bindR (kernel_malloc cbData s) (\<lambda>(copy, s).
                     bindR (mnode_at msg s) (\<lambda>n.
                       let s = put_mnode msg (n\<lparr>q_data := copy\<rparr>) s
                       in bindR (vmemcpy copy data cbData s) (\<lambda>s. enqueue_msg msg s)))))
                else Inr s) (\<lambda>s. Inr (sti s))))"

text \<open>Copying the payload out of a message for the receiver: \<^verbatim>\<open>new unsigned char[cbData]\<close> and \<^verbatim>\<open>memcpy\<close>.\<close>

definition take_payload :: "dataq \<Rightarrow> 'a ipc_scheme \<Rightarrow> kerror + (u32 \<times> 'a ipc_scheme)" where
  "take_payload n s =
     bindR (kmalloc (currentHeap s) (q_cbData n) s) (\<lambda>(data, s).
     bindR (vmemcpy data (q_data n) (q_cbData n) s) (\<lambda>s. Inr (data, s)))"

text \<open>The pointer returned, and what is stored in \<^verbatim>\<open>cbData\<close>, if anything.\<close>

fun receive_loop ::
  "nat \<Rightarrow> u32 \<Rightarrow> u32 \<Rightarrow> 'a ipc_scheme \<Rightarrow> kerror + (u32 \<times> u32 option \<times> 'a ipc_scheme)" where
  "receive_loop 0 ident iterator s = Inl Hang"
| "receive_loop (Suc k) ident iterator s =
     bindR (mnode_at iterator s) (\<lambda>n.
     if q_next n = 0 then Inr (0, None, sti s)
     else bindR (mnode_at (q_next n) s) (\<lambda>m.
       if q_tid m = ident
       then bindR (take_payload m s) (\<lambda>(data, s).
            bindR (set_q_next iterator (q_next m) s) (\<lambda>s.
            Inr (data, Some (q_cbData m), sti (kernel_free (q_next n) s))))
       else receive_loop k ident (q_next n) s))"

definition receiveMessage :: "'a ipc_scheme \<Rightarrow> kerror + (u32 \<times> u32 option \<times> 'a ipc_scheme)" where
  "receiveMessage s =
     (let s = cli s
      in bindR (currentThread s) (\<lambda>ident.
           if msgs s = 0 then receive_loop loop_fuel ident (msgs s) s
           else bindR (mnode_at (msgs s) s) (\<lambda>n.
             if q_tid n = ident
             then bindR (take_payload n s) (\<lambda>(data, s).
                  bindR (mnode_at (msgs s) s) (\<lambda>h.
                    let s = kernel_free (msgs s) (s\<lparr>msgs := q_next h\<rparr>)
                    in Inr (data, Some (q_cbData n), sti s)))
             else receive_loop loop_fuel ident (msgs s) s)))"

fun clear_loop :: "nat \<Rightarrow> u32 \<Rightarrow> u32 \<Rightarrow> 'a ipc_scheme \<Rightarrow> kerror + 'a ipc_scheme" where
  "clear_loop 0 ident iterator s = Inl Hang"
| "clear_loop (Suc k) ident iterator s =
     (if iterator = 0 then Inr s
      else bindR (mnode_at iterator s) (\<lambda>n.
        if q_next n = 0 then Inr s
        else bindR (mnode_at (q_next n) s) (\<lambda>m.
          bindR (if q_tid m = ident
                 then bindR (set_q_next iterator (q_next m) s) (\<lambda>s. Inr (kernel_free (q_next n) s))
                 else Inr s) (\<lambda>s.
          bindR (mnode_at iterator s) (\<lambda>n. clear_loop k ident (q_next n) s)))))"

definition clearMessages :: "u32 \<Rightarrow> 'a ipc_scheme \<Rightarrow> kerror + 'a ipc_scheme" where
  "clearMessages ident s =
     (let s = cli s; iterator = msgs s
      in bindR (if iterator = 0 then Inr s
                else bindR (mnode_at iterator s) (\<lambda>n.
                  if q_tid n = ident then Inr (kernel_free iterator (s\<lparr>msgs := q_next n\<rparr>))
                  else Inr s)) (\<lambda>s.
         bindR (clear_loop loop_fuel ident iterator s) (\<lambda>s. Inr (sti s))))"

end
