(* ===== verification/Scheduler.thy ===== *)
theory Scheduler
  imports Ipc
begin

text \<open>
  The timer interrupt: \<^verbatim>\<open>TaskManager::handleTimerEvent\<close> and \<^verbatim>\<open>switch_thread\<close> of
  \<^verbatim>\<open>code/thread_asm.s\<close>, over the registers of the processor. The flags register is \<open>cpu_eflags\<close> with
  the interrupt flag in \<open>iflag\<close>. \<^verbatim>\<open>switch_thread\<close> ends in a \<^verbatim>\<open>ret\<close> on the new thread's stack, which is where
  that thread goes on; the two dead words below the stack pointers that \<^verbatim>\<open>pushf\<close> and \<^verbatim>\<open>popf\<close> use are
  not modelled.
\<close>

record sched = ipc +
  cpu_esp :: u32
  cpu_ebp :: u32
  cpu_ebx :: u32
  cpu_esi :: u32
  cpu_edi :: u32
  cpu_eflags :: u32

definition pushf :: "'a sched_scheme \<Rightarrow> u32" where
  "pushf s = (cpu_eflags s AND NOT 0x200) OR (if iflag s then 0x200 else 0)"

definition popf :: "u32 \<Rightarrow> 'a sched_scheme \<Rightarrow> 'a sched_scheme" where
  "popf v s = s\<lparr>cpu_eflags := v, iflag := bit v 9\<rparr>"

text \<open>The first half of \<^verbatim>\<open>switch_thread\<close>: the registers go to the descriptor of the running thread.\<close>

definition save_regs :: "'a sched_scheme \<Rightarrow> kerror + 'a sched_scheme" where
  "save_regs s =
     bindR (tnode_at (current_thread s) s) (\<lambda>n.
     bindR (thread_at (tl_thread n) s) (\<lambda>t.
     Inr (put_thread (tl_thread n) (t\<lparr>t_esp := cpu_esp s, t_ebp := cpu_ebp s, t_ebx := cpu_ebx s,
            t_esi := cpu_esi s, t_edi := cpu_edi s, t_eflags := pushf s\<rparr>) s)))"

text \<open>The second half: the registers and the address space come from the descriptor of the next.\<close>

definition load_regs :: "u32 \<Rightarrow> 'a sched_scheme \<Rightarrow> kerror + 'a sched_scheme" where
  "load_regs new_thread s =
     (let s = s\<lparr>current_thread := new_thread\<rparr>
      in bindR (tnode_at new_thread s) (\<lambda>n.
         bindR (thread_at (tl_thread n) s) (\<lambda>t.
         let s = s\<lparr>cpu_esp := t_esp t, cpu_ebp := t_ebp t, cpu_ebx := t_ebx t, cpu_esi := t_esi t,
                   cpu_edi := t_edi t\<rparr>;
             s = popf (t_eflags t) s
         in Inr (s\<lparr>cr3 := t_page_directory t\<rparr>))))"

definition switch_thread :: "u32 \<Rightarrow> 'a sched_scheme \<Rightarrow> kerror + 'a sched_scheme" where
  "switch_thread new_thread s = bindR (save_regs s) (load_regs new_thread)"

text \<open>The two branches of \<^verbatim>\<open>handleTimerEvent\<close> before a new thread is chosen.\<close>

definition retire_current :: "'a sched_scheme \<Rightarrow> kerror + 'a sched_scheme" where
  "retire_current s =
     bindR (tnode_at (current_thread s) s) (\<lambda>n.
     bindR (thread_at (tl_thread n) s) (\<lambda>t.
     bindR (clearMessages (t_id t) s) (\<lambda>s.
       let s = kernel_free (t_heap t) s;
           s = kernel_free (tl_thread n) s
       in bindR (removeThread (tl_thread n) s) (\<lambda>s. Inr (s\<lparr>current_thread := 0\<rparr>)))))"

definition requeue_current :: "'a sched_scheme \<Rightarrow> kerror + 'a sched_scheme" where
  "requeue_current s =
     bindR (list_end (\<lambda>p. bindR (tnode_at p s) (\<lambda>n. Inr (tl_next n))) loop_fuel (ready_queue s)) (\<lambda>iterator.
     bindR (set_tl_next iterator (current_thread s) s) (\<lambda>s. set_tl_next (current_thread s) 0 s))"

definition handleTimerEvent :: "'a sched_scheme \<Rightarrow> kerror + 'a sched_scheme" where
  "handleTimerEvent s =
     (if ready_queue s = 0 then Inr s
      else bindR (tnode_at (current_thread s) s) (\<lambda>n.
           bindR (if tl_remove n then retire_current s else requeue_current s) (\<lambda>s.
             let new_thread = ready_queue s
             in bindR (tnode_at new_thread s) (\<lambda>h.
                  let s = s\<lparr>ready_queue := tl_next h\<rparr>
                  in bindR (tnode_at (current_thread s) s) (\<lambda>c.
                     bindR (thread_at (tl_thread c) s) (\<lambda>t.
                       let s = put_thread (tl_thread c) (t\<lparr>t_heap := currentHeap s\<rparr>) s
                       in bindR (tnode_at new_thread s) (\<lambda>h.
                          bindR (thread_at (tl_thread h) s) (\<lambda>t.
                          switch_thread new_thread (s\<lparr>currentHeap := t_heap t\<rparr>)))))))))"

subsection \<open>Round robin\<close>

text \<open>
  The abstraction: thread \<open>c\<close> runs, the threads \<open>ts\<close> wait in this order, all of them distinct and with
  descriptors; the running thread's list node is not in the ready queue and not marked for removal.
\<close>

definition sched_rep :: "'a sched_scheme \<Rightarrow> u32 \<Rightarrow> u32 list \<Rightarrow> bool" where
  "sched_rep s c ts \<longleftrightarrow> distinct (c # ts) \<and> (\<forall>t\<in>set (c # ts). described s t)
     \<and> (\<exists>xs n. queue_nodes s (ready_queue s) xs ts \<and> current_thread s \<noteq> 0 \<and> current_thread s \<notin> set xs
          \<and> tnodes s (current_thread s) = Some n \<and> tl_thread n = c \<and> \<not> tl_remove n
          \<and> (\<forall>x\<in>set xs. \<not> tl_remove (the (tnodes s x))))"

definition cpu_regs :: "'a sched_scheme \<Rightarrow> u32 list" where
  "cpu_regs s = [cpu_esp s, cpu_ebp s, cpu_ebx s, cpu_esi s, cpu_edi s, pushf s]"

definition saved_regs :: "thread \<Rightarrow> u32 list" where
  "saved_regs t = [t_esp t, t_ebp t, t_ebx t, t_esi t, t_edi t, t_eflags t]"

lemma pushf_flags:
  assumes "cpu_eflags s = v" and "iflag s = bit v 9"
  shows "pushf s = v"
proof -
  define m :: u32 where "m = 0x200"
  have m: "bit m n \<longleftrightarrow> n = 9" for n
  proof -
    have "m = push_bit 9 1" by (simp add: m_def)
    then show ?thesis by (simp only: bit_push_bit_iff) (auto simp: bit_1_iff)
  qed
  have "pushf s = (v AND NOT m) OR (if bit v 9 then m else 0)"
    using assms by (simp add: pushf_def m_def)
  also have "\<dots> = v"
    by (rule bit_eqI) (auto simp: bit_or_iff bit_and_iff bit_not_iff m)
  finally show ?thesis .
qed

lemma put_tnode_commute:
  "a \<noteq> b \<Longrightarrow> put_tnode a m (put_tnode b n s) = put_tnode b n (put_tnode a m s)"
  by (simp add: put_tnode_def fun_upd_twist)

text \<open>The running thread goes to the end of the queue.\<close>

lemma requeue_current_queue:
  assumes "queue_nodes s (ready_queue s) xs ts" and "xs \<noteq> []" and "tnodes s (current_thread s) = Some n"
    and "current_thread s \<noteq> 0" and "current_thread s \<notin> set xs"
  obtains l where "tnodes s (last xs) = Some l"
    and "requeue_current s = Inr (put_tnode (current_thread s) (n\<lparr>tl_next := 0\<rparr>)
        (put_tnode (last xs) (l\<lparr>tl_next := current_thread s\<rparr>) s))"
    and "queue_nodes (put_tnode (current_thread s) (n\<lparr>tl_next := 0\<rparr>)
        (put_tnode (last xs) (l\<lparr>tl_next := current_thread s\<rparr>) s))
        (ready_queue s) (xs @ [current_thread s]) (ts @ [tl_thread n])"
proof -
  let ?c = "current_thread s"
  have rq: "ready_queue s \<noteq> 0" using assms(1,2) by (auto simp: queue_nodes_null)
  have l: "last xs \<in> set xs" using assms(2) by simp
  then have ne: "last xs \<noteq> ?c" "last xs \<noteq> 0" using assms(5) queue_nodes_members(4) [OF assms(1)] by auto
  from l obtain l where ln: "tnodes s (last xs) = Some l" using queue_nodes_members(3) [OF assms(1)] by auto
  define s0 where "s0 = put_tnode ?c (n\<lparr>tl_next := 0\<rparr>) s"
  have r: "requeue_current s = Inr (put_tnode ?c (n\<lparr>tl_next := 0\<rparr>) (put_tnode (last xs) (l\<lparr>tl_next := ?c\<rparr>) s))"
    using queue_end [OF assms(1) rq] set_tl_next_Some [OF ne(2) ln] assms(3,4) ne(1)
    by (simp add: requeue_current_def set_tl_next_Some)
  have "queue_nodes (put_tnode (last xs) (l\<lparr>tl_next := ?c\<rparr>) s0) (ready_queue s) (xs @ [?c]) (ts @ [tl_thread n])"
    using queue_nodes_snoc [of s0 "ready_queue s" xs ts ?c "n\<lparr>tl_next := 0\<rparr>" l]
      queue_nodes_frame [OF assms(1,5)] assms(2,4,5) ne ln by (simp add: s0_def)
  then show ?thesis unfolding s0_def put_tnode_commute [OF ne(1)] by (rule that [OF ln r])
qed

text \<open>What the switch to the thread \<open>u\<close> does to the threads and the processor.\<close>

definition preempted :: "'a sched_scheme \<Rightarrow> thread \<Rightarrow> thread" where
  "preempted s t = t\<lparr>t_heap := currentHeap s, t_esp := cpu_esp s, t_ebp := cpu_ebp s, t_ebx := cpu_ebx s,
     t_esi := cpu_esi s, t_edi := cpu_edi s, t_eflags := pushf s\<rparr>"

lemma preempted_saved [simp]:
  "saved_regs (preempted s t) = cpu_regs s" "t_heap (preempted s t) = currentHeap s"
  "t_page_directory (preempted s t) = t_page_directory t" "t_id (preempted s t) = t_id t"
  by (simp_all add: preempted_def saved_regs_def cpu_regs_def)

lemma timer_switch:
  assumes "queue_nodes s (ready_queue s) (x # xs) (u # ts)" and "tnodes s (current_thread s) = Some n"
    and "current_thread s \<noteq> 0" and "current_thread s \<notin> set (x # xs)" and "\<not> tl_remove n"
    and "described s u" and "described s (tl_thread n)" and "u \<noteq> tl_thread n"
  obtains s' where "handleTimerEvent s = Inr s'" and "current_thread s' = x"
    and "queue_nodes s' (ready_queue s') (xs @ [current_thread s]) (ts @ [tl_thread n])"
    and "threads s' = (threads s)(tl_thread n \<mapsto> preempted s (the (threads s (tl_thread n))))"
    and "map_option tl_thread \<circ> tnodes s' = map_option tl_thread \<circ> tnodes s"
    and "map_option tl_remove \<circ> tnodes s' = map_option tl_remove \<circ> tnodes s"
    and "cpu_regs s' = saved_regs (the (threads s u))" and "cr3 s' = t_page_directory (the (threads s u))"
    and "currentHeap s' = t_heap (the (threads s u))"
proof -
  let ?c = "current_thread s" and ?q = "ready_queue s"
  obtain l where l: "tnodes s (last (x # xs)) = Some l"
    "requeue_current s = Inr (put_tnode ?c (n\<lparr>tl_next := 0\<rparr>) (put_tnode (last (x # xs)) (l\<lparr>tl_next := ?c\<rparr>) s))"
    "queue_nodes (put_tnode ?c (n\<lparr>tl_next := 0\<rparr>) (put_tnode (last (x # xs)) (l\<lparr>tl_next := ?c\<rparr>) s))
       ?q ((x # xs) @ [?c]) ((u # ts) @ [tl_thread n])"
    by (rule requeue_current_queue [OF assms(1) _ assms(2-4)]) simp_all
  define s1 where "s1 = put_tnode ?c (n\<lparr>tl_next := 0\<rparr>) (put_tnode (last (x # xs)) (l\<lparr>tl_next := ?c\<rparr>) s)"
  have rq: "requeue_current s = Inr s1" using l(2) by (simp only: s1_def)
  from l(3) obtain h where h: "?q = x" "x \<noteq> 0" "tnodes s1 x = Some h" "tl_thread h = u"
    "queue_nodes s1 (tl_next h) (xs @ [?c]) (ts @ [tl_thread n])"
    unfolding s1_def [symmetric] by auto
  have c1: "tnodes s1 ?c = Some (n\<lparr>tl_next := 0\<rparr>)" by (simp add: s1_def)
  have same: "threads s1 = threads s" "current_thread s1 = ?c" "ready_queue s1 = x" "currentHeap s1 = currentHeap s"
    using h(1) by (simp_all add: s1_def)
  obtain tc tu where t: "threads s (tl_thread n) = Some tc" "threads s u = Some tu" "u \<noteq> 0" "tl_thread n \<noteq> 0"
    using assms(6,7) by (auto simp: described_def)
  define s2 where "s2 = s1\<lparr>ready_queue := tl_next h, threads := (threads s)(tl_thread n \<mapsto> preempted s tc),
      currentHeap := t_heap tu, current_thread := x, cpu_esp := t_esp tu, cpu_ebp := t_ebp tu,
      cpu_ebx := t_ebx tu, cpu_esi := t_esi tu, cpu_edi := t_edi tu, cpu_eflags := t_eflags tu,
      iflag := bit (t_eflags tu) 9, cr3 := t_page_directory tu\<rparr>"
  have regs: "cpu_esp s1 = cpu_esp s" "cpu_ebp s1 = cpu_ebp s" "cpu_ebx s1 = cpu_ebx s" "cpu_esi s1 = cpu_esi s"
    "cpu_edi s1 = cpu_edi s" "pushf (s1\<lparr>ready_queue := a, threads := b, currentHeap := d\<rparr>) = pushf s" for a b d
    by (simp_all add: s1_def put_tnode_def pushf_def)
  show ?thesis
  proof (rule that)
    show "handleTimerEvent s = Inr s2"
      using rq h(1-4) c1 same t assms(2,3,5,8) regs
      by (simp add: handleTimerEvent_def tnode_at_def deref_def thread_at_def put_thread_def
          switch_thread_def save_regs_def load_regs_def Let_def popf_def s2_def preempted_def)
    show "queue_nodes s2 (ready_queue s2) (xs @ [?c]) (ts @ [tl_thread n])"
      using h(5) queue_nodes_cong [of s2 s1] by (simp add: s2_def)
    have "pushf s2 = t_eflags tu" by (rule pushf_flags) (simp_all add: s2_def)
    then show "cpu_regs s2 = saved_regs (the (threads s u))"
      using t by (simp add: cpu_regs_def saved_regs_def) (simp add: s2_def)
    show "map_option tl_thread \<circ> tnodes s2 = map_option tl_thread \<circ> tnodes s"
      "map_option tl_remove \<circ> tnodes s2 = map_option tl_remove \<circ> tnodes s"
      using l(1) assms(2) by (auto simp: s2_def s1_def fun_eq_iff)
  qed (use t in \<open>simp_all add: s2_def\<close>)
qed

lemma timer_step:
  fixes s :: "'a sched_scheme"
  assumes "sched_rep s c (u # ts)"
  obtains s' where "handleTimerEvent s = Inr s'" and "sched_rep s' u (ts @ [c])"
    and "threads s' = (threads s)(c \<mapsto> preempted s (the (threads s c)))"
    and "cpu_regs s' = saved_regs (the (threads s u))" and "cr3 s' = t_page_directory (the (threads s u))"
    and "currentHeap s' = t_heap (the (threads s u))"
proof -
  obtain xs n where q: "queue_nodes s (ready_queue s) xs (u # ts)" "current_thread s \<noteq> 0"
    "current_thread s \<notin> set xs" "tnodes s (current_thread s) = Some n" "tl_thread n = c" "\<not> tl_remove n"
    "\<forall>x\<in>set xs. \<not> tl_remove (the (tnodes s x))" using assms by (auto simp: sched_rep_def)
  then obtain x ys where xs: "xs = x # ys" by (cases xs) auto
  have d: "described s u" "described s c" "u \<noteq> c" "distinct (c # u # ts)" "\<forall>t\<in>set (c # u # ts). described s t"
    using assms by (auto simp: sched_rep_def)
  obtain s' where s': "handleTimerEvent s = Inr s'" "current_thread s' = x"
    "queue_nodes s' (ready_queue s') (ys @ [current_thread s]) (ts @ [c])"
    "threads s' = (threads s)(c \<mapsto> preempted s (the (threads s c)))"
    "map_option tl_thread \<circ> tnodes s' = map_option tl_thread \<circ> tnodes s"
    "map_option tl_remove \<circ> tnodes s' = map_option tl_remove \<circ> tnodes s"
    "cpu_regs s' = saved_regs (the (threads s u))" "cr3 s' = t_page_directory (the (threads s u))"
    "currentHeap s' = t_heap (the (threads s u))"
    by (rule timer_switch [OF q(1) [unfolded xs] q(4,2) q(3) [unfolded xs] q(6)]) (use d q(5) in auto)
  have node: "\<exists>m. tnodes s' y = Some m \<and> tl_thread m = tl_thread k \<and> tl_remove m = tl_remove k"
    if "tnodes s y = Some k" for y k
    using fun_cong [OF s'(5), of y] fun_cong [OF s'(6), of y] that by auto
  have mem: "set xs \<subseteq> dom (tnodes s)" "0 \<notin> set xs" "distinct xs"
    using queue_nodes_members [OF q(1)] by auto
  obtain k where k: "tnodes s x = Some k" "tl_thread k = u" using q(1) xs by auto
  have rem: "\<not> tl_remove (the (tnodes s' y))" if "y \<in> set xs \<or> y = current_thread s" for y
  proof -
    have "y \<in> dom (tnodes s)" using that mem(1) q(4) by auto
    then obtain j where "tnodes s y = Some j" by auto
    moreover from this have "\<not> tl_remove j" using that q(4,6,7) by auto
    ultimately show ?thesis using node by fastforce
  qed
  obtain m where m: "tnodes s' x = Some m" "tl_thread m = u" using node [OF k(1)] k(2) by auto
  have "sched_rep s' u (ts @ [c])"
    unfolding sched_rep_def
  proof (intro conjI exI [of _ "ys @ [current_thread s]"] exI [of _ m])
    show "distinct (u # ts @ [c])" using d(4) by auto
    show "\<forall>t\<in>set (u # ts @ [c]). described s' t" using d(5) by (auto simp: described_def s'(4))
    show "\<forall>y\<in>set (ys @ [current_thread s]). \<not> tl_remove (the (tnodes s' y))" using rem xs by auto
    show "\<not> tl_remove m" using rem [of x] xs m(1) by simp
  qed (use s'(2,3) m mem q(3) xs in auto)
  with s' show ?thesis using that by blast
qed

lemma timer_idle: "sched_rep s c [] \<Longrightarrow> handleTimerEvent s = Inr s"
  by (auto simp: sched_rep_def queue_nodes_def tq.members_def handleTimerEvent_def)

subsection \<open>Runs\<close>

text \<open>
  Between two timer interrupts the running thread may change anything but the tables of the task
  manager: registers, flags, memory, the current heap. \<open>sched_run n\<close> is such a run with \<open>n\<close> timer
  interrupts, the last of them at its end.
\<close>

definition thread_work :: "'a sched_scheme \<Rightarrow> 'a sched_scheme \<Rightarrow> bool" where
  "thread_work s s' \<longleftrightarrow> threads s' = threads s \<and> tnodes s' = tnodes s
     \<and> current_thread s' = current_thread s \<and> ready_queue s' = ready_queue s"

inductive sched_run :: "nat \<Rightarrow> 'a sched_scheme \<Rightarrow> 'a sched_scheme \<Rightarrow> bool" where
  no_tick: "sched_run 0 s s"
| tick: "thread_work s s1 \<Longrightarrow> handleTimerEvent s1 = Inr s2 \<Longrightarrow> sched_run n s2 s3 \<Longrightarrow> sched_run (Suc n) s s3"

inductive_cases sched_run_0E: "sched_run 0 s s'"
inductive_cases sched_run_SucE: "sched_run (Suc n) s s'"

lemma sched_rep_work: "thread_work s s' \<Longrightarrow> sched_rep s c ts \<Longrightarrow> sched_rep s' c ts"
  unfolding sched_rep_def thread_work_def described_def
  by (auto simp: queue_nodes_cong [of s' s])

lemma sched_run_rotates:
  assumes "sched_run n s s'" and "sched_rep s c ts"
  shows "sched_rep s' (hd (rotate n (c # ts))) (tl (rotate n (c # ts)))"
  using assms
proof (induction arbitrary: c ts rule: sched_run.induct)
  case (no_tick s)
  then show ?case by simp
next
  case (tick s s1 s2 n s3)
  have rep1: "sched_rep s1 c ts" using sched_rep_work tick.hyps(1) tick.prems .
  show ?case
  proof (cases ts)
    case Nil
    then have "s2 = s1" using timer_idle [of s1 c] rep1 tick.hyps(2) by simp
    then show ?thesis using tick.IH [of c ts] rep1 Nil by (simp add: rotate_Suc)
  next
    case (Cons u us)
    obtain s2' where "handleTimerEvent s1 = Inr s2'" "sched_rep s2' u (us @ [c])"
      by (rule timer_step [OF rep1 [unfolded Cons]])
    then have "sched_rep s2 u (us @ [c])" using tick.hyps(2) by simp
    from tick.IH [OF this] show ?thesis by (simp add: Cons rotate1_rotate_swap rotate_Suc)
  qed
qed

lemma sched_run_exists:
  "sched_rep s c ts \<Longrightarrow> \<exists>s'. sched_run n s s'"
proof (induction n arbitrary: s c ts)
  case 0
  show ?case using sched_run.no_tick by blast
next
  case (Suc n)
  have "\<exists>s2 u us. handleTimerEvent s = Inr s2 \<and> sched_rep s2 u us"
  proof (cases ts)
    case Nil
    then show ?thesis using timer_idle [of s c] Suc.prems by blast
  next
    case (Cons u us)
    then show ?thesis using timer_step [OF Suc.prems [unfolded Cons]] by blast
  qed
  then obtain s2 u us where s2: "handleTimerEvent s = Inr s2" "sched_rep s2 u us" by blast
  moreover have "thread_work s s" by (simp add: thread_work_def)
  ultimately show ?case using Suc.IH [OF s2(2)] sched_run.tick by blast
qed

text \<open>A waiting thread with \<open>length us\<close> threads before it: when its turn comes, it finds what was saved.\<close>

lemma sched_run_resumes:
  assumes "sched_run (Suc (length us)) s s'" and "sched_rep s c (us @ t # ws)"
  shows "sched_rep s' t (ws @ c # us) \<and> cpu_regs s' = saved_regs (the (threads s t))
    \<and> cr3 s' = t_page_directory (the (threads s t)) \<and> currentHeap s' = t_heap (the (threads s t))"
  using assms
proof (induction us arbitrary: s c ws)
  case Nil
  from Nil.prems(1) obtain s1 s2 where r: "thread_work s s1" "handleTimerEvent s1 = Inr s2" "sched_run 0 s2 s'"
    by (auto elim: sched_run_SucE)
  then have "s' = s2" by (auto elim: sched_run_0E)
  moreover have rep1: "sched_rep s1 c (t # ws)" using sched_rep_work [OF r(1)] Nil.prems(2) by simp
  moreover have "threads s1 = threads s" using r(1) by (simp add: thread_work_def)
  ultimately show ?case using r(2) timer_step [OF rep1] by (metis append_Cons append_Nil sum.inject(2))
next
  case (Cons u us)
  from Cons.prems(1) obtain s1 s2 where r: "thread_work s s1" "handleTimerEvent s1 = Inr s2"
    "sched_run (Suc (length us)) s2 s'" by (auto elim: sched_run_SucE)
  have rep1: "sched_rep s1 c (u # us @ t # ws)" using sched_rep_work [OF r(1)] Cons.prems(2) by simp
  have th: "threads s1 = threads s" using r(1) by (simp add: thread_work_def)
  obtain s2' where s2: "handleTimerEvent s1 = Inr s2'" "sched_rep s2' u ((us @ t # ws) @ [c])"
    "threads s2' = (threads s1)(c \<mapsto> preempted s1 (the (threads s1 c)))"
    by (rule timer_step [OF rep1])
  have "c \<noteq> t" using rep1 by (simp add: sched_rep_def)
  then have same: "threads s2 t = threads s t" "sched_rep s2 u (us @ t # ws @ [c])" using s2 r(2) th by auto
  from Cons.IH [OF r(3) same(2)] same(1) show ?case by simp
qed

subsection \<open>Retiring a thread\<close>

lemma handleTimerEvent_retired:
  assumes "tnodes s (current_thread s) = Some n" and "tl_remove n"
  shows "ready_queue s \<noteq> 0 \<Longrightarrow> handleTimerEvent s \<noteq> Inr s'"
proof
  assume "handleTimerEvent s = Inr s'" and "ready_queue s \<noteq> 0"
  with assms have "\<exists>s1. retire_current s = Inr s1 \<and> (\<exists>c. tnode_at (current_thread s1) s1 = Inr c)"
    by (auto simp: handleTimerEvent_def tnode_at_def Let_def split: if_splits)
  then show False by (auto simp: retire_current_def tnode_at_def Let_def)
qed

lemma clearMessages_none: "msgs s = 0 \<Longrightarrow> clearMessages i s = Inr (sti (cli s))"
proof -
  have "clear_loop (Suc k) i 0 t = Inr t" for k and t :: "'a ipc_scheme" by simp
  from this [of "2 ^ 32 - 1", folded loop_fuel_Suc]
  show "msgs s = 0 \<Longrightarrow> clearMessages i s = Inr (sti (cli s))"
    by (simp add: clearMessages_def cli_def)
qed

lemma kernel_free_msgs [simp]: "msgs (kernel_free p s) = msgs s"
  by (simp add: kernel_free_def set_is_available_def)

lemma retired_then_null:
  assumes "queue_rep s ts" and "ts \<noteq> []" and "tl_thread n \<notin> set ts" and "msgs s = 0"
    and "current_thread s \<noteq> 0" and "tnodes s (current_thread s) = Some n" and "tl_remove n"
    and "described s (tl_thread n)"
  shows "handleTimerEvent s = Inl NullDeref"
proof -
  let ?c = "tl_thread n"
  obtain t where t: "threads s ?c = Some t" "?c \<noteq> 0" using assms(8) by (auto simp: described_def)
  define s1 where "s1 = kernel_free ?c (kernel_free (t_heap t) (sti (cli s)))"
  have keep: "tnodes s1 = tnodes s" "ready_queue s1 = ready_queue s"
    by (simp_all add: s1_def sti_def cli_def)
  then have "queue_rep s1 ts" using assms(1) queue_nodes_cong [of s1 s] by (simp add: queue_rep_def)
  then have "removeThread ?c s1 = Inr s1" using assms(2,3) by (intro removeThread_absent)
  then have "retire_current s = Inr (s1\<lparr>current_thread := 0\<rparr>)"
    using t assms(4-6) by (simp add: retire_current_def tnode_at_def thread_at_def deref_def
        clearMessages_none s1_def Let_def)
  moreover obtain x xs where "queue_nodes s (ready_queue s) (x # xs) ts"
    using assms(1,2) by (auto simp: queue_rep_def queue_nodes_def neq_Nil_conv)
  then obtain h where "ready_queue s = x" "x \<noteq> 0" "tnodes s x = Some h" by auto
  ultimately show ?thesis
    using assms(5-7) keep by (simp add: handleTimerEvent_def tnode_at_def deref_def Let_def)
qed

lemma exit_then_timer:
  assumes "sched_rep s c ts" and "ts \<noteq> []" and "msgs s = 0"
  shows "\<exists>s1. thread_exit_mark s = Inr s1 \<and> handleTimerEvent s1 = Inl NullDeref"
proof -
  obtain xs n where q: "queue_nodes s (ready_queue s) xs ts" "current_thread s \<noteq> 0"
    "current_thread s \<notin> set xs" "tnodes s (current_thread s) = Some n" "tl_thread n = c"
    using assms(1) by (auto simp: sched_rep_def)
  define s0 where "s0 = printlnk ''Thread returned '' s"
  define s1 where "s1 = put_tnode (current_thread s) (n\<lparr>tl_remove := True\<rparr>) s0"
  have "queue_nodes s0 (ready_queue s) xs ts" using q(1) queue_nodes_cong [of s0 s] by (simp add: s0_def)
  then have "queue_nodes s1 (ready_queue s1) xs ts" using queue_nodes_frame q(3) by (simp add: s1_def s0_def)
  then have "queue_rep s1 ts" by (auto simp: queue_rep_def)
  moreover have "c \<notin> set ts" "described s1 c" using assms(1) by (auto simp: sched_rep_def described_def s1_def s0_def)
  moreover have "msgs s1 = 0" using assms(3) by (simp add: s1_def s0_def put_tnode_def printlnk_def)
  moreover have "current_thread s1 \<noteq> 0" "tnodes s1 (current_thread s1) = Some (n\<lparr>tl_remove := True\<rparr>)"
    using q(2) by (simp_all add: s1_def s0_def)
  ultimately have "handleTimerEvent s1 = Inl NullDeref"
    using retired_then_null [of s1 ts "n\<lparr>tl_remove := True\<rparr>"] assms(2) q(5) by simp
  moreover have "thread_exit_mark s = Inr s1"
    using q(2,4) by (simp add: thread_exit_mark_def tnode_at_def deref_def s1_def s0_def Let_def)
  ultimately show ?thesis by blast
qed

subsection \<open>Properties\<close>

definition demo_sched :: sched where
  "demo_sched = ipc.extend (tasks.extend demo_tasks (ipc.fields Map.empty 0))
     (sched.fields 0xD00000F0 0xD0000100 11 12 13 0x202)"

lemma demo_sched_tasks:
  "threads demo_sched = threads demo_tasks" "tnodes demo_sched = tnodes demo_tasks"
  "current_thread demo_sched = 0x00200008" "ready_queue demo_sched = 0x00200020" "msgs demo_sched = 0"
  "currentHeap demo_sched = 0x00201000"
  by (simp_all add: demo_sched_def demo_tasks_def tasks.defs ipc.defs sched.defs)

lemma demo_sched_rep: "sched_rep demo_sched 0x00200100 [0x00200130, 0x00200160, 0x00200190]"
proof -
  have "queue_nodes demo_sched (ready_queue demo_sched) [0x00200020, 0x00200038, 0x00200050]
     [0x00200130, 0x00200160, 0x00200190]"
    by (simp add: demo_sched_tasks) (simp add: demo_tasks_def)
  then show ?thesis
    unfolding sched_rep_def
    by (intro conjI exI [of _ "[0x00200020, 0x00200038, 0x00200050]"] exI [of _ "the (tnodes demo_tasks 0x00200008)"])
      (simp_all add: described_def demo_sched_tasks, simp_all add: demo_tasks_def)
qed

text \<open>C1: A timer interrupt is one step of round robin: the first waiting thread runs, the interrupted
  one waits behind all others; the processor gets the new thread's saved registers, flags, page
  directory and heap, the interrupted thread's are saved, and no other descriptor changes.\<close>

theorem timer_is_round_robin:
  assumes "sched_rep s c (u # ts)"
  shows "\<exists>s'. handleTimerEvent s = Inr s' \<and> sched_rep s' u (ts @ [c])
    \<and> threads s' = (threads s)(c \<mapsto> preempted s (the (threads s c)))
    \<and> cpu_regs s' = saved_regs (the (threads s u)) \<and> cr3 s' = t_page_directory (the (threads s u))
    \<and> currentHeap s' = t_heap (the (threads s u))"
  by (rule timer_step [OF assms]) blast

lemma timer_is_round_robin_witness:
  "\<exists>s'. handleTimerEvent demo_sched = Inr s'
    \<and> sched_rep s' 0x00200130 [0x00200160, 0x00200190, 0x00200100]
    \<and> cpu_regs s' = [0xD0000200, 0, 1, 0, 0, 0x200] \<and> cr3 s' = 0x00303000"
proof -
  have "threads demo_sched 0x00200130 = Some (demo_thread 1)" by (simp add: demo_sched_tasks demo_tasks_def)
  with timer_is_round_robin [OF demo_sched_rep] show ?thesis by (auto simp: demo_thread_def saved_regs_def)
qed

text \<open>C16: Runs with any number of timer interrupts are possible, whatever the threads do between them,
  and after \<open>n\<close> interrupts the running and the waiting threads are the initial ones rotated \<open>n\<close> times.\<close>

theorem scheduling_rotates:
  assumes "sched_rep s c ts"
  shows "(\<exists>s'. sched_run n s s') \<and> (\<forall>s'. sched_run n s s' \<longrightarrow>
    sched_rep s' (hd (rotate n (c # ts))) (tl (rotate n (c # ts))))"
  using sched_run_exists [OF assms] sched_run_rotates assms by blast

lemma scheduling_rotates_witness:
  "\<exists>s'. sched_run 6 demo_sched s' \<and> sched_rep s' 0x00200160 [0x00200190, 0x00200100, 0x00200130]"
proof -
  have "rotate 6 [0x00200100, 0x00200130, 0x00200160, 0x00200190 :: u32]
      = [0x00200160, 0x00200190, 0x00200100, 0x00200130]" by (simp add: numeral_eq_Suc)
  with scheduling_rotates [OF demo_sched_rep, of 6] show ?thesis by fastforce
qed

text \<open>C15: A waiting thread with \<open>k\<close> threads before it runs after exactly \<open>k + 1\<close> timer interrupts, and
  whatever the other threads do in the meantime, it then finds the registers, the flags, the page
  directory and the heap that its descriptor held: no thread starves, none disturbs another's state.\<close>

theorem waiting_thread_resumes:
  assumes "sched_rep s c (us @ t # ws)"
  shows "(\<exists>s'. sched_run (Suc (length us)) s s')
    \<and> (\<forall>s'. sched_run (Suc (length us)) s s' \<longrightarrow> sched_rep s' t (ws @ c # us)
        \<and> cpu_regs s' = saved_regs (the (threads s t)) \<and> cr3 s' = t_page_directory (the (threads s t))
        \<and> currentHeap s' = t_heap (the (threads s t)))"
  using sched_run_exists [OF assms] sched_run_resumes assms by blast

lemma waiting_thread_resumes_witness:
  "\<exists>s'. sched_run 2 demo_sched s' \<and> cpu_regs s' = [0xD0000300, 0, 2, 0, 0, 0x200]"
proof -
  have "threads demo_sched 0x00200160 = Some (demo_thread 2)" by (simp add: demo_sched_tasks demo_tasks_def)
  moreover have "sched_rep demo_sched 0x00200100 ([0x00200130] @ 0x00200160 # [0x00200190])"
    using demo_sched_rep by simp
  ultimately show ?thesis
    using waiting_thread_resumes [of demo_sched "0x00200100" "[0x00200130]" "0x00200160" "[0x00200190]"]
    by (auto simp: demo_thread_def saved_regs_def numeral_2_eq_2)
qed



end
