(* ===== verification/Keyboard.thy ===== *)
theory Keyboard
  imports Scheduler
begin

text \<open>
  \<^verbatim>\<open>code/Keyboard.cpp\<close> and the key codes of \<^verbatim>\<open>code/KeyEvent.cpp\<close>: the decoder of scan code set 2,
  the table of pressed keys, and the line buffer with its echo. The listener is an object of the
  client: the calls to its virtual methods are recorded in \<open>listener_calls\<close>. An index outside the
  line buffer is the error \<open>OutOfBounds\<close>. \<open>decode\<close> is the part of \<^verbatim>\<open>handleKeyboardEvent\<close> after the byte
  has been read.
\<close>

subsection \<open>Key codes\<close>

abbreviation CHAR_UNDEFINED :: int where "CHAR_UNDEFINED \<equiv> 0x00"
abbreviation VK_0 :: int where "VK_0 \<equiv> 0x30"
abbreviation VK_1 :: int where "VK_1 \<equiv> 0x31"
abbreviation VK_2 :: int where "VK_2 \<equiv> 0x32"
abbreviation VK_3 :: int where "VK_3 \<equiv> 0x33"
abbreviation VK_4 :: int where "VK_4 \<equiv> 0x34"
abbreviation VK_5 :: int where "VK_5 \<equiv> 0x35"
abbreviation VK_6 :: int where "VK_6 \<equiv> 0x36"
abbreviation VK_7 :: int where "VK_7 \<equiv> 0x37"
abbreviation VK_8 :: int where "VK_8 \<equiv> 0x38"
abbreviation VK_9 :: int where "VK_9 \<equiv> 0x39"
abbreviation VK_A :: int where "VK_A \<equiv> 0x41"
abbreviation VK_ALT :: int where "VK_ALT \<equiv> 0xB8"
abbreviation VK_B :: int where "VK_B \<equiv> 0x42"
abbreviation VK_BACK_QUOTE :: int where "VK_BACK_QUOTE \<equiv> 0xC0"
abbreviation VK_BACK_SLASH :: int where "VK_BACK_SLASH \<equiv> 0xDC"
abbreviation VK_BACK_SPACE :: int where "VK_BACK_SPACE \<equiv> 0x08"
abbreviation VK_C :: int where "VK_C \<equiv> 0x43"
abbreviation VK_CAPS_LOCK :: int where "VK_CAPS_LOCK \<equiv> 0x14"
abbreviation VK_CLOSE_BRACKET :: int where "VK_CLOSE_BRACKET \<equiv> 0xDD"
abbreviation VK_COMMA :: int where "VK_COMMA \<equiv> 0xBC"
abbreviation VK_CONTROL :: int where "VK_CONTROL \<equiv> 0x11"
abbreviation VK_D :: int where "VK_D \<equiv> 0x44"
abbreviation VK_E :: int where "VK_E \<equiv> 0x45"
abbreviation VK_ENTER :: int where "VK_ENTER \<equiv> 0x0D"
abbreviation VK_ESCAPE :: int where "VK_ESCAPE \<equiv> 0x1B"
abbreviation VK_F :: int where "VK_F \<equiv> 0x46"
abbreviation VK_F1 :: int where "VK_F1 \<equiv> 0x70"
abbreviation VK_F10 :: int where "VK_F10 \<equiv> 0x79"
abbreviation VK_F11 :: int where "VK_F11 \<equiv> 0x7A"
abbreviation VK_F12 :: int where "VK_F12 \<equiv> 0x7B"
abbreviation VK_F2 :: int where "VK_F2 \<equiv> 0x71"
abbreviation VK_F3 :: int where "VK_F3 \<equiv> 0x72"
abbreviation VK_F4 :: int where "VK_F4 \<equiv> 0x73"
abbreviation VK_F5 :: int where "VK_F5 \<equiv> 0x74"
abbreviation VK_F6 :: int where "VK_F6 \<equiv> 0x75"
abbreviation VK_F7 :: int where "VK_F7 \<equiv> 0x76"
abbreviation VK_F8 :: int where "VK_F8 \<equiv> 0x77"
abbreviation VK_F9 :: int where "VK_F9 \<equiv> 0x78"
abbreviation VK_G :: int where "VK_G \<equiv> 0x47"
abbreviation VK_H :: int where "VK_H \<equiv> 0x48"
abbreviation VK_I :: int where "VK_I \<equiv> 0x49"
abbreviation VK_J :: int where "VK_J \<equiv> 0x4A"
abbreviation VK_K :: int where "VK_K \<equiv> 0x4B"
abbreviation VK_L :: int where "VK_L \<equiv> 0x4C"
abbreviation VK_M :: int where "VK_M \<equiv> 0x4D"
abbreviation VK_MULTIPLY :: int where "VK_MULTIPLY \<equiv> 0x6A"
abbreviation VK_N :: int where "VK_N \<equiv> 0x4E"
abbreviation VK_NUMPAD0 :: int where "VK_NUMPAD0 \<equiv> 0x60"
abbreviation VK_NUMPAD1 :: int where "VK_NUMPAD1 \<equiv> 0x61"
abbreviation VK_NUMPAD2 :: int where "VK_NUMPAD2 \<equiv> 0x62"
abbreviation VK_NUMPAD3 :: int where "VK_NUMPAD3 \<equiv> 0x63"
abbreviation VK_NUMPAD4 :: int where "VK_NUMPAD4 \<equiv> 0x64"
abbreviation VK_NUMPAD5 :: int where "VK_NUMPAD5 \<equiv> 0x65"
abbreviation VK_NUMPAD6 :: int where "VK_NUMPAD6 \<equiv> 0x66"
abbreviation VK_NUMPAD7 :: int where "VK_NUMPAD7 \<equiv> 0x67"
abbreviation VK_NUMPAD8 :: int where "VK_NUMPAD8 \<equiv> 0x68"
abbreviation VK_NUMPAD9 :: int where "VK_NUMPAD9 \<equiv> 0x69"
abbreviation VK_NUM_LOCK :: int where "VK_NUM_LOCK \<equiv> 0x90"
abbreviation VK_O :: int where "VK_O \<equiv> 0x4F"
abbreviation VK_OPEN_BRACKET :: int where "VK_OPEN_BRACKET \<equiv> 0xDB"
abbreviation VK_P :: int where "VK_P \<equiv> 0x50"
abbreviation VK_PAUSE :: int where "VK_PAUSE \<equiv> 0x13"
abbreviation VK_PERIOD :: int where "VK_PERIOD \<equiv> 0xBE"
abbreviation VK_PLUS :: int where "VK_PLUS \<equiv> 0xBB"
abbreviation VK_PRINTSCREEN :: int where "VK_PRINTSCREEN \<equiv> 0x2C"
abbreviation VK_Q :: int where "VK_Q \<equiv> 0x51"
abbreviation VK_QUOTE :: int where "VK_QUOTE \<equiv> 0xDE"
abbreviation VK_R :: int where "VK_R \<equiv> 0x52"
abbreviation VK_S :: int where "VK_S \<equiv> 0x53"
abbreviation VK_SCROLL_LOCK :: int where "VK_SCROLL_LOCK \<equiv> 0x91"
abbreviation VK_SEMICOLON :: int where "VK_SEMICOLON \<equiv> 0xBA"
abbreviation VK_SHIFT :: int where "VK_SHIFT \<equiv> 0x10"
abbreviation VK_SLASH :: int where "VK_SLASH \<equiv> 0xBF"
abbreviation VK_SPACE :: int where "VK_SPACE \<equiv> 0x20"
abbreviation VK_SUBTRACT :: int where "VK_SUBTRACT \<equiv> 0x6D"
abbreviation VK_T :: int where "VK_T \<equiv> 0x54"
abbreviation VK_TAB :: int where "VK_TAB \<equiv> 0x09"
abbreviation VK_U :: int where "VK_U \<equiv> 0x55"
abbreviation VK_V :: int where "VK_V \<equiv> 0x56"
abbreviation VK_W :: int where "VK_W \<equiv> 0x57"
abbreviation VK_X :: int where "VK_X \<equiv> 0x58"
abbreviation VK_Y :: int where "VK_Y \<equiv> 0x59"
abbreviation VK_Z :: int where "VK_Z \<equiv> 0x5A"

definition KEYMAP :: "int list" where
  "KEYMAP = [
    CHAR_UNDEFINED, VK_F9, CHAR_UNDEFINED, VK_F5, VK_F3, VK_F1, VK_F2, VK_F12, CHAR_UNDEFINED,
    VK_F10, VK_F8, VK_F6, VK_F4, VK_TAB, VK_BACK_QUOTE, CHAR_UNDEFINED, CHAR_UNDEFINED, VK_ALT,
    VK_SHIFT, CHAR_UNDEFINED, VK_CONTROL, VK_Q, VK_1, CHAR_UNDEFINED, CHAR_UNDEFINED,
    CHAR_UNDEFINED, VK_Z, VK_S, VK_A, VK_W, VK_2, CHAR_UNDEFINED, CHAR_UNDEFINED, VK_C, VK_X, VK_D,
    VK_E, VK_4, VK_3, CHAR_UNDEFINED, CHAR_UNDEFINED, VK_SPACE, VK_V, VK_F, VK_T, VK_R, VK_5,
    CHAR_UNDEFINED, CHAR_UNDEFINED, VK_N, VK_B, VK_H, VK_G, VK_Y, VK_6, CHAR_UNDEFINED,
    CHAR_UNDEFINED, CHAR_UNDEFINED, VK_M, VK_J, VK_U, VK_7, VK_8, CHAR_UNDEFINED, CHAR_UNDEFINED,
    VK_COMMA, VK_K, VK_I, VK_O, VK_0, VK_9, CHAR_UNDEFINED, CHAR_UNDEFINED, VK_PERIOD, VK_SLASH,
    VK_L, VK_SEMICOLON, VK_P, VK_SUBTRACT, CHAR_UNDEFINED, CHAR_UNDEFINED, CHAR_UNDEFINED,
    VK_QUOTE, CHAR_UNDEFINED, VK_OPEN_BRACKET, VK_PLUS, CHAR_UNDEFINED, CHAR_UNDEFINED,
    VK_CAPS_LOCK, VK_SHIFT, VK_ENTER, VK_CLOSE_BRACKET, CHAR_UNDEFINED, VK_BACK_SLASH,
    CHAR_UNDEFINED, CHAR_UNDEFINED, CHAR_UNDEFINED, CHAR_UNDEFINED, CHAR_UNDEFINED, CHAR_UNDEFINED,
    CHAR_UNDEFINED, CHAR_UNDEFINED, VK_BACK_SPACE, CHAR_UNDEFINED, CHAR_UNDEFINED, VK_NUMPAD1,
    CHAR_UNDEFINED, VK_NUMPAD4, VK_NUMPAD7, CHAR_UNDEFINED, CHAR_UNDEFINED, CHAR_UNDEFINED,
    VK_NUMPAD0, VK_PERIOD, VK_NUMPAD2, VK_NUMPAD5, VK_NUMPAD6, VK_NUMPAD8, VK_ESCAPE, VK_NUM_LOCK,
    VK_F11, VK_PLUS, VK_NUMPAD3, VK_SUBTRACT, VK_MULTIPLY, VK_NUMPAD9, VK_SCROLL_LOCK,
    CHAR_UNDEFINED, CHAR_UNDEFINED, CHAR_UNDEFINED, CHAR_UNDEFINED, VK_F7]"

subsection \<open>State\<close>

datatype listener_call =
    KeyPressed int
  | KeyReleased int
  | LineEntered "u8 list"

record kbd = sched +
  callback :: bool
  listener_calls :: "listener_call list"
  lineBuffer :: "u8 list"
  lbLen :: nat
  key_press_table :: "int \<Rightarrow> bool"
  scancode_table :: "u8 \<Rightarrow> int"
  kb_length :: int
  kb_pressed :: bool
  kb_handled :: bool
  timesToIgnore :: int
  kb_key :: int

definition printck :: "u8 \<Rightarrow> 'a kcon_scheme \<Rightarrow> 'a kcon_scheme" where
  "printck c s = s\<lparr>con := kprint_char (char_of (unat c)) (con s)\<rparr>"

definition isPressed :: "int \<Rightarrow> 'a kbd_scheme \<Rightarrow> bool" where
  "isPressed k s = key_press_table s k"

definition setupKeyMap :: "'a kbd_scheme \<Rightarrow> 'a kbd_scheme" where
  "setupKeyMap s = s\<lparr>scancode_table :=
     (\<lambda>c. if unat c < 132 then KEYMAP ! unat c else scancode_table s c)\<rparr>"

definition setListener :: "bool \<Rightarrow> 'a kbd_scheme \<Rightarrow> 'a kbd_scheme" where
  "setListener clb s = s\<lparr>callback := clb\<rparr>"

definition keyboard_setup :: "'a kbd_scheme \<Rightarrow> 'a kbd_scheme" where
  "keyboard_setup s =
     (let s = setupKeyMap s;
          s = s\<lparr>callback := False\<rparr>;
          s = outb 0x64 0xAD s;
          (_, s) = inb 0x60 s;
          s = outb 0x64 0x20 s;
          (control, s) = inb 0x60 s;
          control = control AND 0xBF;
          s = outb 0x64 0x60 s;
          s = outb 0x60 control s;
          s = outb 0x64 0xAE s
      in printlnk ''Keyboard setup'' s)"

subsection \<open>Pressing and releasing keys\<close>

definition set_line :: "int \<Rightarrow> u8 \<Rightarrow> 'a kbd_scheme \<Rightarrow> kerror + 'a kbd_scheme" where
  "set_line i c s =
     (if 0 \<le> i \<and> i < 78 then Inr (s\<lparr>lineBuffer := (lineBuffer s)[nat i := c]\<rparr>) else Inl (OutOfBounds i))"

text \<open>\<^verbatim>\<open>kprint(c); lineBuffer[lbLen++] = c\<close>\<close>

definition echo :: "int \<Rightarrow> 'a kbd_scheme \<Rightarrow> kerror + 'a kbd_scheme" where
  "echo c s =
     (let s = printck (word_of_int c) s
      in bindR (set_line (int (lbLen s)) (word_of_int c) s) (\<lambda>s. Inr (s\<lparr>lbLen := lbLen s + 1\<rparr>)))"

definition type_key :: "int \<Rightarrow> 'a kbd_scheme \<Rightarrow> kerror + 'a kbd_scheme" where
  "type_key k s =
     (if k > 64 \<and> k < 94 \<and> \<not> isPressed VK_SHIFT s then echo (k + 32) s
      else if k > 48 \<and> k < 58 \<and> isPressed VK_SHIFT s then echo (k - 16) s
      else if k \<noteq> VK_SHIFT \<and> k \<noteq> VK_ALT \<and> \<not> isPressed (if k \<noteq> VK_CONTROL then 1 else 0) s
      then echo k s
      else Inr s)"

definition notify :: "listener_call \<Rightarrow> 'a kbd_scheme \<Rightarrow> 'a kbd_scheme" where
  "notify c s = (if callback s then s\<lparr>listener_calls := listener_calls s @ [c]\<rparr> else s)"

definition end_line :: "int \<Rightarrow> 'a kbd_scheme \<Rightarrow> kerror + 'a kbd_scheme" where
  "end_line k s =
     bindR (if callback s
            then bindR (if k = VK_ENTER then set_line (int (lbLen s) - 1) 0 s else Inr s)
                   (\<lambda>s. Inr (notify (LineEntered (lineBuffer s)) s))
            else Inr s) (\<lambda>s.
     Inr (s\<lparr>lineBuffer := replicate 78 0, lbLen := 0\<rparr>))"

definition setPressed :: "int \<Rightarrow> bool \<Rightarrow> 'a kbd_scheme \<Rightarrow> kerror + 'a kbd_scheme" where
  "setPressed k press s =
     (let s = s\<lparr>key_press_table := (key_press_table s)(k := press)\<rparr>
      in bindR (if press then type_key k s else Inr s) (\<lambda>s.
           let s = notify (if press then KeyPressed k else KeyReleased k) s
           in if (k = VK_ENTER \<or> lbLen s = 78) \<and> press then end_line k s else Inr s))"

subsection \<open>Scan codes\<close>

text \<open>One byte: which branch of \<^verbatim>\<open>handleKeyboardEvent\<close> it takes.\<close>

definition scan_byte :: "u8 \<Rightarrow> 'a kbd_scheme \<Rightarrow> kerror + 'a kbd_scheme" where
  "scan_byte scancode s =
     bindR (if timesToIgnore s \<noteq> 0 then Inr (s\<lparr>timesToIgnore := timesToIgnore s - 1\<rparr>)
            else if kb_length s = 0 \<and> scancode = 0xE1
            then bindR (setPressed VK_PAUSE True (s\<lparr>timesToIgnore := 7, kb_key := VK_PAUSE\<rparr>))
                   (\<lambda>s. Inr (s\<lparr>kb_pressed := False, kb_handled := True\<rparr>))
            else if kb_length s = 1 \<and> scancode = 0x12 \<and> kb_pressed s
            then Inr (s\<lparr>timesToIgnore := 2, kb_key := VK_PRINTSCREEN, kb_handled := True\<rparr>)
            else if kb_length s = 2 \<and> scancode = 0x7C \<and> \<not> kb_pressed s
            then Inr (s\<lparr>timesToIgnore := 3, kb_key := VK_PRINTSCREEN, kb_handled := True\<rparr>)
            else if scancode = 0xF0 then Inr (s\<lparr>kb_pressed := False\<rparr>)
            else if scancode = 0xE0 then Inr s
            else if scancode_table s scancode \<noteq> CHAR_UNDEFINED
            then Inr (s\<lparr>kb_key := scancode_table s scancode, kb_handled := True\<rparr>)
            else Inr s)
       (\<lambda>s. Inr (s\<lparr>kb_length := kb_length s + 1\<rparr>))"

definition finish_key :: "'a kbd_scheme \<Rightarrow> kerror + 'a kbd_scheme" where
  "finish_key s =
     (if kb_handled s
      then bindR (setPressed (kb_key s) (kb_pressed s) s)
             (\<lambda>s. Inr (s\<lparr>kb_length := 0, kb_pressed := True, kb_handled := False\<rparr>))
      else Inr s)"

definition decode :: "u8 \<Rightarrow> 'a kbd_scheme \<Rightarrow> kerror + 'a kbd_scheme" where
  "decode scancode s =
     (if scancode = 0xFA \<or> scancode = 0xFE then Inr s
      else bindR (scan_byte scancode s) finish_key)"

definition handleKeyboardEvent :: "'a kbd_scheme \<Rightarrow> kerror + 'a kbd_scheme" where
  "handleKeyboardEvent s =
     (let (status, s) = inb 0x64 s
      in if status AND 0x01 \<noteq> 0
         then let (scancode, s) = inb 0x60 s in decode scancode s
         else finish_key s)"

text \<open>The two blocking routines poll the controller; they get fuel, as the controller decides.\<close>

fun wait_status :: "nat \<Rightarrow> (u8 \<Rightarrow> bool) \<Rightarrow> 'a machine_scheme \<Rightarrow> kerror + 'a machine_scheme" where
  "wait_status 0 ready s = Inl Hang"
| "wait_status (Suc n) ready s =
     (let (status, s) = inb 0x64 s in if ready status then Inr s else wait_status n ready (io_wait s))"

definition readByte :: "nat \<Rightarrow> 'a machine_scheme \<Rightarrow> kerror + (u8 \<times> 'a machine_scheme)" where
  "readByte n s = bindR (wait_status n (\<lambda>b. b AND 0x01 \<noteq> 0) s) (\<lambda>s. Inr (inb 0x60 s))"

definition writeByte :: "nat \<Rightarrow> u8 \<Rightarrow> 'a machine_scheme \<Rightarrow> kerror + 'a machine_scheme" where
  "writeByte n b s = bindR (wait_status n (\<lambda>c. c AND 0x02 = 0) s) (\<lambda>s. Inr (outb 0x60 b s))"

end
