(* ===== verification/Pic.thy ===== *)
theory Pic
  imports Machine
begin

text \<open>
  \<^verbatim>\<open>code/PIC.cpp\<close>: the two interrupt controllers, as a sequence of port accesses.
\<close>

definition PIC1_COMMAND :: u16 where "PIC1_COMMAND = 0x20"
definition PIC1_DATA :: u16 where "PIC1_DATA = 0x21"
definition PIC2_COMMAND :: u16 where "PIC2_COMMAND = 0xA0"
definition PIC2_DATA :: u16 where "PIC2_DATA = 0xA1"
definition ICW1_ICW4 :: u8 where "ICW1_ICW4 = 0x01"
definition ICW1_INIT :: u8 where "ICW1_INIT = 0x10"
definition ICW4_8086 :: u8 where "ICW4_8086 = 0x01"
definition PIC_EOI :: u8 where "PIC_EOI = 0x20"

definition sendEOI :: "u8 \<Rightarrow> 'a machine_scheme \<Rightarrow> 'a machine_scheme" where
  "sendEOI irq s =
     (let s = (if irq \<ge> 8 then outb PIC2_COMMAND PIC_EOI s else s)
      in outb PIC1_COMMAND PIC_EOI s)"

definition remap :: "int \<Rightarrow> int \<Rightarrow> 'a machine_scheme \<Rightarrow> 'a machine_scheme" where
  "remap offset1 offset2 s =
     (let (a1, s) = inb PIC1_DATA s;
          (a2, s) = inb PIC2_DATA s;
          s = outb PIC1_COMMAND (ICW1_INIT + ICW1_ICW4) s; s = io_wait s;
          s = outb PIC2_COMMAND (ICW1_INIT + ICW1_ICW4) s; s = io_wait s;
          s = outb PIC1_DATA (word_of_int offset1) s; s = io_wait s;
          s = outb PIC2_DATA (word_of_int offset2) s; s = io_wait s;
          s = outb PIC1_DATA 4 s; s = io_wait s;
          s = outb PIC2_DATA 2 s; s = io_wait s;
          s = outb PIC1_DATA ICW4_8086 s; s = io_wait s;
          s = outb PIC2_DATA ICW4_8086 s; s = io_wait s;
          s = outb PIC1_DATA a1 s; s = io_wait s;
          s = outb PIC2_DATA a2 s; s = io_wait s;
          s = outb 0x21 0xFC s;
          s = outb 0xA1 0xFF s
      in io_wait s)"

subsection \<open>A model of the controller\<close>

text \<open>
  What a controller (8259A) at command port \<open>c\<close> and data port \<open>d\<close> makes of the bytes written to it:
  after the first initialisation word, the next three data bytes are the vector offset, the
  cascade word and the mode; any other data byte is the interrupt mask.
\<close>

record controller =
  awaiting :: nat
  vector_offset :: u8
  cascade_word :: u8
  mode_word :: u8
  irq_mask :: u8

definition control_byte :: "u8 \<Rightarrow> controller \<Rightarrow> controller" where
  "control_byte b k = (if b AND 0x10 \<noteq> 0 then k\<lparr>awaiting := 3, irq_mask := 0\<rparr> else k)"

definition data_byte :: "u8 \<Rightarrow> controller \<Rightarrow> controller" where
  "data_byte b k =
     (if awaiting k = 3 then k\<lparr>awaiting := 2, vector_offset := b\<rparr>
      else if awaiting k = 2 then k\<lparr>awaiting := 1, cascade_word := b\<rparr>
      else if awaiting k = 1 then k\<lparr>awaiting := 0, mode_word := b\<rparr>
      else k\<lparr>irq_mask := b\<rparr>)"

fun run_controller :: "u16 \<Rightarrow> u16 \<Rightarrow> port_event list \<Rightarrow> controller \<Rightarrow> controller" where
  "run_controller c d [] k = k"
| "run_controller c d (Out8 p b # es) k =
     run_controller c d es (if p = c then control_byte b k else if p = d then data_byte b k else k)"
| "run_controller c d (_ # es) k = run_controller c d es k"

text \<open>After remap both controllers are initialised with the vector offsets asked for (modulo
  256), wired as master with a slave on line 2 and as that slave, in 8086 mode; the masks read at
  the start are not the ones in force: only the timer and the keyboard lines are open.\<close>

theorem remap_programs_controllers:
  "\<exists>es. ptrace (remap o1 o2 s) = ptrace s @ es
    \<and> run_controller 0x20 0x21 es k = \<lparr>awaiting = 0, vector_offset = word_of_int o1,
        cascade_word = 4, mode_word = 1, irq_mask = 0xFC\<rparr>
    \<and> run_controller 0xA0 0xA1 es k = \<lparr>awaiting = 0, vector_offset = word_of_int o2,
        cascade_word = 2, mode_word = 1, irq_mask = 0xFF\<rparr>"
  by (simp add: remap_def port_defs Let_def PIC1_COMMAND_def PIC1_DATA_def PIC2_COMMAND_def
      PIC2_DATA_def ICW1_ICW4_def ICW1_INIT_def ICW4_8086_def control_byte_def data_byte_def)

text \<open>sendEOI always acknowledges the master controller, and before it the slave exactly for
  the lines from 8 on.\<close>

theorem sendEOI_acknowledges:
  "ptrace (sendEOI irq s) = ptrace s
     @ (if 8 \<le> unat irq then [Out8 0xA0 0x20, Out8 0x20 0x20] else [Out8 0x20 0x20])"
  by (simp add: sendEOI_def port_defs Let_def PIC1_COMMAND_def PIC2_COMMAND_def PIC_EOI_def
      word_le_nat_alt)

end
