(* ===== verification/Idt.thy ===== *)
theory Idt
  imports Keyboard Pic
begin

text \<open>
  \<^verbatim>\<open>code/IDT.cpp\<close>: the interrupt descriptor table, the table of handlers, the timer, and the
  common entry of interrupts and exceptions. \<^verbatim>\<open>a_Handlers\<close> holds function pointers; the three the
  code ever stores are the constructors of \<open>handler\<close>. The addresses of the assembly stubs
  \<^verbatim>\<open>isr0\<close>..\<^verbatim>\<open>isr19\<close> and \<^verbatim>\<open>irq0\<close>..\<^verbatim>\<open>irq15\<close> and of the table are the linker's, the code segment register is
  the loader's, and \<open>uninit16\<close> is what an uninitialised local variable holds.
\<close>

definition INT_0 :: u16 where "INT_0 = 0x8E00"
definition INT_3 :: u16 where "INT_3 = 0xEE00"

record x86_interrupt =
  low_offset :: u16
  selector :: u16
  settings :: u16
  high_offset :: u16

datatype handler =
    PageFaultHandler
  | TimerHandler
  | KeyboardHandler

record idt = kbd +
  a_IDT :: "nat \<Rightarrow> x86_interrupt"
  a_Handlers :: "nat \<Rightarrow> handler option"
  IDTR_limit :: u16
  IDTR_base :: u32
  cpu_idt :: "u16 \<times> u32"
  cpu_cs :: u16
  cpu_cr2 :: u32
  addr_a_IDT :: u32
  addr_isr :: "nat \<Rightarrow> u32"
  addr_irq :: "nat \<Rightarrow> u32"
  uninit16 :: u16

definition sizeof_x86_interrupt :: u16 where "sizeof_x86_interrupt = 8"

definition idt_load :: "'a idt_scheme \<Rightarrow> 'a idt_scheme" where
  "idt_load s =
     (let s = s\<lparr>IDTR_limit := 256 * (sizeof_x86_interrupt - 1)\<rparr>;
          s = s\<lparr>IDTR_base := addr_a_IDT s\<rparr>
      in s\<lparr>cpu_idt := (IDTR_limit s, IDTR_base s)\<rparr>)"

definition setHandler :: "nat \<Rightarrow> u32 \<Rightarrow> int \<Rightarrow> 'a idt_scheme \<Rightarrow> 'a idt_scheme" where
  "setHandler intID handler ring s =
     (let sel = cpu_cs s;
          sett = (if ring = 0 then INT_0 else if ring = 1 \<or> ring = 2 \<or> ring = 3 then INT_3
                  else uninit16 s)
      in s\<lparr>a_IDT := (a_IDT s)(intID := \<lparr>low_offset = ucast (handler AND 0xFFFF), selector = sel,
             settings = sett, high_offset = ucast (drop_bit 16 handler)\<rparr>)\<rparr>)"

definition init_timer :: "u32 \<Rightarrow> 'a machine_scheme \<Rightarrow> 'a machine_scheme" where
  "init_timer frequency s =
     (let divisor = 1193180 div frequency;
          s = outb 0x43 0x36 s;
          l = ucast (divisor AND 0xFF);
          h = ucast (drop_bit 8 divisor AND 0xFF);
          s = outb 0x40 l s
      in outb 0x40 h s)"

definition set_a_Handler :: "nat \<Rightarrow> handler \<Rightarrow> 'a idt_scheme \<Rightarrow> 'a idt_scheme" where
  "set_a_Handler i h s = s\<lparr>a_Handlers := (a_Handlers s)(i := Some h)\<rparr>"

definition setupHandlers :: "'a idt_scheme \<Rightarrow> 'a idt_scheme" where
  "setupHandlers s =
     (let s = for_upt 0 256 (\<lambda>i s. s\<lparr>a_Handlers := (a_Handlers s)(i := None)\<rparr>) s;
          s = for_upt 0 15 (\<lambda>i s. setHandler i (addr_isr s i) 0 s) s;
          s = set_a_Handler 14 PageFaultHandler s;
          s = for_upt 15 20 (\<lambda>i s. setHandler i (addr_isr s i) 0 s) s;
          s = for_upt 20 32 (\<lambda>i s. setHandler i 0 0 s) s;
          s = setHandler 32 (addr_irq s 0) 0 s;
          s = set_a_Handler 32 TimerHandler s;
          s = setHandler 33 (addr_irq s 1) 0 s;
          s = set_a_Handler 33 KeyboardHandler s;
          s = for_upt 34 48 (\<lambda>i s. setHandler i (addr_irq s (i - 32)) 0 s) s
      in init_timer 500 s)"

definition run_handler :: "handler \<Rightarrow> 'a idt_scheme \<Rightarrow> kerror + 'a idt_scheme" where
  "run_handler h s =
     (case h of
        PageFaultHandler \<Rightarrow> page_fault (cpu_cr2 s) s
      | TimerHandler \<Rightarrow> handleTimerEvent s
      | KeyboardHandler \<Rightarrow> handleKeyboardEvent s)"

definition irq_handler :: "u32 \<Rightarrow> 'a idt_scheme \<Rightarrow> kerror + 'a idt_scheme" where
  "irq_handler int_no s =
     (let s = (if int_no \<ge> 40 then outb 0xA0 0x20 s else s);
          s = outb 0x20 0x20 s
      in case a_Handlers s (unat int_no) of None \<Rightarrow> Inr s | Some h \<Rightarrow> run_handler h s)"

definition isr_handler :: "u32 \<Rightarrow> 'a idt_scheme \<Rightarrow> kerror + 'a idt_scheme" where
  "isr_handler int_no s =
     (case a_Handlers s (unat int_no) of None \<Rightarrow> Inr s | Some h \<Rightarrow> run_handler h s)"

subsection \<open>What the processor reads\<close>

definition gate_offset :: "x86_interrupt \<Rightarrow> u32" where
  "gate_offset g = ucast (low_offset g) OR push_bit 16 (ucast (high_offset g))"

definition gate_present :: "x86_interrupt \<Rightarrow> bool" where "gate_present g = bit (settings g) 15"

text \<open>A vector is usable if its eight bytes lie within the limit (the offset of the last byte).\<close>

definition vector_in_limit :: "nat \<Rightarrow> u16 \<times> u32 \<Rightarrow> bool" where
  "vector_in_limit v r \<longleftrightarrow> 8 * v + 7 \<le> unat (fst r)"

lemma split_offset: "ucast (ucast (x AND 0xFFFF) :: u16) OR push_bit 16 (ucast (ucast (drop_bit 16 x) :: u16))
    = (x :: u32)"
proof -
  have m: "(0xFFFF :: u32) = mask 16" by (simp add: mask_eq_exp_minus_1)
  show ?thesis
  proof (rule bit_eqI)
    fix n :: nat
    consider "n < 16" | "16 \<le> n" "n < 32" | "32 \<le> n" by linarith
    then show "bit (ucast (ucast (x AND 0xFFFF) :: u16)
        OR push_bit 16 (ucast (ucast (drop_bit 16 x) :: u16)) :: u32) n = bit x n"
      unfolding m by cases (auto simp: bit_simps dest: bit_imp_le_length)
  qed
qed

lemma setHandler_gate:
  "gate_offset (a_IDT (setHandler i h r s) i) = h"
  "r = 0 \<Longrightarrow> settings (a_IDT (setHandler i h r s) i) = INT_0"
  "selector (a_IDT (setHandler i h r s) i) = cpu_cs s"
  "j \<noteq> i \<Longrightarrow> a_IDT (setHandler i h r s) j = a_IDT s j"
  using split_offset [of h] by (simp_all add: setHandler_def Let_def gate_offset_def)

lemma setHandler_frame [simp]:
  "a_Handlers (setHandler i h r s) = a_Handlers s" "addr_isr (setHandler i h r s) = addr_isr s"
  "addr_irq (setHandler i h r s) = addr_irq s" "cpu_cs (setHandler i h r s) = cpu_cs s"
  "ptrace (setHandler i h r s) = ptrace s"
  by (simp_all add: setHandler_def Let_def)

lemma set_a_Handler_frame [simp]:
  "a_IDT (set_a_Handler i h s) = a_IDT s" "addr_isr (set_a_Handler i h s) = addr_isr s"
  "addr_irq (set_a_Handler i h s) = addr_irq s" "cpu_cs (set_a_Handler i h s) = cpu_cs s"
  "a_Handlers (set_a_Handler i h s) = (a_Handlers s)(i := Some h)"
  "ptrace (set_a_Handler i h s) = ptrace s"
  by (simp_all add: set_a_Handler_def)

subsection \<open>The loops of setupHandlers\<close>

lemma fill_handlers:
  fixes s :: "'a idt_scheme"
  assumes "a \<le> b" and "\<And>i s :: 'a idt_scheme. f i s = setHandler i (g (addr_isr s) (addr_irq s) i) 0 s"
  defines "t \<equiv> for_upt a b f s"
  shows "a_Handlers t = a_Handlers s" "addr_isr t = addr_isr s" "addr_irq t = addr_irq s"
    "cpu_cs t = cpu_cs s" "ptrace t = ptrace s"
    "\<And>j. a \<le> j \<Longrightarrow> j < b \<Longrightarrow> gate_offset (a_IDT t j) = g (addr_isr s) (addr_irq s) j
      \<and> settings (a_IDT t j) = INT_0 \<and> selector (a_IDT t j) = cpu_cs s"
    "\<And>j. \<not> (a \<le> j \<and> j < b) \<Longrightarrow> a_IDT t j = a_IDT s j"
proof -
  let ?P = "\<lambda>n (t :: 'a idt_scheme). a_Handlers t = a_Handlers s \<and> addr_isr t = addr_isr s \<and> addr_irq t = addr_irq s
    \<and> cpu_cs t = cpu_cs s \<and> ptrace t = ptrace s
    \<and> (\<forall>j. if a \<le> j \<and> j < n then gate_offset (a_IDT t j) = g (addr_isr s) (addr_irq s) j
          \<and> settings (a_IDT t j) = INT_0 \<and> selector (a_IDT t j) = cpu_cs s
        else a_IDT t j = a_IDT s j)"
  have "?P b (for_upt a b f s)"
  proof (rule for_upt_rule [where P = ?P, OF assms(1)])
    fix i t assume i: "a \<le> i" "i < b" "?P i t"
    have ge: "gate_offset (a_IDT (f i t) j) = g (addr_isr s) (addr_irq s) j
        \<and> settings (a_IDT (f i t) j) = INT_0 \<and> selector (a_IDT (f i t) j) = cpu_cs s"
      if "j = i" for j using i that by (simp add: assms(2) setHandler_gate)
    have "a_IDT (f i t) j = a_IDT t j" if "j \<noteq> i" for j
      using that by (simp add: assms(2) setHandler_gate)
    with ge i show "?P (Suc i) (f i t)"
      by (auto simp: assms(2) less_Suc_eq split: if_splits)
  qed auto
  then show "a_Handlers t = a_Handlers s" "addr_isr t = addr_isr s" "addr_irq t = addr_irq s"
    "cpu_cs t = cpu_cs s" "ptrace t = ptrace s"
    "\<And>j. a \<le> j \<Longrightarrow> j < b \<Longrightarrow> gate_offset (a_IDT t j) = g (addr_isr s) (addr_irq s) j
      \<and> settings (a_IDT t j) = INT_0 \<and> selector (a_IDT t j) = cpu_cs s"
    "\<And>j. \<not> (a \<le> j \<and> j < b) \<Longrightarrow> a_IDT t j = a_IDT s j"
    unfolding t_def by (simp_all split: if_splits)
qed

text \<open>The gate of vector \<open>j\<close> leads to the address \<open>h\<close>, in the running code segment, present, ring 0.\<close>

definition gate_to :: "'a idt_scheme \<Rightarrow> nat \<Rightarrow> u32 \<Rightarrow> u16 \<Rightarrow> bool" where
  "gate_to s j h cs \<longleftrightarrow> gate_offset (a_IDT s j) = h \<and> settings (a_IDT s j) = INT_0
     \<and> selector (a_IDT s j) = cs"

lemma gate_to_setHandler:
  "gate_to (setHandler i h 0 s) j h' cs
    = (if j = i then h' = h \<and> cs = cpu_cs s else gate_to s j h' cs)"
  by (auto simp: gate_to_def setHandler_gate)

lemma gate_to_set_a_Handler [simp]: "gate_to (set_a_Handler i h s) = gate_to s"
  by (simp add: gate_to_def fun_eq_iff)

definition vector_address :: "'a idt_scheme \<Rightarrow> nat \<Rightarrow> u32" where
  "vector_address s v = (if v < 20 then addr_isr s v else if v < 32 then 0 else addr_irq s (v - 32))"

lemma clear_handlers:
  "for_upt 0 n (\<lambda>i s. s\<lparr>a_Handlers := (a_Handlers s)(i := None)\<rparr>) s
    = s\<lparr>a_Handlers := (\<lambda>i. if i < n then None else a_Handlers s i)\<rparr>"
  by (induction n) (auto simp: less_Suc_eq fun_eq_iff intro!: idt.equality)

lemma init_timer_frame [simp]:
  "a_IDT (init_timer f s) = a_IDT s" "a_Handlers (init_timer f s) = a_Handlers s"
  by (simp_all add: init_timer_def port_defs Let_def)

text \<open>setupHandlers gives the 48 vectors of exceptions and interrupt lines present ring-0 gates to
  their stubs (the reserved vectors 20 to 31 lead to address 0), leaves the other gates alone, and
  registers exactly the page fault, timer and keyboard handlers.\<close>

theorem setupHandlers_tables:
  "(\<forall>v. if v < 48 then gate_to (setupHandlers s) v (vector_address s v) (cpu_cs s)
        else a_IDT (setupHandlers s) v = a_IDT s v)
    \<and> (\<forall>v. a_Handlers (setupHandlers s) v
        = (if v = 14 then Some PageFaultHandler else if v = 32 then Some TimerHandler
           else if v = 33 then Some KeyboardHandler else if v < 256 then None else a_Handlers s v))"
proof -
  define s1 where "s1 = for_upt 0 256 (\<lambda>i s. s\<lparr>a_Handlers := (a_Handlers s)(i := None)\<rparr>) s"
  define s2 where "s2 = for_upt 0 15 (\<lambda>i s. setHandler i (addr_isr s i) 0 s) s1"
  define s3 where "s3 = set_a_Handler 14 PageFaultHandler s2"
  define s4 where "s4 = for_upt 15 20 (\<lambda>i s. setHandler i (addr_isr s i) 0 s) s3"
  define s5 where "s5 = for_upt 20 32 (\<lambda>i s. setHandler i 0 0 s) s4"
  define s6 where "s6 = set_a_Handler 32 TimerHandler (setHandler 32 (addr_irq s5 0) 0 s5)"
  define s7 where "s7 = set_a_Handler 33 KeyboardHandler (setHandler 33 (addr_irq s6 1) 0 s6)"
  define s8 where "s8 = for_upt 34 48 (\<lambda>i s. setHandler i (addr_irq s (i - 32)) 0 s) s7"
  have result: "setupHandlers s = init_timer 500 s8"
    by (simp only: setupHandlers_def Let_def s1_def s2_def s3_def s4_def s5_def s6_def s7_def s8_def)
  have s1: "a_IDT s1 = a_IDT s" "addr_isr s1 = addr_isr s" "addr_irq s1 = addr_irq s" "cpu_cs s1 = cpu_cs s"
    "a_Handlers s1 = (\<lambda>v. if v < 256 then None else a_Handlers s v)"
    by (simp_all only: s1_def clear_handlers) simp_all
  note l2 = fill_handlers [where s = s1 and a = 0 and b = 15 and g = "\<lambda>i j k. i k" and f = "\<lambda>i s. setHandler i (addr_isr s i) 0 s",
      OF _ refl, folded s2_def, simplified]
  note l4 = fill_handlers [where s = s3 and a = 15 and b = 20 and g = "\<lambda>i j k. i k" and f = "\<lambda>i s. setHandler i (addr_isr s i) 0 s",
      OF _ refl, folded s4_def, simplified]
  note l5 = fill_handlers [where s = s4 and a = 20 and b = 32 and g = "\<lambda>i j k. 0" and f = "\<lambda>i s. setHandler i 0 0 s",
      OF _ refl, folded s5_def, simplified]
  note l8 = fill_handlers [where s = s7 and a = 34 and b = 48 and g = "\<lambda>i j k. j (k - 32)" and f = "\<lambda>i s. setHandler i (addr_irq s (i - 32)) 0 s",
      OF _ refl, folded s8_def, simplified]
  have isr: "addr_isr s2 = addr_isr s" "addr_isr s3 = addr_isr s"
    using s1 l2 by (simp_all add: s3_def)
  have irq: "addr_irq s5 = addr_irq s" "addr_irq s6 = addr_irq s" "addr_irq s7 = addr_irq s"
    using s1 l2 l4 l5 by (simp_all add: s3_def s6_def s7_def)
  have cs: "cpu_cs s3 = cpu_cs s" "cpu_cs s4 = cpu_cs s" "cpu_cs s5 = cpu_cs s" "cpu_cs s6 = cpu_cs s"
    "cpu_cs s7 = cpu_cs s"
    using s1 l2 l4 l5 by (simp_all add: s3_def s6_def s7_def)
  have hd: "a_Handlers s8 = (a_Handlers s1)(14 \<mapsto> PageFaultHandler, 32 \<mapsto> TimerHandler,
      33 \<mapsto> KeyboardHandler)"
    using l2 l4 l5 l8 by (simp add: s3_def s6_def s7_def)
  have g6: "gate_to s6 v h c = (if v = 32 then h = addr_irq s 0 \<and> c = cpu_cs s else gate_to s5 v h c)" for v h c
    using irq cs by (simp add: s6_def gate_to_setHandler)
  have g7: "gate_to s7 v h c = (if v = 33 then h = addr_irq s 1 \<and> c = cpu_cs s else gate_to s6 v h c)" for v h c
    using irq cs by (simp add: s7_def gate_to_setHandler)
  have same4: "gate_to s4 v = gate_to s3 v" if "\<not> (15 \<le> v \<and> v < 20)" for v
    using l4(7) [of v] that by (auto simp: gate_to_def fun_eq_iff)
  have same5: "gate_to s5 v = gate_to s4 v" if "\<not> (20 \<le> v \<and> v < 32)" for v
    using l5(7) [of v] that by (auto simp: gate_to_def fun_eq_iff)
  have same8: "gate_to s8 v = gate_to s7 v" if "\<not> (34 \<le> v \<and> v < 48)" for v
    using l8(7) [of v] that by (auto simp: gate_to_def fun_eq_iff)
  have gates: "gate_to s8 v (vector_address s v) (cpu_cs s)" if "v < 48" for v
  proof -
    consider "v < 15" | "15 \<le> v" "v < 20" | "20 \<le> v" "v < 32" | "v = 32" | "v = 33" | "34 \<le> v"
      using that by linarith
    then show ?thesis
    proof cases
      case 1
      then have "gate_to s2 v (addr_isr s v) (cpu_cs s)" using l2(6) [of v] s1 by (simp add: gate_to_def)
      with 1 show ?thesis by (simp add: same8 g7 g6 same5 same4 s3_def vector_address_def)
    next
      case 2
      then have "gate_to s4 v (addr_isr s v) (cpu_cs s)" using l4(6) [of v] isr cs by (simp add: gate_to_def)
      with 2 show ?thesis by (simp add: same8 g7 g6 same5 vector_address_def)
    next
      case 3
      then have "gate_to s5 v 0 (cpu_cs s)" using l5(6) [of v] cs by (simp add: gate_to_def)
      with 3 show ?thesis by (simp add: same8 g7 g6 vector_address_def)
    next
      case 6
      with l8(6) [of v] irq cs that show ?thesis by (simp add: gate_to_def vector_address_def)
    qed (simp_all add: same8 g7 g6 vector_address_def)
  qed
  have outside: "a_IDT s8 v = a_IDT s v" if "\<not> v < 48" for v
    using that l2(7) l4(7) l5(7) l8(7) s1 by (simp add: s3_def s6_def s7_def setHandler_gate)
  from gates outside show ?thesis
    by (auto simp: result hd s1(5) gate_to_def)
qed

text \<open>The limit idt_load gives the processor is 1792 instead of 2047: only the first 224 vectors
  lie within it.\<close>

theorem idt_load_limit:
  "cpu_idt (idt_load s) = (1792, addr_a_IDT s)
    \<and> (\<forall>v. vector_in_limit v (cpu_idt (idt_load s)) = (v < 224))"
  by (auto simp: idt_load_def sizeof_x86_interrupt_def vector_in_limit_def)

text \<open>A device interrupt is handled like an exception of the same number, after an end-of-interrupt
  command to the master controller, preceded by one to the slave for the vectors from 40 on.\<close>

theorem irq_handler_acknowledges_first:
  "irq_handler v s = isr_handler v (s\<lparr>ptrace := ptrace s
     @ (if 40 \<le> unat v then [Out8 0xA0 0x20, Out8 0x20 0x20] else [Out8 0x20 0x20])\<rparr>)"
proof -
  have "outb 0x20 0x20 (if 40 \<le> v then outb 0xA0 0x20 s else s) = s\<lparr>ptrace := ptrace s
     @ (if 40 \<le> unat v then [Out8 0xA0 0x20, Out8 0x20 0x20] else [Out8 0x20 0x20])\<rparr>"
    by (cases "40 \<le> unat v") (simp_all add: outb_def word_le_nat_alt machine.surjective)
  note out = this
  show ?thesis unfolding irq_handler_def isr_handler_def Let_def out by simp
qed

text \<open>If the divisor for the wanted frequency fits into 16 bits, init_timer sends the timer the
  command for channel 0 and then the divisor's low and high byte; at 500 Hz that is 2386.\<close>

theorem init_timer_divisor:
  assumes "1193180 div frequency < (0x10000 :: u32)"
  shows "\<exists>l h. ptrace (init_timer frequency s) = ptrace s @ [Out8 0x43 0x36, Out8 0x40 l, Out8 0x40 h]
    \<and> ucast l OR push_bit 8 (ucast h) = 1193180 div frequency"
proof -
  let ?d = "1193180 div frequency"
  have m: "(0xFF :: u32) = mask 8" by (simp add: mask_eq_exp_minus_1)
  have high: "\<not> bit ?d n" if "16 \<le> n" for n
  proof -
    have "unat ?d < 2 ^ 16" using assms by (simp add: word_less_nat_alt)
    then have "take_bit 16 ?d = ?d" by (intro u32_eqI) (simp only: unsigned_take_bit_eq take_bit_nat_eq_self)
    then show ?thesis using that by (metis bit_take_bit_iff not_le)
  qed
  have "ucast (ucast (?d AND 0xFF) :: u8) OR push_bit 8 (ucast (ucast (drop_bit 8 ?d AND 0xFF) :: u8)) = ?d"
  proof (rule bit_eqI)
    fix n :: nat
    consider "n < 8" | "8 \<le> n" "n < 16" | "16 \<le> n" by linarith
    then show "bit (ucast (ucast (?d AND 0xFF) :: u8)
        OR push_bit 8 (ucast (ucast (drop_bit 8 ?d AND 0xFF) :: u8)) :: u32) n = bit ?d n"
      unfolding m by cases (auto simp: bit_simps high dest: bit_imp_le_length)
  qed
  then show ?thesis by (simp add: init_timer_def Let_def outb_def)
qed

lemma init_timer_divisor_witness:
  "\<forall>s. \<exists>l h. ptrace (init_timer 500 s) = ptrace s @ [Out8 0x43 0x36, Out8 0x40 l, Out8 0x40 h]
    \<and> ucast l OR push_bit 8 (ucast h) = (2386 :: u32)"
proof
  fix s :: "'a machine_scheme"
  show "\<exists>l h. ptrace (init_timer 500 s) = ptrace s @ [Out8 0x43 0x36, Out8 0x40 l, Out8 0x40 h]
    \<and> ucast l OR push_bit 8 (ucast h) = (2386 :: u32)"
    using init_timer_divisor [of 500 s] by simp
qed

end
