(* ===== verification/Isr.thy ===== *)
theory Isr
  imports Idt
begin

text \<open>
  \<^verbatim>\<open>code/InterruptHandler.cpp\<close>: one function per exception, \<^verbatim>\<open>isr_0\<close> to \<^verbatim>\<open>isr_19\<close> without
  \<^verbatim>\<open>isr_15\<close>, and two for device interrupts. Each exception function acknowledges the interrupt at the
  master controller and prints its message; the messages are a table here.
\<close>

definition ISR_MESSAGES :: "(nat \<times> string) list" where
  "ISR_MESSAGES =
    [(0, ''Divide By Zero Error 0''), (1, ''Debug Error 1''), (2, ''NMI Interrupt 2''),
     (3, ''Breakpoint 3''), (4, ''Overflow 4''), (5, ''BOUND Range Exceeded 5''),
     (6, ''Invalid Opcode 6''), (7, ''Device Not Available 7''), (8, ''Double Fault 8''),
     (9, ''Coprocessor Segment Overrun 9''), (10, ''Invalid TSS 10''),
     (11, ''Segment Not Present 11''), (12, ''Stack Segment Fault 12''),
     (13, ''General Protection Fault 13''), (14, ''Page Fault 14''),
     (16, ''FPU Floating-Point Error 16''), (17, ''Alignment Check 17''), (18, ''Machine Check 18''),
     (19, ''SIMD Floating-Point 19'')]"

definition isr_acknowledge :: "'a machine_scheme \<Rightarrow> 'a machine_scheme" where
  "isr_acknowledge s = sendEOI 0 s"

text \<open>\<open>None\<close>: there is no such function.\<close>

definition isr :: "nat \<Rightarrow> 'a machine_scheme \<Rightarrow> 'a machine_scheme option" where
  "isr n s = map_option (\<lambda>msg. printlnk msg (isr_acknowledge s)) (map_of ISR_MESSAGES n)"

definition irq_timer :: "'a machine_scheme \<Rightarrow> 'a machine_scheme" where
  "irq_timer s = sendEOI 0 (printlnk ''timer handler'' s)"

definition irq_sink :: "'a machine_scheme \<Rightarrow> 'a machine_scheme" where
  "irq_sink s = sendEOI 0 (printlnk ''IRQ sink'' s)"

end
