(* ===== verification/CString.thy ===== *)
theory CString
  imports Faults ByteMem
begin

text \<open>
  The string functions of \<^verbatim>\<open>code/mem/common.c\<close> and the \<^verbatim>\<open>strcmp\<close> of \<^verbatim>\<open>kmain.cpp\<close>, on byte memory.
  Their loops end at a zero byte; the fuel \<open>loop_fuel\<close> covers every address once, and \<open>Hang\<close> is
  what is left when there is no zero byte. \<open>str_at\<close> says which characters a pointer leads to.
\<close>

fun str_at :: "mem \<Rightarrow> u32 \<Rightarrow> u8 list \<Rightarrow> bool" where
  "str_at m p [] \<longleftrightarrow> m p = 0"
| "str_at m p (x # xs) \<longleftrightarrow> m p = x \<and> x \<noteq> 0 \<and> str_at m (p + 1) xs"

subsection \<open>strlen\<close>

fun strlen_loop :: "nat \<Rightarrow> mem \<Rightarrow> u32 \<Rightarrow> int \<Rightarrow> kerror + int" where
  "strlen_loop 0 m src i = Inl Hang"
| "strlen_loop (Suc n) m src i = (if m src \<noteq> 0 then strlen_loop n m (src + 1) (i + 1) else Inr i)"

definition strlen :: "mem \<Rightarrow> u32 \<Rightarrow> kerror + int" where
  "strlen m src = strlen_loop loop_fuel m src 0"

lemma strlen_loop_str:
  "str_at m p xs \<Longrightarrow> length xs < n \<Longrightarrow> strlen_loop n m p i = Inr (i + int (length xs))"
proof (induction xs arbitrary: n p i)
  case Nil
  then show ?case by (cases n) auto
next
  case (Cons x xs)
  then show ?case by (cases n) auto
qed

subsection \<open>strcmp\<close>

text \<open>The loop of the \<^verbatim>\<open>strcmp\<close> in \<^verbatim>\<open>common.c\<close>: the flag and the index it ends with.\<close>

fun strcmp_loop :: "nat \<Rightarrow> mem \<Rightarrow> u32 \<Rightarrow> u32 \<Rightarrow> u32 \<Rightarrow> kerror + (int \<times> u32)" where
  "strcmp_loop 0 m str1 str2 i = Inl Hang"
| "strcmp_loop (Suc n) m str1 str2 i =
     (if m (str1 + i) \<noteq> 0 \<and> m (str2 + i) \<noteq> 0
      then if m (str1 + i) \<noteq> m (str2 + i) then Inr (1, i) else strcmp_loop n m str1 str2 (i + 1)
      else Inr (0, i))"

definition strcmp :: "mem \<Rightarrow> u32 \<Rightarrow> u32 \<Rightarrow> kerror + int" where
  "strcmp m str1 str2 =
     bindR (strcmp_loop loop_fuel m str1 str2 0) (\<lambda>(failed, i).
       Inr (if m (str1 + i) = 0 \<and> m (str2 + i) \<noteq> 0 \<or> m (str1 + i) \<noteq> 0 \<and> m (str2 + i) = 0
            then 1 else failed))"

text \<open>The \<^verbatim>\<open>strcmp\<close> of \<^verbatim>\<open>kmain.cpp\<close>: the difference of the first characters that differ.\<close>

fun kstrcmp_loop :: "nat \<Rightarrow> mem \<Rightarrow> u32 \<Rightarrow> u32 \<Rightarrow> kerror + int" where
  "kstrcmp_loop 0 m s1 s2 = Inl Hang"
| "kstrcmp_loop (Suc n) m s1 s2 =
     (if m s1 \<noteq> 0 \<and> m s1 = m s2 then kstrcmp_loop n m (s1 + 1) (s2 + 1)
      else Inr (uint (m s1) - uint (m s2)))"

definition kstrcmp :: "mem \<Rightarrow> u32 \<Rightarrow> u32 \<Rightarrow> kerror + int" where
  "kstrcmp m s1 s2 = kstrcmp_loop loop_fuel m s1 s2"

lemma strcmp_loop_str:
  assumes "str_at m (a + i) xs" and "str_at m (b + i) ys" and "length xs < n"
  shows "\<exists>f j. strcmp_loop n m a b i = Inr (f, j)
    \<and> (if m (a + j) = 0 \<and> m (b + j) \<noteq> 0 \<or> m (a + j) \<noteq> 0 \<and> m (b + j) = 0 then 1 else f)
      = (if xs = ys then 0 else 1)"
  using assms
proof (induction xs arbitrary: n i ys)
  case Nil
  then show ?case by (cases n; cases ys) auto
next
  case (Cons x xs)
  then obtain k where k: "n = Suc k" "length xs < k" by (cases n) auto
  show ?case
  proof (cases ys)
    case Nil
    with Cons.prems k show ?thesis by auto
  next
    case (Cons y zs)
    show ?thesis
    proof (cases "x = y")
      case True
      have "str_at m (a + (i + 1)) xs" "str_at m (b + (i + 1)) zs"
        using Cons.prems Cons by (simp_all add: add.assoc)
      from Cons.IH [OF this k(2)] True Cons Cons.prems k show ?thesis by auto
    next
      case False
      with Cons Cons.prems k show ?thesis by auto
    qed
  qed
qed

lemma kstrcmp_loop_str:
  assumes "str_at m a xs" and "str_at m b ys" and "length xs < n"
  shows "\<exists>d. kstrcmp_loop n m a b = Inr d \<and> (d = 0 \<longleftrightarrow> xs = ys) \<and> (d < 0 \<longleftrightarrow> ord_class.lexordp xs ys)"
  using assms
proof (induction xs arbitrary: n a b ys)
  case Nil
  then show ?case by (cases n; cases ys) (auto simp: word_neq_0_conv word_less_def)
next
  case (Cons x xs)
  then obtain k where k: "n = Suc k" "length xs < k" by (cases n) auto
  show ?case
  proof (cases ys)
    case Nil
    with Cons.prems k show ?thesis by (auto simp: word_neq_0_conv word_less_def)
  next
    case (Cons y zs)
    with Cons.prems have "str_at m (a + 1) xs" "str_at m (b + 1) zs" by simp_all
    from Cons.IH [OF this k(2)] Cons Cons.prems k show ?thesis
      by (auto simp: word_less_def word_uint_eq_iff)
  qed
qed

subsection \<open>strcpy and strcat\<close>

text \<open>\<^verbatim>\<open>do { *dest++ = *src++; } while ( *src != 0);\<close> the memory and the final \<^verbatim>\<open>dest\<close>.\<close>

fun copy_loop :: "nat \<Rightarrow> mem \<Rightarrow> u32 \<Rightarrow> u32 \<Rightarrow> kerror + (u32 \<times> mem)" where
  "copy_loop 0 m dest src = Inl Hang"
| "copy_loop (Suc n) m dest src =
     (let m = m(dest := m src); dest = dest + 1; src = src + 1
      in if m src \<noteq> 0 then copy_loop n m dest src else Inr (dest, m))"

definition strcpy :: "mem \<Rightarrow> u32 \<Rightarrow> u32 \<Rightarrow> kerror + (u32 \<times> mem)" where
  "strcpy m dest src = copy_loop loop_fuel m dest src"

fun skip_string :: "nat \<Rightarrow> mem \<Rightarrow> u32 \<Rightarrow> kerror + u32" where
  "skip_string 0 m dest = Inl Hang"
| "skip_string (Suc n) m dest = (if m dest \<noteq> 0 then skip_string n m (dest + 1) else Inr dest)"

definition strcat :: "mem \<Rightarrow> u32 \<Rightarrow> u32 \<Rightarrow> kerror + (u32 \<times> mem)" where
  "strcat m dest src = bindR (skip_string loop_fuel m dest) (\<lambda>dest. copy_loop loop_fuel m dest src)"

lemma str_at_cong:
  assumes "\<And>i. i \<le> length xs \<Longrightarrow> m' (p + of_nat i) = m (p + of_nat i)"
  shows "str_at m' p xs = str_at m p xs"
  using assms
proof (induction xs arbitrary: p)
  case Nil
  from Nil [of 0] show ?case by simp
next
  case (Cons x xs)
  have "m' (p + 1 + of_nat i) = m (p + 1 + of_nat i)" if "i \<le> length xs" for i
    using Cons.prems [of "Suc i"] that by (simp add: add.assoc)
  with Cons.IH [of "p + 1"] Cons.prems [of 0] show ?case by simp
qed

fun put_bytes :: "mem \<Rightarrow> u32 \<Rightarrow> u8 list \<Rightarrow> mem" where
  "put_bytes m d [] = m"
| "put_bytes m d (b # bs) = put_bytes (m(d := b)) (d + 1) bs"

lemma put_bytes_outside:
  assumes "\<And>i. i < length bs \<Longrightarrow> a \<noteq> d + of_nat i"
  shows "put_bytes m d bs a = m a"
  using assms
proof (induction bs arbitrary: m d)
  case Nil
  then show ?case by simp
next
  case (Cons b bs)
  have "a \<noteq> d + 1 + of_nat i" if "i < length bs" for i
    using Cons.prems [of "Suc i"] that by (simp add: add.assoc)
  with Cons.IH [of "d + 1"] Cons.prems [of 0] show ?case by simp
qed

lemma put_bytes_end:
  assumes "length bs < 2 ^ 32"
  shows "put_bytes m d bs (d + of_nat (length bs)) = m (d + of_nat (length bs))"
proof (rule put_bytes_outside)
  fix i assume "i < length bs"
  with assms show "d + of_nat (length bs) \<noteq> d + of_nat i"
    using of_nat_u32_inj [of "length bs" i] by simp
qed

lemma put_bytes_nth:
  assumes "i < length bs" and "length bs \<le> 2 ^ 32"
  shows "put_bytes m d bs (d + of_nat i) = bs ! i"
  using assms
proof (induction bs arbitrary: m d i)
  case Nil
  then show ?case by simp
next
  case (Cons b bs)
  show ?case
  proof (cases i)
    case 0
    have "put_bytes (m(d := b)) (d + 1) bs d = (m(d := b)) d"
    proof (rule put_bytes_outside)
      fix j assume "j < length bs"
      then have "(of_nat (Suc j) :: u32) \<noteq> of_nat 0"
        using Cons.prems(2) by (subst of_nat_u32_inj) simp_all
      then show "d \<noteq> d + 1 + of_nat j" by (simp add: add.assoc)
    qed
    with 0 show ?thesis by simp
  next
    case (Suc j)
    with Cons.IH [of j "m(d := b)" "d + 1"] Cons.prems show ?thesis
      by (simp add: add.assoc del: fun_upd_apply)
  qed
qed

lemma copy_loop_str:
  assumes "str_at m src (x # xs)" and "length xs < n"
    and "\<And>i j. i \<le> length xs \<Longrightarrow> j \<le> Suc (length xs) \<Longrightarrow> dest + of_nat i \<noteq> src + of_nat j"
  shows "copy_loop n m dest src
    = Inr (dest + of_nat (Suc (length xs)), put_bytes m dest (x # xs))"
  using assms
proof (induction xs arbitrary: x n m dest src)
  case Nil
  from Nil.prems(3) [of 0 1] have "src + 1 \<noteq> dest" by simp
  with Nil show ?case by (cases n) (auto simp: Let_def)
next
  case (Cons y ys)
  then obtain k where k: "n = Suc k" "length ys < k" by (cases n) auto
  define m' where "m' = m(dest := x)"
  have ne: "dest + 1 + of_nat i \<noteq> src + 1 + of_nat j" if "i \<le> length ys" "j \<le> Suc (length ys)" for i j
    using Cons.prems(3) [of "Suc i" "Suc j"] that by (simp add: add.assoc)
  have "str_at m' (src + 1) (y # ys) = str_at m (src + 1) (y # ys)"
  proof (rule str_at_cong)
    fix i assume "i \<le> length (y # ys)"
    then show "m' (src + 1 + of_nat i) = m (src + 1 + of_nat i)"
      using Cons.prems(3) [of 0 "Suc i"] by (auto simp: m'_def add.assoc)
  qed
  with Cons.prems(1) have str: "str_at m' (src + 1) (y # ys)" by simp
  then have "m' (src + 1) \<noteq> 0" by simp
  then have "copy_loop n m dest src = copy_loop k m' (dest + 1) (src + 1)"
    using k Cons.prems(1) by (simp add: m'_def Let_def)
  also have "\<dots> = Inr (dest + 1 + of_nat (Suc (length ys)), put_bytes m' (dest + 1) (y # ys))"
    using ne by (intro Cons.IH str k(2))
  finally show ?case by (simp add: m'_def add.assoc)
qed

subsection \<open>Properties\<close>

text \<open>strlen returns the number of characters before the terminating zero byte.\<close>

theorem strlen_counts:
  assumes "str_at m p xs" and "length xs < 2 ^ 31"
  shows "strlen m p = Inr (int (length xs))"
  using strlen_loop_str [OF assms(1), of loop_fuel 0] assms(2) by (simp add: strlen_def loop_fuel_def)

text \<open>Memory holding "ab" at 0x100, "abc" at 0x200 and zeros elsewhere.\<close>

definition demo_strings :: mem where
  "demo_strings = put_bytes (put_bytes (\<lambda>_. 0) 0x100 [0x61, 0x62]) 0x200 [0x61, 0x62, 0x63]"

lemma demo_strings_at: "str_at demo_strings 0x100 [0x61, 0x62]" "str_at demo_strings 0x200 [0x61, 0x62, 0x63]"
  by (simp_all add: demo_strings_def)

lemma strlen_counts_witness: "strlen demo_strings 0x200 = Inr 3"
  using strlen_counts [OF demo_strings_at(2)] by simp

text \<open>The strcmp of common.c returns 0 for equal strings and 1 for all others; it never returns
  the -1 its comment promises for a smaller first string.\<close>

theorem strcmp_tells_equality_only:
  assumes "str_at m a xs" and "str_at m b ys" and "length xs < 2 ^ 32"
  shows "strcmp m a b = Inr (if xs = ys then 0 else 1)"
proof -
  obtain f j where "strcmp_loop loop_fuel m a b 0 = Inr (f, j)"
    "(if m (a + j) = 0 \<and> m (b + j) \<noteq> 0 \<or> m (a + j) \<noteq> 0 \<and> m (b + j) = 0 then 1 else f)
      = (if xs = ys then 0 else 1)"
    using strcmp_loop_str [of m a 0 xs b ys loop_fuel] assms by (auto simp: loop_fuel_def)
  then show ?thesis by (simp only: strcmp_def bindR_simps prod.case)
qed

lemma strcmp_tells_equality_only_witness: "strcmp demo_strings 0x100 0x200 = Inr 1"
  using strcmp_tells_equality_only [OF demo_strings_at] by simp

text \<open>The strcmp of kmain.cpp returns zero for equal strings only and a negative number exactly
  when the first string is lexicographically smaller, bytes being unsigned.\<close>

theorem kstrcmp_is_lexicographic:
  assumes "str_at m a xs" and "str_at m b ys" and "length xs < 2 ^ 32"
  shows "\<exists>d. kstrcmp m a b = Inr d \<and> (d = 0 \<longleftrightarrow> xs = ys) \<and> (d < 0 \<longleftrightarrow> ord_class.lexordp xs ys)"
  using kstrcmp_loop_str [OF assms(1,2)] assms(3) by (simp add: kstrcmp_def loop_fuel_def)

lemma kstrcmp_is_lexicographic_witness: "\<exists>d. kstrcmp demo_strings 0x100 0x200 = Inr d \<and> d < 0"
  using kstrcmp_is_lexicographic [OF demo_strings_at] by auto

text \<open>strcpy copies the characters of a non-empty string to an area apart from it, but not the
  terminating zero: the byte after the copy keeps its old value, and the pointer returned is the
  end of the copy, not its start.\<close>

theorem strcpy_drops_terminator:
  assumes "str_at m src xs" and "xs \<noteq> []" and "length xs < 2 ^ 31"
    and "unat dest + length xs < 2 ^ 32" and "unat src + length xs < 2 ^ 32"
    and "unat dest + length xs \<le> unat src \<or> unat src + length xs < unat dest"
  shows "\<exists>m'. strcpy m dest src = Inr (dest + of_nat (length xs), m')
    \<and> (\<forall>i<length xs. m' (dest + of_nat i) = xs ! i)
    \<and> m' (dest + of_nat (length xs)) = m (dest + of_nat (length xs))"
proof -
  obtain x ys where xs: "xs = x # ys" using assms(2) by (cases xs) auto
  have "dest + of_nat i \<noteq> src + of_nat j" if "i \<le> length ys" "j \<le> Suc (length ys)" for i j
  proof -
    have "unat (dest + of_nat i) = unat dest + i" "unat (src + of_nat j) = unat src + j"
      using that assms(3-5) xs by (subst unat_add_small; simp add: unat_of_nat_u32)+
    then have "unat (dest + of_nat i) \<noteq> unat (src + of_nat j)" using that assms(6) xs by auto
    then show ?thesis by metis
  qed
  with copy_loop_str [of m src x ys loop_fuel dest] assms(1,3) xs
  have "strcpy m dest src = Inr (dest + of_nat (length xs), put_bytes m dest xs)"
    by (simp add: strcpy_def loop_fuel_def)
  with put_bytes_end [of xs m dest] put_bytes_nth [of _ xs m dest] assms(3) show ?thesis by simp
qed

lemma strcpy_drops_terminator_witness:
  "\<exists>m'. strcpy (demo_strings(0x303 := 0x7A)) 0x300 0x200 = Inr (0x303, m') \<and> m' 0x303 = 0x7A"
proof -
  have "str_at (demo_strings(0x303 := 0x7A)) 0x200 [0x61, 0x62, 0x63]"
    by (simp add: demo_strings_def)
  from strcpy_drops_terminator [OF this, of "0x300"] show ?thesis by auto
qed

end
