(* ===== verification/Tss.thy ===== *)
theory Tss
  imports ByteMem
begin

text \<open>
  \<^verbatim>\<open>code/TSS.cpp\<close>: the task state segment and its descriptor. The descriptor is the record of the
  packed bit fields; \<open>gdt_pack\<close> is the 64-bit word they make in memory (first field lowest). The
  address of the segment \<^verbatim>\<open>tss_entry\<close> is the linker's and an argument here.
\<close>

record gdt_entry_bits =
  limit_low :: "16 word"
  base_low :: "24 word"
  accessed :: bool
  read_write :: bool
  conforming_expand_down :: bool
  code_bit :: bool
  always_1 :: bool
  DPL :: "2 word"
  present :: bool
  limit_high :: "4 word"
  available :: bool
  always_0 :: bool
  big :: bool
  gran :: bool
  base_high :: "8 word"

definition sizeof_tss :: nat where "sizeof_tss = 104"

definition writeTss :: "u32 \<Rightarrow> gdt_entry_bits \<Rightarrow> mem \<Rightarrow> gdt_entry_bits \<times> mem" where
  "writeTss tss_entry g m =
     (let base = tss_entry;
          limit = base + of_nat sizeof_tss;
          g = g\<lparr>base_low := ucast (base AND 0xFFFFFF), accessed := True, read_write := False,
                conforming_expand_down := False, code_bit := True, always_1 := False, DPL := 3,
                present := True, limit_high := ucast (drop_bit 16 (limit AND 0xF0000)),
                available := False, always_0 := False, big := False, gran := False,
                base_high := ucast (drop_bit 24 (base AND 0xFF000000))\<rparr>;
          m = for_upt 0 sizeof_tss (\<lambda>i m. m(tss_entry + of_nat i := 0)) m;
          m = store32 m (tss_entry + 8) 0x10;
          m = store32 m (tss_entry + 4) 0
      in (g, m))"

definition flag64 :: "nat \<Rightarrow> bool \<Rightarrow> 64 word" where
  "flag64 n b = (if b then push_bit n 1 else 0)"

definition gdt_pack :: "gdt_entry_bits \<Rightarrow> 64 word" where
  "gdt_pack g = ucast (limit_low g) OR push_bit 16 (ucast (base_low g))
     OR flag64 40 (accessed g) OR flag64 41 (read_write g) OR flag64 42 (conforming_expand_down g)
     OR flag64 43 (code_bit g) OR flag64 44 (always_1 g) OR push_bit 45 (ucast (DPL g))
     OR flag64 47 (present g) OR push_bit 48 (ucast (limit_high g)) OR flag64 52 (available g)
     OR flag64 53 (always_0 g) OR flag64 54 (big g) OR flag64 55 (gran g)
     OR push_bit 56 (ucast (base_high g))"

text \<open>What the processor reads from a descriptor.\<close>

definition descriptor_base :: "64 word \<Rightarrow> u32" where
  "descriptor_base d = ucast (take_bit 24 (drop_bit 16 d)) OR push_bit 24 (ucast (drop_bit 56 d))"

definition descriptor_limit :: "64 word \<Rightarrow> u32" where
  "descriptor_limit d = ucast (take_bit 16 d) OR push_bit 16 (ucast (take_bit 4 (drop_bit 48 d)))"

definition descriptor_access :: "64 word \<Rightarrow> u8" where
  "descriptor_access d = ucast (drop_bit 40 d)"

lemma bit_flag64: "bit (flag64 k b) n \<longleftrightarrow> b \<and> n = k \<and> k < 64"
  by (auto simp: flag64_def bit_simps)

lemma bit_gdt_pack:
  "n < 16 \<Longrightarrow> bit (gdt_pack g) n \<longleftrightarrow> bit (limit_low g) n"
  "n < 24 \<Longrightarrow> bit (gdt_pack g) (16 + n) \<longleftrightarrow> bit (base_low g) n"
  "n < 4 \<Longrightarrow> bit (gdt_pack g) (48 + n) \<longleftrightarrow> bit (limit_high g) n"
  "n < 8 \<Longrightarrow> bit (gdt_pack g) (56 + n) \<longleftrightarrow> bit (base_high g) n"
  by (auto simp: gdt_pack_def bit_simps bit_flag64 dest: bit_imp_le_length)

lemma descriptor_base_pack:
  "descriptor_base (gdt_pack g) = ucast (base_low g) OR push_bit 24 (ucast (base_high g))"
proof (rule bit_eqI)
  fix n :: nat
  assume "possible_bit TYPE(u32) n"
  then have "n < 32" by simp
  show "bit (descriptor_base (gdt_pack g)) n
      = bit (ucast (base_low g) OR push_bit 24 (ucast (base_high g)) :: u32) n"
  proof (cases "n < 24")
    case True
    with bit_gdt_pack(2) [OF True, of g] show ?thesis
      by (simp add: descriptor_base_def bit_simps)
  next
    case False
    then have "n - 24 < 8" "56 + (n - 24) = 32 + n" using \<open>n < 32\<close> by auto
    with bit_gdt_pack(4) [of "n - 24" g] False \<open>n < 32\<close> show ?thesis
      by (auto simp: descriptor_base_def bit_simps dest: bit_imp_le_length)
  qed
qed

lemma descriptor_limit_pack:
  "descriptor_limit (gdt_pack g) = ucast (limit_low g) OR push_bit 16 (ucast (limit_high g))"
proof (rule bit_eqI)
  fix n :: nat
  assume "possible_bit TYPE(u32) n"
  then have "n < 32" by simp
  show "bit (descriptor_limit (gdt_pack g)) n
      = bit (ucast (limit_low g) OR push_bit 16 (ucast (limit_high g)) :: u32) n"
  proof (cases "n < 16")
    case True
    with bit_gdt_pack(1) [OF True, of g] show ?thesis
      by (simp add: descriptor_limit_def bit_simps)
  next
    case False
    show ?thesis
    proof (cases "n < 20")
      case True
      with False have "n - 16 < 4" "48 + (n - 16) = 32 + n" by auto
      with bit_gdt_pack(3) [of "n - 16" g] False \<open>n < 32\<close> show ?thesis
        by (auto simp: descriptor_limit_def bit_simps dest: bit_imp_le_length)
    next
      case 2: False
      then have "\<not> bit (limit_high g) (n - 16)" by (auto dest: bit_imp_le_length)
      with 2 False show ?thesis
        by (auto simp: descriptor_limit_def bit_simps dest: bit_imp_le_length)
    qed
  qed
qed

lemma split_base:
  "ucast (ucast (b AND 0xFFFFFF) :: 24 word)
     OR push_bit 24 (ucast (ucast (drop_bit 24 (b AND 0xFF000000)) :: 8 word)) = (b :: u32)"
proof -
  have m: "(0xFFFFFF :: u32) = mask 24" "(0xFF000000 :: u32) = push_bit 24 (mask 8)"
    by (simp_all add: mask_eq_exp_minus_1 push_bit_eq_mult)
  show ?thesis
  proof (rule bit_eqI)
    fix n :: nat
    consider "n < 24" | "24 \<le> n" "n < 32" | "32 \<le> n" by linarith
    then show "bit (ucast (ucast (b AND 0xFFFFFF) :: 24 word)
       OR push_bit 24 (ucast (ucast (drop_bit 24 (b AND 0xFF000000)) :: 8 word)) :: u32) n = bit b n"
      unfolding m by cases (auto simp: bit_simps dest: bit_imp_le_length)
  qed
qed

lemma bit_gdt_access:
  "bit (gdt_pack g) 40 = accessed g" "bit (gdt_pack g) 41 = read_write g"
  "bit (gdt_pack g) 42 = conforming_expand_down g" "bit (gdt_pack g) 43 = code_bit g"
  "bit (gdt_pack g) 44 = always_1 g" "bit (gdt_pack g) 45 = bit (DPL g) 0"
  "bit (gdt_pack g) 46 = bit (DPL g) 1" "bit (gdt_pack g) 47 = present g"
  by (auto simp: gdt_pack_def bit_simps bit_flag64 dest: bit_imp_le_length)

lemma descriptor_access_pack:
  assumes "accessed g" and "\<not> read_write g" and "\<not> conforming_expand_down g" and "code_bit g"
    and "\<not> always_1 g" and "DPL g = 3" and "present g"
  shows "descriptor_access (gdt_pack g) = 0xE9"
proof (rule bit_eqI)
  fix n :: nat
  assume "possible_bit TYPE(u8) n"
  then have "n < 8" by simp
  then consider "n = 0" | "n = 1" | "n = 2" | "n = 3" | "n = 4" | "n = 5" | "n = 6" | "n = 7" by linarith
  then show "bit (descriptor_access (gdt_pack g)) n = bit (0xE9 :: u8) n"
    by cases (simp_all add: descriptor_access_def bit_unsigned_iff bit_drop_bit_eq bit_gdt_access assms)
qed

subsection \<open>Properties\<close>

lemma tss_zeroed:
  assumes "i < sizeof_tss" and "unat b + sizeof_tss < 2 ^ 32"
  shows "for_upt 0 sizeof_tss (\<lambda>i m. m(b + of_nat i := 0)) m (b + of_nat i) = (0 :: u8)"
proof -
  have "\<forall>j<n. for_upt 0 n (\<lambda>i m. m(b + of_nat i := 0)) m (b + of_nat j) = (0 :: u8)" for n
    by (induction n) (auto simp: less_Suc_eq)
  with assms(1) show ?thesis by blast
qed

text \<open>The descriptor written for the task state segment is that of an available 32-bit TSS of
  privilege level 3 with the segment's address as its base; its limit is not the segment's
  size, but the old low half with bits 16 to 19 of the end address of the segment. The segment
  gets the kernel's stack segment and is zero otherwise.\<close>

theorem writeTss_descriptor:
  assumes "unat b + 104 < 2 ^ 32"
  shows "\<exists>g' m'. writeTss b g m = (g', m') \<and> descriptor_base (gdt_pack g') = b
    \<and> descriptor_access (gdt_pack g') = 0xE9
    \<and> descriptor_limit (gdt_pack g') = ucast (limit_low g) OR ((b + 104) AND 0xF0000)
    \<and> load32 m' (b + 8) = 0x10
    \<and> (\<forall>i<104. i \<noteq> 8 \<longrightarrow> m' (b + of_nat i) = 0)"
proof -
  let ?z = "for_upt 0 sizeof_tss (\<lambda>i m. m(b + of_nat i := 0)) m"
  obtain g' m' where w: "writeTss b g m = (g', m')" by (cases "writeTss b g m")
  then have m': "m' = store32 (store32 ?z (b + 8) 0x10) (b + 4) 0"
    and g': "limit_low g' = limit_low g" "base_low g' = ucast (b AND 0xFFFFFF)"
      "base_high g' = ucast (drop_bit 24 (b AND 0xFF000000))"
      "limit_high g' = ucast (drop_bit 16 ((b + 104) AND 0xF0000))"
      "accessed g'" "\<not> read_write g'" "\<not> conforming_expand_down g'" "code_bit g'"
      "\<not> always_1 g'" "DPL g' = 3" "present g'"
    by (auto simp: writeTss_def Let_def sizeof_tss_def)
  have base: "descriptor_base (gdt_pack g') = b"
    unfolding descriptor_base_pack g'(2,3) by (rule split_base)
  have "push_bit 16 (ucast (limit_high g')) = ((b + 104) AND 0xF0000 :: u32)"
  proof (rule bit_eqI)
    fix n :: nat
    have k: "(0xF0000 :: u32) = push_bit 16 (mask 4)" by (simp add: mask_eq_exp_minus_1 push_bit_eq_mult)
    show "bit (push_bit 16 (ucast (limit_high g')) :: u32) n = bit ((b + 104) AND 0xF0000 :: u32) n"
      unfolding g'(4) k by (auto simp: bit_simps dest: bit_imp_le_length)
  qed
  then have limit: "descriptor_limit (gdt_pack g') = ucast (limit_low g) OR ((b + 104) AND 0xF0000)"
    by (simp add: descriptor_limit_pack g'(1))
  have u: "unat (b + 4) = unat b + 4" "unat (b + 8) = unat b + 8"
    using assms by (subst unat_add_small; simp)+
  have "apart32 (b + 4) (b + 8)" using assms by (intro apart32_below) (simp_all add: u)
  then have ss0: "load32 m' (b + 8) = 0x10"
    by (simp add: m' load32_store32_apart load32_store32_same)
  have zero: "m' (b + of_nat i) = 0" if "i < 104" "i \<noteq> 8" for i
  proof -
    have z: "?z (b + of_nat i) = 0" using that assms by (intro tss_zeroed) (simp_all add: sizeof_tss_def)
    have ne: "b + of_nat i \<noteq> b + 8"
      using that of_nat_u32_inj [of i 8] by simp
    have "store32 ?z (b + 8) 0x10 (b + of_nat i) = 0"
      using z ne by (auto simp: store32_def)
    then show ?thesis by (auto simp: m' store32_def)
  qed
  from w base descriptor_access_pack [OF g'(5-11)] limit ss0 zero show ?thesis by blast
qed

lemma writeTss_descriptor_witness:
  "\<forall>g m. \<exists>g' m'. writeTss 0x00123450 g m = (g', m') \<and> descriptor_base (gdt_pack g') = 0x00123450
    \<and> descriptor_limit (gdt_pack g') = ucast (limit_low g) OR 0x20000"
proof (intro allI)
  fix g m
  show "\<exists>g' m'. writeTss 0x00123450 g m = (g', m') \<and> descriptor_base (gdt_pack g') = 0x00123450
    \<and> descriptor_limit (gdt_pack g') = ucast (limit_low g) OR 0x20000"
    using writeTss_descriptor [of "0x00123450" g m] by auto
qed

end
