(* ===== verification/KMain.thy ===== *)
theory KMain
  imports Isr CString Tss
begin

text \<open>
  \<^verbatim>\<open>kmain.cpp\<close>: the start of the kernel, the first process (\<^verbatim>\<open>Program1\<close>), the launcher of programs,
  the allocation operators and the guards of static variables. The loop of \<^verbatim>\<open>kmain\<close> and the one of
  \<^verbatim>\<open>Program1::launch\<close> do not end; \<open>main_step\<close> and \<open>program1_step\<close> are one round of each. Where the
  linker or the compiler puts an object (the process object, the message on the stack) is a
  parameter, and so are the names that the virtual method \<^verbatim>\<open>getName\<close> returns.
\<close>

record kernel = idt +
  magic :: u32
  addr_pg1 :: u32
  addr_ms :: u32

subsection \<open>The first process\<close>

text \<open>
  \<^verbatim>\<open>Program1\<close> at address \<open>p\<close>: the table of its virtual methods, which the compiler places, and \<^verbatim>\<open>counter\<close>. One round
  of its loop is \<open>program1_step\<close> below.
\<close>

definition program1_ctor :: "u32 \<Rightarrow> 'a vmm_scheme \<Rightarrow> kerror + 'a vmm_scheme" where
  "program1_ctor p s = vwrite32 (p + 4) 0 s"

definition program1_launched :: "'a kcon_scheme \<Rightarrow> 'a kcon_scheme" where
  "program1_launched s = printlnk ''Program1: launched.'' s"

definition getResult :: "u32 \<Rightarrow> 'a vmm_scheme \<Rightarrow> kerror + int" where
  "getResult p s = bindR (vread32 (p + 4) s) (\<lambda>counter. Inr (sint counter))"

definition program1_getName :: string where
  "program1_getName = ''Program1''"

subsection \<open>Start\<close>

definition clear_screen :: "'a kcon_scheme \<Rightarrow> 'a kcon_scheme" where
  "clear_screen s = s\<lparr>con := kclearScreen (con s)\<rparr>"

definition task_manager_ctor :: "'a tasks_scheme \<Rightarrow> 'a tasks_scheme" where
  "task_manager_ctor s = s\<lparr>ready_queue := 0, tid := 0\<rparr>"

text \<open>Everything before the endless loop; the flag tells whether the loop is reached.\<close>

definition kmain_start :: "'a kernel_scheme \<Rightarrow> kerror + (bool \<times> 'a kernel_scheme)" where
  "kmain_start s =
     (let s = clear_screen s
      in if magic s \<noteq> 0x2BADB002 then Inr (False, printlnk ''Error'' s)
         else let s = remap 0x20 0x28 s;
                  s = setupHandlers s;
                  s = idt_load s;
                  s = keyboard_setup s
              in bindR (vload32 0 s) (\<lambda>a. bindR (vload32 0x00100000 s) (\<lambda>b.
                   let s = printlnk (if a = b then ''L20 off'' else ''L20 on'') s;
                       s = init_pmm 0x00300000 s
                   in bindR (init_vmm s) (\<lambda>s.
                        let s = printlnk ''heap'' s;
                            s = printlnk ''main alloc end'' s;
                            s = task_manager_ctor s
                        in bindR (tasks_init s) (\<lambda>s.
                             let s = sti s
                             in bindR (program1_ctor (addr_pg1 s) s) (\<lambda>s.
                                bindR (createProcess (addr_pg1 s) s) (\<lambda>(result, s).
                                  Inr (True, s))))))))"

subsection \<open>The messages of the main loop\<close>

definition next_seed :: "u32 \<Rightarrow> u32" where "next_seed seed = seed * 1103515245 + 12345"

definition seed_x :: "u32 \<Rightarrow> u8" where "seed_x seed = ucast (seed mod 80)"
definition seed_y :: "u32 \<Rightarrow> u8" where "seed_y seed = ucast (seed mod 25)"

definition main_step :: "u32 \<Rightarrow> 'a kernel_scheme \<Rightarrow> kerror + (u32 \<times> 'a kernel_scheme)" where
  "main_step seed s =
     (let seed = next_seed seed;
          x = seed_x seed;
          y = seed_y seed;
          ms = addr_ms s
      in bindR (vstore8 ms x s) (\<lambda>s. bindR (vstore8 (ms + 1) y s) (\<lambda>s.
         bindR (vstore8 (ms + 2) 0x5A s) (\<lambda>s.
         bindR (sendMessage 1 ms 3 s) (\<lambda>s. Inr (seed, s))))))"

definition draw_cell :: "int \<Rightarrow> int \<Rightarrow> u8 \<Rightarrow> 'a kcon_scheme \<Rightarrow> 'a kcon_scheme" where
  "draw_cell x y b s =
     (let pos = 2 * (y * 80 + x)
      in s\<lparr>con := (con s)\<lparr>vram := (vram (con s))(pos := b, pos + 1 := COLOR_WHITE)\<rparr>\<rparr>)"

definition program1_step :: "'a ipc_scheme \<Rightarrow> kerror + 'a ipc_scheme" where
  "program1_step s =
     bindR (receiveMessage s) (\<lambda>(msg, cb, s).
     if msg \<noteq> 0
     then bindR (vload8 msg s) (\<lambda>x. bindR (vload8 (msg + 1) s) (\<lambda>y.
          bindR (vload8 (msg + 2) s) (\<lambda>b. Inr (draw_cell (sint x) (sint y) b s))))
     else Inr s)"

subsection \<open>The launcher\<close>

record launcher =
  m_programs :: "int \<Rightarrow> u32"
  m_current :: int

definition launcher_ctor :: "launcher \<Rightarrow> 'a kcon_scheme \<Rightarrow> launcher \<times> 'a kcon_scheme" where
  "launcher_ctor l s = (l\<lparr>m_current := 0\<rparr>, printlnk ''Launcher: enter program name.'' s)"

definition launcher_add :: "u32 \<Rightarrow> launcher \<Rightarrow> launcher" where
  "launcher_add program l =
     (let l = l\<lparr>m_programs := (m_programs l)(m_current l := program), m_current := m_current l + 1\<rparr>
      in l\<lparr>m_current := m_current l smod 10\<rparr>)"

fun find_program :: "(u32 \<Rightarrow> u32) \<Rightarrow> mem \<Rightarrow> u32 \<Rightarrow> u32 list \<Rightarrow> kerror + u32" where
  "find_program getName m line [] = Inr 0"
| "find_program getName m line (p # ps) =
     bindR (kstrcmp m (getName p) line) (\<lambda>d. if d = 0 then Inr p else find_program getName m line ps)"

definition lineEntered ::
  "(u32 \<Rightarrow> u32) \<Rightarrow> launcher \<Rightarrow> u32 \<Rightarrow> 'a tasks_scheme \<Rightarrow> kerror + 'a tasks_scheme" where
  "lineEntered getName l line s =
     (let s = printlnk '''' s
      in bindR (find_program getName (pmem s) line (map (m_programs l) [0..m_current l - 1])) (\<lambda>prog.
           if prog \<noteq> 0 then bindR (createThread prog s) (\<lambda>(result, s). Inr s)
           else Inr (printlnk ''Couldn't find it.'' s)))"

subsection \<open>Operators, flags and guards\<close>

definition operator_new :: "u32 \<Rightarrow> 'a kheap_scheme \<Rightarrow> kerror + (u32 \<times> 'a kheap_scheme)" where
  "operator_new cb s = kmalloc (currentHeap s) cb s"

definition operator_delete :: "u32 \<Rightarrow> 'a kheap_scheme \<Rightarrow> kerror + 'a kheap_scheme" where
  "operator_delete p s = kfree p s"

text \<open>The placement forms of the operators; the second argument is the place.\<close>

definition placement_new :: "u32 \<Rightarrow> u32 \<Rightarrow> u32" where
  "placement_new cb p = p"

definition placement_delete :: "u32 \<Rightarrow> u32 \<Rightarrow> 's \<Rightarrow> 's" where
  "placement_delete p q s = s"

definition irqEnabled :: "'a sched_scheme \<Rightarrow> u32" where
  "irqEnabled s = pushf s AND push_bit 9 1"

definition cxa_guard_acquire :: "mem \<Rightarrow> u32 \<Rightarrow> int" where
  "cxa_guard_acquire m g = (if m g = 0 then 1 else 0)"

definition cxa_guard_release :: "mem \<Rightarrow> u32 \<Rightarrow> mem" where
  "cxa_guard_release m g = m(g := 1)"

definition cxa_guard_abort :: "mem \<Rightarrow> u32 \<Rightarrow> mem" where
  "cxa_guard_abort m g = m"

text \<open>
  \<^verbatim>\<open>static TaskManager instance;\<close> in a function: the constructor runs if the guard is not yet
  acquired.
\<close>

definition getInstance :: "u32 \<Rightarrow> 'a tasks_scheme \<Rightarrow> 'a tasks_scheme" where
  "getInstance g s =
     (if cxa_guard_acquire (pmem s) g \<noteq> 0
      then let s = task_manager_ctor s in s\<lparr>pmem := cxa_guard_release (pmem s) g\<rparr>
      else s)"

text \<open>\<^verbatim>\<open>IPC::IPC\<close> and \<^verbatim>\<open>IPC::getInstance\<close>, likewise.\<close>

definition ipc_ctor :: "'a ipc_scheme \<Rightarrow> 'a ipc_scheme" where
  "ipc_ctor s = s\<lparr>msgs := 0\<rparr>"

definition ipc_getInstance :: "u32 \<Rightarrow> 'a ipc_scheme \<Rightarrow> 'a ipc_scheme" where
  "ipc_getInstance g s =
     (if cxa_guard_acquire (pmem s) g \<noteq> 0
      then let s = ipc_ctor s in s\<lparr>pmem := cxa_guard_release (pmem s) g\<rparr>
      else s)"

end
