(* ===== verification/Messages.thy ===== *)
theory Messages
  imports Ipc
begin

text \<open>
  The message queue as a list of messages, each the identifier of its receiver and the bytes of its
  payload: sending appends, receiving takes the first message of the running thread, and what
  \<^verbatim>\<open>clearMessages\<close> leaves. The nodes and payloads lie in the kernel heap, which paging maps to itself.
\<close>

subsection \<open>Copying under paging\<close>

definition span :: "u32 \<Rightarrow> u32 \<Rightarrow> u32 set" where "span p n = {a. unat (a - p) < unat n}"

lemma span_step:
  assumes "n \<noteq> 0"
  shows "p \<in> span p n" and "span (p + 1) (n - 1) \<subseteq> span p n"
proof -
  show "p \<in> span p n" using assms by (simp add: span_def unat_gt_0)
  show "span (p + 1) (n - 1) \<subseteq> span p n"
    using offset_step [OF assms] by (auto simp: span_def)
qed

lemma memcpy_cong:
  assumes "\<forall>a\<in>A. m' a = m a" and "span dest len \<subseteq> A" and "span src len \<subseteq> A" and "a \<in> A"
  shows "memcpy m' dest src len a = memcpy m dest src len a"
  using assms
proof (induction m dest src len arbitrary: m' rule: memcpy.induct)
  case (1 m dest src len)
  show ?case
  proof (cases "len = 0")
    case True
    then show ?thesis using "1.prems" by (simp add: memcpy.simps [of _ dest])
  next
    case False
    have src: "src \<in> A" using span_step(1) [OF False] "1.prems" by auto
    have sub: "span (dest + 1) (len - 1) \<subseteq> A" "span (src + 1) (len - 1) \<subseteq> A"
      using span_step(2) [OF False] "1.prems" by blast+
    have "\<forall>a\<in>A. (m'(dest := m' src)) a = (m(dest := m src)) a" using "1.prems"(1) src by simp
    from "1.IH" [of "m'(dest := m' src)", OF False this sub "1.prems"(4)] show ?thesis
      using False by (simp add: memcpy.simps [of _ dest] del: fun_upd_apply)
  qed
qed

lemma vmemcpy_area:
  assumes "data_area s A" and "span dest len \<subseteq> A" and "span src len \<subseteq> A"
  shows "\<exists>s'. vmemcpy dest src len s = Inr s' \<and> wrote s A (memcpy (vview s) dest src len) s'"
  using assms
proof (induction dest src len s rule: vmemcpy.induct)
  case (1 dest src len s)
  show ?case
  proof (cases "len = 0")
    case True
    then show ?thesis
      using wrote_refl [OF 1(2)] by (simp add: vmemcpy.simps [of dest] memcpy.simps [of _ dest])
  next
    case False
    have in_A: "dest \<in> A" "src \<in> A" using span_step(1) [OF False] "1.prems" by auto
    have sub: "span (dest + 1) (len - 1) \<subseteq> A" "span (src + 1) (len - 1) \<subseteq> A"
      using span_step(2) [OF False] "1.prems" by blast+
    have ld: "vload8 src s = Inr (vview s src)" by (rule vload8_area [OF "1.prems"(1) in_A(2)])
    obtain s1 where s1: "vstore8 dest (vview s src) s = Inr s1"
      "wrote s A ((vview s)(dest := vview s src)) s1"
      using vstore8_area [OF "1.prems"(1) in_A(1)] by blast
    obtain s' where s': "vmemcpy (dest + 1) (src + 1) (len - 1) s1 = Inr s'"
      "wrote s1 A (memcpy (vview s1) (dest + 1) (src + 1) (len - 1)) s'"
      using "1.IH" [OF False ld s1(1) wroteD(2) [OF s1(2)] sub] by blast
    let ?m = "(vview s)(dest := vview s src)"
    have eq: "memcpy (vview s1) (dest + 1) (src + 1) (len - 1) a = memcpy ?m (dest + 1) (src + 1) (len - 1) a"
      if "a \<in> A" for a
      by (rule memcpy_cong [OF _ sub that]) (simp add: wroteD(6) [OF s1(2)])
    have "wrote s A (memcpy ?m (dest + 1) (src + 1) (len - 1)) s'"
      by (rule wrote_cong [OF wrote_trans [OF s1(2) s'(2)] eq])
    moreover have "vmemcpy dest src len s = Inr s'"
      using False ld s1(1) s'(1) by (simp add: vmemcpy.simps [of dest])
    ultimately show ?thesis using False by (auto simp: memcpy.simps [of _ dest])
  qed
qed

subsection \<open>The kernel heap in a data area\<close>

definition km_area :: "u32 set" where "km_area = {a. 0x00200000 \<le> unat a \<and> unat a < 0x00300000}"

text \<open>
  The area \<open>A\<close> holds the megabyte of the kernel heap, mapped to itself, and message nodes lie in its
  used part.
\<close>

definition ipc_inv :: "'a ipc_scheme \<Rightarrow> u32 set \<Rightarrow> bool" where
  "ipc_inv s A \<longleftrightarrow> task_inv s \<and> data_area s A \<and> km_area \<subseteq> A
     \<and> (\<forall>a\<in>km_area. translate s a = Some a) \<and> dom (mnodes s) \<subseteq> km_used s"

lemma km_used_area: "km_inv s \<Longrightarrow> km_used s \<subseteq> km_area"
  by (auto simp: km_used_def km_area_def km_inv_def)

lemma vview_km: "ipc_inv s A \<Longrightarrow> a \<in> km_area \<Longrightarrow> vview s a = pmem s a"
  by (simp add: ipc_inv_def vview_def)

lemma ipc_update_area [simp]:
  "data_area (s\<lparr>mnodes := x\<rparr>) A = data_area s A" "vview (s\<lparr>mnodes := x\<rparr>) = vview s"
  "translate (s\<lparr>mnodes := x\<rparr>) = translate s"
  "data_area (s\<lparr>msgs := y\<rparr>) A = data_area s A" "vview (s\<lparr>msgs := y\<rparr>) = vview s"
  "translate (s\<lparr>msgs := y\<rparr>) = translate s"
  "data_area (s\<lparr>iflag := b\<rparr>) A = data_area s A" "vview (s\<lparr>iflag := b\<rparr>) = vview s"
  "translate (s\<lparr>iflag := b\<rparr>) = translate s"
  by (rule vmm_agree; simp add: same_space_def)+

lemma current_update_area [simp]:
  "data_area (s\<lparr>current_address := c\<rparr>) A = data_area s A" "vview (s\<lparr>current_address := c\<rparr>) = vview s"
  "translate (s\<lparr>current_address := c\<rparr>) = translate s"
  by (rule vmm_agree; simp add: same_space_def)+

text \<open>Writing only in the kernel heap.\<close>

lemma km_write:
  assumes "ipc_inv s A" and "\<forall>a. a \<notin> km_area \<longrightarrow> m a = pmem s a"
  shows "data_area (s\<lparr>pmem := m\<rparr>) A" and "translate (s\<lparr>pmem := m\<rparr>) = translate s"
    and "a \<in> A \<Longrightarrow> vview (s\<lparr>pmem := m\<rparr>) a = (if a \<in> km_area then m a else vview s a)"
proof -
  have area: "data_area s A" and sub: "km_area \<subseteq> A" and id: "\<forall>a\<in>km_area. translate s a = Some a"
    using assms(1) by (simp_all add: ipc_inv_def)
  have inv: "vm_inv s" using area by (simp add: data_area_def)
  have "plain_mem s a" if "a \<in> km_area" for a
    using that area sub id by (fastforce simp: data_area_def)
  then have keep: "m a = pmem s a" if "\<not> plain_mem s a" for a using that assms(2) by blast
  note up = plain_update [OF inv keep]
  show tr: "translate (s\<lparr>pmem := m\<rparr>) = translate s" by (rule up(2))
  show "data_area (s\<lparr>pmem := m\<rparr>) A" using area up by (simp add: data_area_def)
  show "vview (s\<lparr>pmem := m\<rparr>) a = (if a \<in> km_area then m a else vview s a)" if a: "a \<in> A"
  proof (cases "a \<in> km_area")
    case True
    then show ?thesis using id by (simp add: vview_def up(2))
  next
    case False
    obtain p where p: "translate s a = Some p" using a area by (auto simp: data_area_def)
    have "p \<notin> km_area"
    proof
      assume "p \<in> km_area"
      then have "p \<in> A" "translate s p = Some p" using sub id by auto
      then have "p = a" using area a p by (auto simp: data_area_def inj_on_def)
      with False \<open>p \<in> km_area\<close> show False by simp
    qed
    then show ?thesis using False p assms(2) by (simp add: vview_def up(2))
  qed
qed

lemma span_small:
  assumes "unat p + unat n \<le> 2 ^ 32"
  shows "a \<in> span p n \<longleftrightarrow> unat p \<le> unat a \<and> unat a < unat p + unat n"
proof (cases "unat p \<le> unat a")
  case True
  then show ?thesis by (auto simp: span_def unat_diff_le)
next
  case False
  then have "unat (a - p) = 2 ^ 32 - (unat p - unat a)" by (simp add: unat_diff_wrap)
  with False assms show ?thesis by (auto simp: span_def)
qed

lemma cell_span: "cell p = span p 4"
proof -
  have "unat d < 4 \<longleftrightarrow> d = 0 \<or> d = 1 \<or> d = 2 \<or> d = 3" for d :: u32
  proof
    assume "unat d < 4"
    then have "unat d = 0 \<or> unat d = 1 \<or> unat d = 2 \<or> unat d = 3" by auto
    then show "d = 0 \<or> d = 1 \<or> d = 2 \<or> d = 3" by (auto simp: word_unat_eq_iff)
  qed auto
  then have "span p 4 = {a. a - p = 0 \<or> a - p = 1 \<or> a - p = 2 \<or> a - p = 3}"
    by (simp add: span_def)
  then show ?thesis by (auto simp: cell_def diff_eq_eq add.commute)
qed

lemma cell_small: "unat p + 4 \<le> 2 ^ 32 \<Longrightarrow> a \<in> cell p \<longleftrightarrow> unat p \<le> unat a \<and> unat a < unat p + 4"
  using span_small [of p 4 a] by (simp add: cell_span)

text \<open>An allocation in the kernel heap.\<close>

lemma ipc_alloc:
  assumes "ipc_inv s A" and "unat bytes + 16 \<le> km_room s"
  defines "p \<equiv> current_address s + 8"
    and "s1 \<equiv> s\<lparr>pmem := taken_mem (pmem s) (current_address s) bytes,
      current_address := current_address s + 8 + bytes\<rparr>"
  shows "kernel_malloc bytes s = Inr (p, s1)" and "ipc_inv s1 A" and "p \<noteq> 0" and "p \<notin> km_used s"
    and "km_used s \<subseteq> km_used s1" and "span p bytes \<subseteq> km_used s1 - km_used s"
    and "cell (p - 8) \<subseteq> km_used s1 - km_used s" and "cell (p - 8) \<inter> span p bytes = {}"
    and "\<And>a. a \<in> A \<Longrightarrow> a \<notin> km_area \<or> a \<in> km_used s \<Longrightarrow> vview s1 a = vview s a"
    and "km_room s1 + unat bytes + 8 = km_room s" and "0 < unat bytes \<Longrightarrow> p \<in> km_used s1"
proof -
  let ?c = "current_address s"
  let ?m = "taken_mem (pmem s) ?c bytes"
  have km: "km_inv s" using assms(1) by (simp add: ipc_inv_def task_inv_def)
  have lt: "unat bytes + 8 < km_room s" and le: "unat bytes + 8 \<le> km_room s" using assms(2) by simp_all
  note ar = km_arith [OF km le]
  have c: "0x00200000 \<le> unat ?c" "unat ?c + unat bytes + 16 \<le> 0x00300000"
    using km assms(2) by (auto simp: km_inv_def km_room_def)
  have p: "unat p = unat ?c + 8" "p - 8 = ?c" using ar(2) by (simp_all add: p_def)
  have cur: "current_address s1 = p + bytes" "unat (p + bytes) = unat ?c + 8 + unat bytes"
    using ar(3) by (simp_all add: s1_def p_def)
  have sp: "a \<in> span p bytes \<longleftrightarrow> unat ?c + 8 \<le> unat a \<and> unat a < unat ?c + 8 + unat bytes" for a
    using span_small [of p bytes a] c p by simp
  have ce: "a \<in> cell (p - 8) \<longleftrightarrow> unat ?c \<le> unat a \<and> unat a < unat ?c + 4" for a
    using cell_small [of ?c a] c by (simp add: p(2))
  have used: "a \<in> km_used s \<longleftrightarrow> 0x00200000 \<le> unat a \<and> unat a < unat ?c"
    "a \<in> km_used s1 \<longleftrightarrow> 0x00200000 \<le> unat a \<and> unat a < unat ?c + 8 + unat bytes" for a
    using cur by (simp_all add: km_used_def)
  show mal: "kernel_malloc bytes s = Inr (p, s1)" using kernel_malloc_tail [OF km le] by (simp add: p_def s1_def)
  show "p \<noteq> 0" using p(1) by auto
  show sub: "p \<notin> km_used s" "km_used s \<subseteq> km_used s1" "span p bytes \<subseteq> km_used s1 - km_used s"
    "cell (p - 8) \<subseteq> km_used s1 - km_used s" "cell (p - 8) \<inter> span p bytes = {}"
    "0 < unat bytes \<Longrightarrow> p \<in> km_used s1"
    using c p(1) by (auto simp: used sp ce)
  have out: "\<forall>a. a \<notin> km_area \<longrightarrow> ?m a = pmem s a"
    using c by (auto simp: km_area_def intro!: taken_mem_frame)
  note wr = km_write [OF assms(1) out]
  have "km_inv s1" using kernel_malloc_km_inv [OF km lt] by (simp add: s1_def)
  then show "ipc_inv s1 A"
    using assms(1) sub(2) wr(1,2) by (auto simp: ipc_inv_def task_inv_def s1_def)
  show "km_room s1 + unat bytes + 8 = km_room s" using cur c by (simp add: km_room_def)
  show "vview s1 a = vview s a" if a: "a \<in> A" "a \<notin> km_area \<or> a \<in> km_used s" for a
  proof (cases "a \<in> km_area")
    case True
    then have "?m a = pmem s a" using a(2) c by (auto simp: used intro!: taken_mem_frame)
    then show ?thesis using wr(3) [OF a(1)] True vview_km [OF assms(1) True] by (simp add: s1_def)
  next
    case False
    then show ?thesis using wr(3) [OF a(1)] by (simp add: s1_def)
  qed
qed

subsection \<open>The queue as a list of messages\<close>

definition mq_links :: "'a ipc_scheme \<Rightarrow> u32 \<rightharpoonup> u32" where
  "mq_links s = (\<lambda>p. map_option q_next (mnodes s p))"

interpretation mq: linked_list "mq_links :: 'a ipc_scheme \<Rightarrow> u32 \<rightharpoonup> u32" put_mnode q_next
  by unfold_locales (auto simp: mq_links_def put_mnode_def)

definition msg_span :: "'a ipc_scheme \<Rightarrow> u32 \<Rightarrow> u32 set" where
  "msg_span s x = span (q_data (the (mnodes s x))) (q_cbData (the (mnodes s x)))"

definition bytes_at :: "mem \<Rightarrow> u32 \<Rightarrow> u32 \<Rightarrow> u8 list" where
  "bytes_at m p n = map (\<lambda>i. m (p + of_nat i)) [0..<unat n]"

definition msg_of :: "'a ipc_scheme \<Rightarrow> u32 \<Rightarrow> u32 \<times> u8 list" where
  "msg_of s x = (let n = the (mnodes s x) in (q_tid n, bytes_at (vview s) (q_data n) (q_cbData n)))"

text \<open>
  The nodes \<open>xs\<close> hold the messages \<open>ms\<close>: payloads and block headers lie in the used part of the kernel
  heap, and no header of a node lies in a payload.
\<close>

definition msg_rep :: "'a ipc_scheme \<Rightarrow> u32 list \<Rightarrow> (u32 \<times> u8 list) list \<Rightarrow> bool" where
  "msg_rep s xs ms \<longleftrightarrow> mq.members s (msgs s) xs \<and> ms = map (msg_of s) xs
     \<and> (\<forall>x\<in>set xs. msg_span s x \<subseteq> km_used s \<and> cell (x - 8) \<subseteq> km_used s
          \<and> (\<forall>y\<in>set xs. cell (y - 8) \<inter> msg_span s x = {}))"

lemma bytes_at_cong:
  assumes "\<And>a. a \<in> span p n \<Longrightarrow> m' a = m a"
  shows "bytes_at m' p n = bytes_at m p n"
proof -
  have "p + of_nat i \<in> span p n" if "i < unat n" for i
    using that unat_u32_less [of n] by (simp add: span_def unat_of_nat_u32)
  then show ?thesis using assms by (simp add: bytes_at_def)
qed

lemma msg_rep_nodes:
  assumes "msg_rep s xs ms" and "x \<in> set xs"
  shows "\<exists>n. mnodes s x = Some n" and "x \<noteq> 0"
proof -
  have ch: "chain (mq_links s) (msgs s) xs" using assms(1) by (simp add: msg_rep_def mq.members_def)
  show "\<exists>n. mnodes s x = Some n" using chain_dom [OF ch assms(2)] by (auto simp: mq_links_def)
  show "x \<noteq> 0" using chain_nonzero [OF ch assms(2)] .
qed

text \<open>A step that keeps the nodes of the queue, their fields and their payloads.\<close>

lemma msg_of_frame:
  assumes "mnodes s' x = mnodes s x" and "\<forall>a\<in>msg_span s x. vview s' a = vview s a"
  shows "msg_of s' x = msg_of s x"
  using assms bytes_at_cong [of _ _ "vview s'" "vview s"] by (simp add: msg_of_def msg_span_def Let_def)

lemma msg_rep_frame:
  assumes "msg_rep s xs ms" and "\<forall>x\<in>set xs. mnodes s' x = mnodes s x" and "msgs s' = msgs s"
    and "km_used s \<subseteq> km_used s'" and "\<And>x a. x \<in> set xs \<Longrightarrow> a \<in> msg_span s x \<Longrightarrow> vview s' a = vview s a"
  shows "msg_rep s' xs ms"
proof -
  have sp: "msg_span s' x = msg_span s x" if "x \<in> set xs" for x using that assms(2) by (simp add: msg_span_def)
  have "msg_of s' x = msg_of s x" if x: "x \<in> set xs" for x
    by (rule msg_of_frame) (use assms(2,5) x in simp_all)
  moreover have "mq.members s' (msgs s') xs"
    using assms(1-3) unfolding msg_rep_def mq.members_def
    by (subst chain_cong [of xs _ "mq_links s"]) (auto simp: mq_links_def)
  ultimately show ?thesis using assms(1,4) sp unfolding msg_rep_def by (auto simp: subset_iff)
qed

lemma queue_end_msg:
  assumes "mq.members s p xs" and "p \<noteq> 0"
  shows "list_end (\<lambda>p. bindR (mnode_at p s) (\<lambda>n. Inr (q_next n))) loop_fuel p = Inr (last xs)"
proof (rule list_end_chain)
  show ch: "chain (mq_links s) p xs" using assms(1) by (simp add: mq.members_def)
  show "xs \<noteq> []" using assms by (auto simp: mq.members_def)
  show "length xs \<le> loop_fuel" using chain_fuel [OF ch] by simp
  fix x assume "x \<in> set xs"
  then obtain n where "mnodes s x = Some n" "x \<noteq> 0"
    using chain_dom [OF ch] chain_nonzero [OF ch] by (fastforce simp: mq_links_def)
  then show "bindR (mnode_at x s) (\<lambda>n. Inr (q_next n))
      = (case mq_links s x of None \<Rightarrow> Inl (WildPtr x) | Some q \<Rightarrow> Inr q)"
    by (simp add: mnode_at_def deref_def mq_links_def)
qed

text \<open>Linking a new node behind the queue.\<close>

lemma put_mnode_fields [simp]:
  "mnodes (put_mnode p n s) = (mnodes s)(p \<mapsto> n)" "msgs (put_mnode p n s) = msgs s"
  "vview (put_mnode p n s) = vview s" "data_area (put_mnode p n s) A = data_area s A"
  "translate (put_mnode p n s) = translate s" "km_used (put_mnode p n s) = km_used s"
  "km_room (put_mnode p n s) = km_room s" "task_inv (put_mnode p n s) = task_inv s"
  "currentHeap (put_mnode p n s) = currentHeap s" "iflag (put_mnode p n s) = iflag s"
  by (simp_all add: put_mnode_def km_used_def km_room_def task_inv_def km_inv_def)

lemma ipc_inv_put: "ipc_inv s A \<Longrightarrow> p \<in> km_used s \<Longrightarrow> ipc_inv (put_mnode p n s) A"
  by (auto simp: ipc_inv_def)

lemma enqueue_msg_appends:
  assumes "msg_rep s xs ms" and "mnodes s p = Some n" and "q_next n = 0" and "p \<noteq> 0" and "p \<notin> set xs"
    and "ipc_inv s A" and "msg_span s p \<subseteq> km_used s" and "cell (p - 8) \<subseteq> km_used s"
    and "\<forall>x\<in>set (xs @ [p]). cell (x - 8) \<inter> msg_span s p = {} \<and> cell (p - 8) \<inter> msg_span s x = {}"
  shows "\<exists>s'. enqueue_msg p s = Inr s' \<and> ipc_inv s' A \<and> msg_rep s' (xs @ [p]) (ms @ [msg_of s p])
    \<and> km_room s' = km_room s \<and> (\<exists>g h. s' = s\<lparr>mnodes := g, msgs := h\<rparr>)"
proof (cases "msgs s = 0")
  case True
  let ?s = "s\<lparr>msgs := p\<rparr>"
  have xs: "xs = []" using assms(1) True by (simp add: msg_rep_def mq.members_def)
  have "mq.members ?s p [p]" using assms(2-4) by (simp add: mq.members_def mq_links_def)
  moreover have "msg_of ?s p = msg_of s p" by (rule msg_of_frame) simp_all
  moreover have "msg_span ?s p = msg_span s p" "km_used ?s = km_used s" by (simp_all add: msg_span_def km_used_def)
  ultimately have "msg_rep ?s (xs @ [p]) (ms @ [msg_of s p])"
    using xs assms by (simp add: msg_rep_def)
  moreover have "ipc_inv ?s A"
    using assms(6) by (simp add: ipc_inv_def task_inv_def km_inv_def km_used_def)
  ultimately show ?thesis
    using True by (intro exI [of _ ?s]) (auto simp: enqueue_msg_def km_room_def intro!: exI [of _ "mnodes s"])
next
  case False
  have mem: "mq.members s (msgs s) xs" using assms(1) by (simp add: msg_rep_def)
  then have ne: "xs \<noteq> []" using False by (auto simp: mq.members_def)
  then have l: "last xs \<in> set xs" by simp
  obtain m where m: "mnodes s (last xs) = Some m" "last xs \<noteq> 0" using msg_rep_nodes [OF assms(1) l] by blast
  let ?s = "put_mnode (last xs) (m\<lparr>q_next := p\<rparr>) s"
  have lp: "last xs \<noteq> p" using l assms(5) by auto
  have same: "msg_of ?s x = msg_of s x" "msg_span ?s x = msg_span s x" for x
    using m by (auto simp: msg_of_def msg_span_def Let_def)
  have "mq.members ?s (msgs s) (xs @ [p])"
    by (rule mq.append_node [OF mem ne assms(5,4)]) (use assms(2,3) in \<open>simp_all add: mq_links_def\<close>)
  then have "msg_rep ?s (xs @ [p]) (ms @ [msg_of s p])"
    using assms(1,7-9) unfolding msg_rep_def by (simp add: same)
  moreover have "ipc_inv ?s A"
  proof (rule ipc_inv_put [OF assms(6)])
    show "last xs \<in> km_used s" using assms(6) m by (auto simp: ipc_inv_def)
  qed
  moreover have "enqueue_msg p s = Inr ?s"
    using False queue_end_msg [OF mem False] m by (simp add: enqueue_msg_def set_q_next_def mnode_at_def deref_def)
  ultimately show ?thesis
    by (intro exI [of _ ?s]) (auto simp: put_mnode_def km_room_def intro!: exI [of _ "msgs s"])
qed

subsection \<open>Sending\<close>

lemma wrote_ipc_fields:
  assumes "wrote s A m s'"
  shows "mnodes s' = mnodes s" "msgs s' = msgs s" "km_used s' = km_used s" "km_room s' = km_room s"
    "tnodes s' = tnodes s" "threads s' = threads s" "current_thread s' = current_thread s"
    "ready_queue s' = ready_queue s" "currentHeap s' = currentHeap s" "current_address s' = current_address s"
  using assms by (auto simp: wrote_def km_used_def km_room_def)

lemma hdr_current:
  assumes "km_inv s" and "8 \<le> km_room s" and "a \<in> hdr_cells (current_address s)"
  shows "a \<in> km_area" and "a \<notin> km_used s"
proof -
  let ?c = "current_address s"
  have c: "0x00200000 \<le> unat ?c" "unat ?c + 8 \<le> 0x00300000"
    using assms(1,2) by (auto simp: km_inv_def km_room_def)
  have "unat (?c + 4) = unat ?c + 4" using c by (subst unat_add_small) simp_all
  then have "unat ?c \<le> unat a \<and> unat a < unat ?c + 8"
    using assms(3) cell_small [of ?c a] cell_small [of "?c + 4" a] c by (auto simp: hdr_cells_def)
  then show "a \<in> km_area" "a \<notin> km_used s" using c by (auto simp: km_area_def km_used_def)
qed

lemma ipc_inv_wrote:
  assumes "ipc_inv s A" and "wrote s A m s'" and "8 \<le> km_room s"
    and "\<forall>a\<in>hdr_cells (current_address s). m a = vview s a"
  shows "ipc_inv s' A"
proof -
  let ?c = "current_address s"
  have km: "km_inv s" using assms(1) by (simp add: ipc_inv_def task_inv_def)
  have inA: "km_area \<subseteq> A" using assms(1) by (simp add: ipc_inv_def)
  have tr: "translate s' = translate s" by (rule wroteD(3) [OF assms(2)])
  note hd = hdr_current(1) [OF km assms(3)]
  have "pmem s' a = pmem s a" if a: "a \<in> hdr_cells ?c" for a
  proof -
    have "translate s' a = Some a" using hd [OF a] assms(1) tr by (simp add: ipc_inv_def)
    then have "pmem s' a = vview s' a" by (simp add: vview_def)
    also have "\<dots> = vview s a" using wroteD(6) [OF assms(2), of a] hd [OF a] inA assms(4) a by auto
    finally show ?thesis using vview_km [OF assms(1) hd [OF a]] by simp
  qed
  then have ld: "load32 (pmem s') ?c = load32 (pmem s) ?c" "load32 (pmem s') (?c + 4) = load32 (pmem s) (?c + 4)"
    by (simp_all add: load32_def hdr_cells_def cell_def)
  obtain co q where "s' = s\<lparr>con := co, pmem := q\<rparr>" using assms(2) by (auto simp: wrote_def)
  then have "km_inv s'" using km ld by (simp add: km_inv_def mb_is_available_def mb_size_def)
  moreover note f = wrote_ipc_fields [OF assms(2)]
  ultimately show ?thesis
    using assms(1) wroteD(2) [OF assms(2)] tr by (simp add: ipc_inv_def task_inv_def)
qed

lemma bytes_at_memcpy:
  assumes "span q n \<inter> span p n = {}"
  shows "bytes_at (memcpy m q p n) q n = bytes_at m p n"
    and "a \<notin> span q n \<Longrightarrow> memcpy m q p n a = m a"
proof -
  have "q = p \<or> unat n \<le> unat (q - p)"
  proof (cases "n = 0")
    case False
    then have "q \<notin> span p n" using assms span_step(1) [OF False, of q] by blast
    then show ?thesis by (simp add: span_def not_less)
  qed simp
  note cp = memcpy_apply [OF this]
  have "memcpy m q p n (q + of_nat i) = m (p + of_nat i)" if "i < unat n" for i
    using that unat_u32_less [of n] by (simp add: cp unat_of_nat_u32)
  then show "bytes_at (memcpy m q p n) q n = bytes_at m p n" by (simp add: bytes_at_def)
  show "a \<notin> span q n \<Longrightarrow> memcpy m q p n a = m a" by (simp add: cp span_def)
qed

lemma cli_sti_fields [simp]:
  "mnodes (cli s) = mnodes s" "msgs (cli s) = msgs s" "km_used (cli s) = km_used s" "km_room (cli s) = km_room s"
  "vview (cli s) = vview s" "current_address (cli s) = current_address s" "tnodes (cli s) = tnodes s"
  "threads (cli s) = threads s" "currentHeap (cli s) = currentHeap s" "ipc_inv (cli s) A = ipc_inv s A"
  "mnodes (sti s) = mnodes s" "msgs (sti s) = msgs s" "km_used (sti s) = km_used s" "km_room (sti s) = km_room s"
  "vview (sti s) = vview s" "ipc_inv (sti s) A = ipc_inv s A" "iflag (sti s)" "current_thread (cli s) = current_thread s"
  "ready_queue (cli s) = ready_queue s"
  by (simp_all add: cli_def sti_def km_used_def km_room_def ipc_inv_def task_inv_def km_inv_def)

lemma msg_rep_cli [simp]:
  "msg_rep (cli s) xs ms = msg_rep s xs ms" "msg_rep (sti s) xs ms = msg_rep s xs ms"
  by (simp_all add: msg_rep_def mq.members_def mq_links_def msg_span_def msg_of_def cong: map_cong)

lemma isRunning_cli: "isRunning i (cli s) = isRunning i (s :: 'a ipc_scheme)"
proof -
  have "running_loop k i it (cli s) = running_loop k i it s" for k it
    by (induction k arbitrary: it) (simp_all add: tnode_at_def thread_at_def cong: if_cong)
  then show ?thesis by (simp add: isRunning_def currentThread_def tnode_at_def thread_at_def del: running_loop.simps cong: if_cong)
qed

text \<open>What sending may change: memory, the console, the kernel heap, the queue and the interrupt flag.\<close>

definition ipc_step :: "'a ipc_scheme \<Rightarrow> 'a ipc_scheme \<Rightarrow> bool" where
  "ipc_step s s' \<longleftrightarrow> (\<exists>co q ca mn mq b. s' = s\<lparr>con := co, pmem := q, current_address := ca, mnodes := mn,
     msgs := mq, iflag := b\<rparr>)"

lemma ipc_step_fields:
  assumes "ipc_step s s'"
  shows "tnodes s' = tnodes s" and "threads s' = threads s" and "current_thread s' = current_thread s"
    and "ready_queue s' = ready_queue s" and "currentHeap s' = currentHeap s" and "ipc.more s' = ipc.more s"
  using assms by (auto simp: ipc_step_def)

lemma sendMessage_queue:
  assumes "ipc_inv s A" and "msg_rep s xs ms" and "isRunning i s = Inr True" and "unat n + 48 \<le> km_room s"
    and "span p n \<subseteq> A" and "\<forall>a\<in>span p n. a \<in> km_area \<longrightarrow> a \<in> km_used s"
  shows "\<exists>s' xs'. sendMessage i p n s = Inr s' \<and> ipc_inv s' A
    \<and> msg_rep s' xs' (ms @ [(i, bytes_at (vview s) p n)]) \<and> km_room s' + unat n + 32 = km_room s \<and> iflag s'
    \<and> ipc_step s s'"
proof -
  define s0 where "s0 = cli s"
  have i0: "ipc_inv s0 A" and r0: "unat (16 :: u32) + 16 \<le> km_room s0"
    using assms(1,4) by (simp_all add: s0_def)
  define x where "x = current_address s0 + 8"
  define s1 where "s1 = s0\<lparr>pmem := taken_mem (pmem s0) (current_address s0) 16,
      current_address := current_address s0 + 8 + 16\<rparr>"
  note a1 = ipc_alloc [OF i0 r0, folded x_def s1_def]
  define nd where "nd = \<lparr>q_tid = i, q_cbData = n, q_data = load32 (pmem s1) (x + 8), q_next = 0\<rparr>"
  define s2 where "s2 = put_mnode x nd s1"
  have i2: "ipc_inv s2 A" using ipc_inv_put [OF a1(2)] a1(11) r0 by (simp add: s2_def)
  have r2: "unat n + 16 \<le> km_room s2" using a1(10) r0 assms(4) by (simp add: s2_def s0_def)
  define q where "q = current_address s2 + 8"
  define s3 where "s3 = s2\<lparr>pmem := taken_mem (pmem s2) (current_address s2) n,
      current_address := current_address s2 + 8 + n\<rparr>"
  note a3 = ipc_alloc [OF i2 r2, folded q_def s3_def]
  define s4 where "s4 = put_mnode x (nd\<lparr>q_data := q\<rparr>) s3"
  have used: "km_used s \<subseteq> km_used s2" "km_used s2 \<subseteq> km_used s4" "x \<in> km_used s4" "x \<notin> km_used s"
    using a1(4,5,11) a3(5) r0 by (auto simp: s2_def s4_def s0_def)
  have i4: "ipc_inv s4 A" using ipc_inv_put [OF a3(2)] used(3) by (simp add: s4_def)
  have sp: "span q n \<subseteq> km_used s4" "span q n \<inter> km_used s2 = {}" using a3(6) by (auto simp: s4_def)
  have km4: "km_inv s4" and area4: "data_area s4 A" and sub: "km_area \<subseteq> A"
    using i4 by (simp_all add: ipc_inv_def task_inv_def)
  have spA: "span q n \<subseteq> A" using sp km_used_area [OF km4] sub by blast
  have apart: "span q n \<inter> span p n = {}" using sp km_used_area [OF km4] used(1) assms(6) by blast
  have view: "vview s4 a = vview s a" if "a \<in> A" "a \<notin> km_area \<or> a \<in> km_used s" for a
    using that a1(9) a3(9) used(1) by (auto simp: s4_def s2_def s0_def)
  obtain s5 where s5: "vmemcpy q p n s4 = Inr s5" "wrote s4 A (memcpy (vview s4) q p n) s5"
    using vmemcpy_area [OF area4 spA assms(5)] by blast
  note f5 = wrote_ipc_fields [OF s5(2)] and cp = bytes_at_memcpy [OF apart, where m = "vview s4"]
  have r4: "km_room s4 + unat n + 32 = km_room s" using a1(10) a3(10) r0 assms(4) by (simp add: s4_def s2_def s0_def)
  have i5: "ipc_inv s5 A"
  proof (rule ipc_inv_wrote [OF i4 s5(2)])
    show r: "8 \<le> km_room s4" using r4 assms(4) by simp
    show "\<forall>a\<in>hdr_cells (current_address s4). memcpy (vview s4) q p n a = vview s4 a"
      using hdr_current(2) [OF km4 r] sp(1) cp(2) by blast
  qed
  have view5: "vview s5 a = memcpy (vview s4) q p n a" if "a \<in> A" for a using wroteD(6) [OF s5(2) that] .
  have kA: "km_used s \<subseteq> A" using used(1,2) km_used_area [OF km4] sub by blast
  have nodes: "set xs \<subseteq> km_used s"
    using msg_rep_nodes(1) [OF assms(2)] assms(1) by (auto simp: ipc_inv_def)
  then have xn: "x \<notin> set xs" using used(4) by blast
  have mn: "mnodes s5 = (mnodes s)(x \<mapsto> nd\<lparr>q_data := q\<rparr>)" and ms: "msgs s5 = msgs s"
    using f5(1,2) by (simp_all add: s4_def s3_def s2_def s1_def s0_def)
  have rep5: "msg_rep s5 xs ms"
  proof (rule msg_rep_frame [OF assms(2)])
    show "\<forall>y\<in>set xs. mnodes s5 y = mnodes s y" using mn xn by auto
    show "km_used s \<subseteq> km_used s5" using used f5(3) by blast
    show "vview s5 a = vview s a" if xa: "y \<in> set xs" "a \<in> msg_span s y" for y a
    proof -
      have a: "a \<in> km_used s" using xa assms(2) by (auto simp: msg_rep_def)
      have "a \<in> A" "a \<notin> span q n" using a kA used(1) sp(2) by blast+
      then show ?thesis using view5 [of a] view [of a] cp(2) [of a] a by simp
    qed
  qed (rule ms)
  have mx: "mnodes s5 x = Some (nd\<lparr>q_data := q\<rparr>)" using mn by simp
  have spx: "msg_span s5 x = span q n" using mx by (simp add: msg_span_def nd_def)
  have cx: "cell (x - 8) \<subseteq> km_used s2" "cell (x - 8) \<inter> km_used s = {}"
    using a1(7) r0 by (auto simp: s2_def s0_def)
  have mo: "msg_of s5 x = (i, bytes_at (vview s) p n)"
  proof -
    have "msg_of s5 x = (i, bytes_at (vview s5) q n)" using mx by (simp add: msg_of_def nd_def)
    also have "bytes_at (vview s5) q n = bytes_at (memcpy (vview s4) q p n) q n"
      by (rule bytes_at_cong) (use view5 spA in blast)
    also have "\<dots> = bytes_at (vview s4) p n" by (rule cp(1))
    also have "\<dots> = bytes_at (vview s) p n" by (rule bytes_at_cong) (use view assms(5,6) in blast)
    finally show ?thesis .
  qed
  have sep: "\<forall>y\<in>set (xs @ [x]). cell (y - 8) \<inter> msg_span s5 x = {} \<and> cell (x - 8) \<inter> msg_span s5 y = {}"
  proof
    fix y assume y: "y \<in> set (xs @ [x])"
    show "cell (y - 8) \<inter> msg_span s5 x = {} \<and> cell (x - 8) \<inter> msg_span s5 y = {}"
    proof (cases "y = x")
      case True
      then show ?thesis using spx sp(2) cx(1) by auto
    next
      case False
      then have ys: "y \<in> set xs" using y by simp
      have "cell (y - 8) \<subseteq> km_used s" using assms(2) ys by (simp add: msg_rep_def)
      moreover have "msg_span s5 y = msg_span s y" using mn False by (simp add: msg_span_def)
      moreover have "msg_span s y \<subseteq> km_used s" using assms(2) ys by (simp add: msg_rep_def)
      ultimately show ?thesis using spx sp(2) cx used(1) by blast
    qed
  qed
  have cx5: "cell (x - 8) \<subseteq> km_used s5" "msg_span s5 x \<subseteq> km_used s5" "q_next (nd\<lparr>q_data := q\<rparr>) = 0"
    using cx(1) used(2) f5(3) spx sp(1) by (auto simp: nd_def)
  obtain s6 where s6: "enqueue_msg x s5 = Inr s6" "ipc_inv s6 A"
    "msg_rep s6 (xs @ [x]) (ms @ [(i, bytes_at (vview s) p n)])" "km_room s6 = km_room s5"
    "\<exists>g h. s6 = s5\<lparr>mnodes := g, msgs := h\<rparr>"
    using enqueue_msg_appends [OF rep5 mx cx5(3) a1(3) xn i5 cx5(2,1) sep] mo by auto
  have "mnodes s3 x = Some nd" by (simp add: s3_def s2_def)
  then have "sendMessage i p n s = Inr (sti s6)"
    using assms(3) a1(1,3) a3(1) s5(1) s6(1) r0
    by (simp add: sendMessage_def Let_def s0_def [symmetric] isRunning_cli [of i s, folded s0_def] sizeof_dataq_def
        init_mnode_def nd_def [symmetric] s2_def [symmetric] s4_def [symmetric] mnode_at_def deref_def)
  moreover have "ipc_step s (sti s6)"
  proof -
    obtain c5 q5 where "s5 = s4\<lparr>con := c5, pmem := q5\<rparr>" using s5(2) by (auto simp: wrote_def)
    moreover obtain g h where "s6 = s5\<lparr>mnodes := g, msgs := h\<rparr>" using s6(5) by blast
    ultimately show ?thesis
      unfolding ipc_step_def
      by (intro exI [of _ c5] exI [of _ q5] exI [of _ "current_address s4"] exI [of _ g] exI [of _ h] exI [of _ True])
        (simp add: s4_def s3_def s2_def s1_def s0_def put_mnode_def cli_def sti_def)
  qed
  ultimately show ?thesis using s6 r4 f5(4) by (intro exI [of _ "sti s6"] exI [of _ "xs @ [x]"]) simp
qed

subsection \<open>Taking messages out of the queue\<close>

lemma kernel_free_ipc:
  assumes "ipc_inv s A" and "x \<in> km_used s" and "cell (x - 8) \<subseteq> km_used s"
  shows "ipc_inv (kernel_free x s) A" and "km_used (kernel_free x s) = km_used s"
    and "mnodes (kernel_free x s) = mnodes s" and "msgs (kernel_free x s) = msgs s"
    and "km_room (kernel_free x s) = km_room s"
    and "a \<in> A \<Longrightarrow> a \<notin> cell (x - 8) \<Longrightarrow> vview (kernel_free x s) a = vview s a"
proof -
  let ?m = "store32 (pmem s) (x - 8) 1"
  have eq: "kernel_free x s = s\<lparr>pmem := ?m\<rparr>" by (simp add: kernel_free_def set_is_available_def cbBlock_def)
  have ti: "task_inv s" and km: "km_inv s" using assms(1) by (simp_all add: ipc_inv_def task_inv_def)
  have out: "\<forall>a. a \<notin> km_area \<longrightarrow> ?m a = pmem s a"
    using assms(3) km_used_area [OF km] by (auto intro!: store32_notin)
  note wr = km_write [OF assms(1) out]
  show used: "km_used (kernel_free x s) = km_used s" and "mnodes (kernel_free x s) = mnodes s"
    and "msgs (kernel_free x s) = msgs s" and "km_room (kernel_free x s) = km_room s"
    by (simp_all add: eq km_used_def km_room_def)
  show "ipc_inv (kernel_free x s) A"
    using assms(1) task_inv_free [OF ti assms(2)] wr(1,2) used by (simp add: ipc_inv_def eq)
  show "vview (kernel_free x s) a = vview s a" if "a \<in> A" "a \<notin> cell (x - 8)"
    using that wr(3) vview_km [OF assms(1)] by (simp add: eq store32_notin)
qed

lemma msg_rep_msgs: "msg_rep s xs ms \<Longrightarrow> ms = map (msg_of s) xs"
  by (simp add: msg_rep_def)

lemma msg_rep_in:
  assumes "msg_rep s xs ms" and "ipc_inv s A" and "x \<in> set xs"
  shows "x \<in> km_used s" and "cell (x - 8) \<subseteq> km_used s" and "msg_span s x \<subseteq> km_used s"
    and "y \<in> set xs \<Longrightarrow> cell (y - 8) \<inter> msg_span s x = {}"
  using assms msg_rep_nodes(1) [OF assms(1,3)] by (auto simp: msg_rep_def ipc_inv_def)

lemma km_used_in: "ipc_inv s A \<Longrightarrow> km_used s \<subseteq> A"
  using km_used_area [of s] by (auto simp: ipc_inv_def task_inv_def)

text \<open>Freeing a node that is out of the queue.\<close>

lemma msg_rep_free:
  assumes "msg_rep s xs ms" and "ipc_inv s A" and "y \<in> km_used s" and "cell (y - 8) \<subseteq> km_used s"
    and "\<forall>x\<in>set xs. cell (y - 8) \<inter> msg_span s x = {}"
  shows "msg_rep (kernel_free y s) xs ms" and "ipc_inv (kernel_free y s) A"
proof -
  note f = kernel_free_ipc [OF assms(2-4)]
  show "ipc_inv (kernel_free y s) A" by (rule f(1))
  show "msg_rep (kernel_free y s) xs ms"
  proof (rule msg_rep_frame [OF assms(1)])
    show "vview (kernel_free y s) a = vview s a" if "x \<in> set xs" "a \<in> msg_span s x" for x a
    proof (rule f(6))
      show "a \<in> A" using that msg_rep_in(3) [OF assms(1,2)] km_used_in [OF assms(2)] by blast
      show "a \<notin> cell (y - 8)" using that assms(5) by blast
    qed
  qed (use f in simp_all)
qed

lemma msg_of_put [simp]:
  assumes "mnodes s p = Some n"
  shows "msg_of (put_mnode p (n\<lparr>q_next := q\<rparr>) s) x = msg_of s x"
    and "msg_span (put_mnode p (n\<lparr>q_next := q\<rparr>) s) x = msg_span s x"
  using assms by (auto simp: msg_of_def msg_span_def Let_def)

lemma msg_rep_unlink:
  assumes "msg_rep s (xs @ x # y # ys) ms" and "ipc_inv s A" and "mnodes s x = Some n" and "mnodes s y = Some m"
  defines "s' \<equiv> kernel_free y (put_mnode x (n\<lparr>q_next := q_next m\<rparr>) s)"
  shows "msg_rep s' (xs @ x # ys) (map (msg_of s) (xs @ x # ys))" and "ipc_inv s' A"
proof -
  let ?s = "put_mnode x (n\<lparr>q_next := q_next m\<rparr>) s"
  have mem: "mq.members s (msgs s) (xs @ x # y # ys)" using assms(1) by (simp add: msg_rep_def)
  have "mq.members ?s (msgs s) (xs @ x # ys)"
    by (rule mq.unlink_node [OF mem]) (use assms(4) in \<open>simp add: mq_links_def\<close>)
  then have rep: "msg_rep ?s (xs @ x # ys) (map (msg_of s) (xs @ x # ys))"
    using assms(1,3) unfolding msg_rep_def by simp
  have x: "x \<in> km_used s" using msg_rep_in(1) [OF assms(1,2), of x] by simp
  have y: "y \<in> km_used ?s" "cell (y - 8) \<subseteq> km_used ?s" using msg_rep_in(1,2) [OF assms(1,2), of y] by simp_all
  have sep: "\<forall>z\<in>set (xs @ x # ys). cell (y - 8) \<inter> msg_span ?s z = {}"
    using msg_rep_in(4) [OF assms(1,2), of _ y] assms(3) by auto
  show "msg_rep s' (xs @ x # ys) (map (msg_of s) (xs @ x # ys))" "ipc_inv s' A"
    unfolding s'_def using msg_rep_free [OF rep ipc_inv_put [OF assms(2) x] y sep] by simp_all
qed

lemma msg_rep_drop_head:
  assumes "msg_rep s (x # xs) ms" and "ipc_inv s A" and "mnodes s x = Some n"
  defines "s' \<equiv> kernel_free x (s\<lparr>msgs := q_next n\<rparr>)"
  shows "msg_rep s' xs (map (msg_of s) xs)" and "ipc_inv s' A"
proof -
  let ?s = "s\<lparr>msgs := q_next n\<rparr>"
  have f: "km_used ?s = km_used s" "msg_span ?s z = msg_span s z" "msg_of ?s z = msg_of s z" for z
    by (simp_all add: km_used_def msg_span_def msg_of_def)
  have "mq.members ?s (q_next n) xs"
    using assms(1,3) by (auto simp: msg_rep_def mq.members_def mq_links_def)
  then have rep: "msg_rep ?s xs (map (msg_of s) xs)"
    using assms(1) f unfolding msg_rep_def by simp
  have inv: "ipc_inv ?s A"
    using assms(2) by (simp add: ipc_inv_def task_inv_def km_inv_def km_used_def)
  have x: "x \<in> km_used ?s" "cell (x - 8) \<subseteq> km_used ?s"
    using msg_rep_in(1,2) [OF assms(1,2), of x] f(1) by simp_all
  have sep: "\<forall>z\<in>set xs. cell (x - 8) \<inter> msg_span ?s z = {}"
    using msg_rep_in(4) [OF assms(1,2), of _ x] f(2) by auto
  show "msg_rep s' xs (map (msg_of s) xs)" "ipc_inv s' A"
    unfolding s'_def using msg_rep_free [OF rep inv x sep] by simp_all
qed

subsection \<open>Receiving\<close>

text \<open>A block of \<open>n\<close> bytes at \<open>d\<close> from the heap of the running process, outside the kernel heap.\<close>

definition fresh_block :: "'a ipc_scheme \<Rightarrow> u32 set \<Rightarrow> u32 \<Rightarrow> u32 \<Rightarrow> 'a ipc_scheme \<Rightarrow> bool" where
  "fresh_block s A n d s' \<longleftrightarrow> kmalloc (currentHeap s) n s = Inr (d, s') \<and> wrote s A (vview s') s'
     \<and> (\<forall>a\<in>km_area. vview s' a = vview s a) \<and> span d n \<subseteq> A - km_area"

lemma take_payload_copies:
  assumes "fresh_block s A (q_cbData m) d s1" and "ipc_inv s A" and "8 \<le> km_room s"
    and "span (q_data m) (q_cbData m) \<subseteq> km_used s"
  shows "\<exists>s2. take_payload m s = Inr (d, s2) \<and> ipc_inv s2 A \<and> wrote s A (vview s2) s2
    \<and> (\<forall>a\<in>km_area. vview s2 a = vview s a)
    \<and> bytes_at (vview s2) d (q_cbData m) = bytes_at (vview s) (q_data m) (q_cbData m)"
proof -
  let ?p = "q_data m" and ?n = "q_cbData m"
  have km: "km_inv s" and sub: "km_area \<subseteq> A" using assms(2) by (simp_all add: ipc_inv_def task_inv_def)
  have pk: "span ?p ?n \<subseteq> km_area" using assms(4) km_used_area [OF km] by blast
  have w1: "wrote s A (vview s1) s1" and v1: "\<forall>a\<in>km_area. vview s1 a = vview s a"
    and d: "span d ?n \<subseteq> A - km_area" using assms(1) by (simp_all add: fresh_block_def)
  have apart: "span d ?n \<inter> span ?p ?n = {}" using d pk by blast
  note cp = bytes_at_memcpy [OF apart, where m = "vview s1"]
  obtain s2 where s2: "vmemcpy d ?p ?n s1 = Inr s2" "wrote s1 A (memcpy (vview s1) d ?p ?n) s2"
    using vmemcpy_area [OF wroteD(2) [OF w1]] d pk sub by blast
  have v2: "vview s2 a = memcpy (vview s1) d ?p ?n a" if "a \<in> A" for a by (rule wroteD(6) [OF s2(2) that])
  have w2: "wrote s A (vview s2) s2"
    by (rule wrote_cong [OF wrote_trans [OF w1 s2(2)]]) (simp add: v2)
  have same: "\<forall>a\<in>km_area. vview s2 a = vview s a"
  proof
    fix a assume a: "a \<in> km_area"
    then have "a \<notin> span d ?n" "a \<in> A" using d sub by auto
    then show "vview s2 a = vview s a" using v2 cp(2) v1 a by simp
  qed
  have "ipc_inv s2 A"
    by (rule ipc_inv_wrote [OF assms(2) w2 assms(3)]) (use same hdr_current(1) [OF km assms(3)] in blast)
  moreover have "bytes_at (vview s2) d ?n = bytes_at (vview s) ?p ?n"
  proof -
    have "bytes_at (vview s2) d ?n = bytes_at (memcpy (vview s1) d ?p ?n) d ?n"
      by (rule bytes_at_cong) (use v2 d in blast)
    also have "\<dots> = bytes_at (vview s1) ?p ?n" by (rule cp(1))
    also have "\<dots> = bytes_at (vview s) ?p ?n" by (rule bytes_at_cong) (use v1 pk in blast)
    finally show ?thesis .
  qed
  moreover have "take_payload m s = Inr (d, s2)"
    using assms(1) s2(1) by (simp add: take_payload_def fresh_block_def)
  ultimately show ?thesis using w2 same by blast
qed

lemma msg_rep_wrote:
  assumes "msg_rep s xs ms" and "ipc_inv s A" and "wrote s A m s'" and "\<forall>a\<in>km_area. vview s' a = vview s a"
  shows "msg_rep s' xs ms"
proof (rule msg_rep_frame [OF assms(1)])
  note f = wrote_ipc_fields [OF assms(3)]
  show "\<forall>x\<in>set xs. mnodes s' x = mnodes s x" "msgs s' = msgs s" "km_used s \<subseteq> km_used s'" by (simp_all add: f)
  show "vview s' a = vview s a" if "x \<in> set xs" "a \<in> msg_span s x" for x a
    using that msg_rep_in(3) [OF assms(1,2)] km_used_area [of s] assms(2,4)
    by (auto simp: ipc_inv_def task_inv_def)
qed

abbreviation node_tid :: "'a ipc_scheme \<Rightarrow> u32 \<Rightarrow> u32" where
  "node_tid s x \<equiv> q_tid (the (mnodes s x))"

declare receive_loop.simps(2) [simp del]

lemma receive_loop_finds:
  assumes "chain (mq_links s) it (it # xs @ y # ys)" and "\<forall>z\<in>set xs. node_tid s z \<noteq> i" and "node_tid s y = i"
    and "length xs < k" and "mnodes s y = Some m" and "take_payload m s = Inr (d, s1)" and "mnodes s1 = mnodes s"
    and "mnodes s (last (it # xs)) = Some l"
  shows "receive_loop k i it s = Inr (d, Some (q_cbData m),
    sti (kernel_free y (put_mnode (last (it # xs)) (l\<lparr>q_next := q_next m\<rparr>) s1)))"
  using assms(1,2,4,8)
proof (induction xs arbitrary: it k)
  case Nil
  then obtain j where j: "k = Suc j" by (cases k) auto
  from Nil have it: "it \<noteq> 0" "mnodes s it = Some l" "q_next l = y" "y \<noteq> 0" by (auto simp: mq_links_def)
  then show ?case
    using assms(3,5-7) by (simp add: j receive_loop.simps(2) mnode_at_def deref_def set_q_next_def)
next
  case (Cons z xs)
  then obtain j where j: "k = Suc j" by (cases k) auto
  from Cons.prems(1) obtain n n' where n: "it \<noteq> 0" "mnodes s it = Some n" "q_next n = z" "z \<noteq> 0" "mnodes s z = Some n'"
    "chain (mq_links s) z (z # xs @ y # ys)" by (auto simp: mq_links_def)
  have "q_tid n' \<noteq> i" using Cons.prems(2) n(5) by simp
  then have "receive_loop k i it s = receive_loop j i z s"
    using n by (simp add: j receive_loop.simps(2) mnode_at_def deref_def)
  with Cons.IH [OF n(6), of j] Cons.prems(2-4) j show ?case by simp
qed

lemma receive_loop_none:
  assumes "chain (mq_links s) it (it # xs)" and "\<forall>z\<in>set xs. node_tid s z \<noteq> i" and "length xs < k"
  shows "receive_loop k i it s = Inr (0, None, sti s)"
  using assms
proof (induction xs arbitrary: it k)
  case Nil
  then obtain j where j: "k = Suc j" by (cases k) auto
  from Nil show ?case by (auto simp: j receive_loop.simps(2) mnode_at_def deref_def mq_links_def)
next
  case (Cons z xs)
  then obtain j where j: "k = Suc j" by (cases k) auto
  from Cons.prems(1) obtain n n' where n: "it \<noteq> 0" "mnodes s it = Some n" "q_next n = z" "z \<noteq> 0" "mnodes s z = Some n'"
    "chain (mq_links s) z (z # xs)" by (auto simp: mq_links_def)
  have "q_tid n' \<noteq> i" using Cons.prems(2) n(5) by simp
  then have "receive_loop k i it s = receive_loop j i z s"
    using n by (simp add: j receive_loop.simps(2) mnode_at_def deref_def)
  with Cons.IH [OF n(6), of j] Cons.prems(2-3) j show ?case by simp
qed

lemma bytes_at_free:
  assumes "ipc_inv s A" and "x \<in> km_used s" and "cell (x - 8) \<subseteq> km_used s" and "span d n \<subseteq> A - km_area"
  shows "bytes_at (vview (kernel_free x s)) d n = bytes_at (vview s) d n"
proof (rule bytes_at_cong)
  fix a assume "a \<in> span d n"
  then have "a \<in> A" "a \<notin> km_area" using assms(4) by auto
  moreover have "cell (x - 8) \<subseteq> km_area"
    using assms(1,3) km_used_area [of s] by (auto simp: ipc_inv_def task_inv_def)
  ultimately show "vview (kernel_free x s) a = vview s a" using kernel_free_ipc(6) [OF assms(1-3)] by blast
qed

lemma msg_of_length: "msg_of s y = (i, bs) \<Longrightarrow> q_cbData (the (mnodes s y)) = of_nat (length bs)"
  by (auto simp: msg_of_def bytes_at_def Let_def)

lemma receive_first:
  assumes "ipc_inv s A" and "msg_rep s xs ms" and "currentThread s = Inr i" and "8 \<le> km_room s"
    and "ms = as @ (i, bs) # cs" and "\<forall>m\<in>set as. fst m \<noteq> i"
    and "fresh_block (cli s) A (of_nat (length bs)) d s1"
  shows "\<exists>s' xs'. receiveMessage s = Inr (d, Some (of_nat (length bs)), s') \<and> ipc_inv s' A
    \<and> msg_rep s' xs' (as @ cs) \<and> bytes_at (vview s') d (of_nat (length bs)) = bs \<and> iflag s'"
proof -
  define s0 where "s0 = cli s"
  let ?n = "of_nat (length bs) :: u32"
  have inv: "ipc_inv s0 A" and rep: "msg_rep s0 xs ms" and room: "8 \<le> km_room s0"
    using assms(1,2,4) by (simp_all add: s0_def)
  have cur: "currentThread s0 = Inr i"
    using assms(3) by (simp add: currentThread_def tnode_at_def thread_at_def s0_def)
  obtain as' y cs' where xs: "xs = as' @ y # cs'" "as = map (msg_of s0) as'" "msg_of s0 y = (i, bs)"
    "cs = map (msg_of s0) cs'"
    using msg_rep_msgs [OF rep] assms(5) by (auto simp: map_eq_append_conv map_eq_Cons_conv append_eq_map_conv Cons_eq_map_conv)
  obtain m where m: "mnodes s0 y = Some m" "y \<noteq> 0" using msg_rep_nodes [OF rep, of y] xs(1) by auto
  have n: "q_cbData m = ?n" "q_tid m = i" and bs: "bs = bytes_at (vview s0) (q_data m) ?n"
    using msg_of_length [OF xs(3)] xs(3) m(1) by (simp_all add: msg_of_def)
  have sp: "msg_span s0 y = span (q_data m) ?n" using m(1) n(1) by (simp add: msg_span_def)
  have fb: "fresh_block s0 A (q_cbData m) d s1" using assms(7) n(1) by (simp add: s0_def)
  have dA: "span d ?n \<subseteq> A - km_area" using fb n(1) by (simp add: fresh_block_def)
  obtain s2 where s2: "take_payload m s0 = Inr (d, s2)" "ipc_inv s2 A" "wrote s0 A (vview s2) s2"
    "\<forall>a\<in>km_area. vview s2 a = vview s0 a" "bytes_at (vview s2) d ?n = bs"
    using take_payload_copies [OF fb inv room] msg_rep_in(3) [OF rep inv, of y] xs(1) sp n(1) bs by auto
  note f2 = wrote_ipc_fields [OF s2(3)]
  have rep2: "msg_rep s2 xs ms" by (rule msg_rep_wrote [OF rep inv s2(3,4)])
  have of2: "msg_of s2 z = msg_of s0 z" if "z \<in> set xs" for z
    using msg_rep_msgs [OF rep] msg_rep_msgs [OF rep2] that by (metis map_eq_conv)
  have y2: "y \<in> km_used s2" "cell (y - 8) \<subseteq> km_used s2" using msg_rep_in(1,2) [OF rep2 s2(2), of y] xs(1) by simp_all
  have mem: "chain (mq_links s0) (msgs s0) xs" using rep by (simp add: msg_rep_def mq.members_def)
  show ?thesis
  proof (cases as')
    case Nil
    then have hd: "msgs s0 = y" using mem xs(1) by simp
    let ?s = "kernel_free y (s2\<lparr>msgs := q_next m\<rparr>)"
    have rep3: "msg_rep ?s cs' (map (msg_of s2) cs')" and inv3: "ipc_inv ?s A"
      using msg_rep_drop_head [OF _ s2(2), of y cs' ms m] rep2 xs(1) Nil f2(1) m(1) by simp_all
    have "map (msg_of s2) cs' = as @ cs" using of2 xs Nil by simp
    moreover have "receiveMessage s = Inr (d, Some ?n, sti ?s)"
      using cur hd m n s2(1) f2 by (simp add: receiveMessage_def s0_def [symmetric] Let_def mnode_at_def deref_def)
    moreover have "ipc_inv (s2\<lparr>msgs := q_next m\<rparr>) A" "km_used (s2\<lparr>msgs := q_next m\<rparr>) = km_used s2"
      using s2(2) by (simp_all add: ipc_inv_def task_inv_def km_inv_def km_used_def)
    then have "bytes_at (vview ?s) d ?n = bs"
      using bytes_at_free [of "s2\<lparr>msgs := q_next m\<rparr>" A y d ?n] y2 dA s2(5) by simp
    ultimately show ?thesis
      using rep3 inv3 by (intro exI [of _ "sti ?s"] exI [of _ cs']) simp
  next
    case (Cons x0 as0)
    then have hd: "msgs s0 = x0" "x0 \<noteq> 0" using mem xs(1) by auto
    have ch: "chain (mq_links s0) x0 (x0 # as0 @ y # cs')" using mem xs(1) Cons hd by simp
    have tids: "\<forall>z\<in>set as'. node_tid s0 z \<noteq> i" using assms(6) xs(2) by (auto simp: msg_of_def Let_def)
    define bs' where "bs' = butlast as'"
    have as': "as' = bs' @ [last as']" using Cons by (simp add: bs'_def)
    obtain l where l: "mnodes s0 (last as') = Some l" 
    proof -
      have "last as' \<in> set xs" using as' xs(1) by (metis in_set_conv_decomp append.assoc append_Cons)
      then show ?thesis using msg_rep_nodes(1) [OF rep] that by blast
    qed
    have xs2: "xs = bs' @ last as' # y # cs'" using xs(1) as' by (metis append.assoc append_Cons append_Nil)
    let ?s = "kernel_free y (put_mnode (last as') (l\<lparr>q_next := q_next m\<rparr>) s2)"
    have rep3: "msg_rep ?s (bs' @ last as' # cs') (map (msg_of s2) (bs' @ last as' # cs'))" and inv3: "ipc_inv ?s A"
      using msg_rep_unlink [OF rep2 [unfolded xs2] s2(2), of l m] f2(1) l m(1) by simp_all
    have "bs' @ last as' # cs' = as' @ cs'" by (subst (2) as') simp
    moreover have "map (msg_of s2) (as' @ cs') = as @ cs" using of2 xs by simp
    ultimately have "map (msg_of s2) (bs' @ last as' # cs') = as @ cs" by (simp only:)
    moreover have "length as0 < loop_fuel"
      using chain_fuel [OF ch] by simp
    then have "receive_loop loop_fuel i x0 s0 = Inr (d, Some ?n, sti ?s)"
      using receive_loop_finds [OF ch _ _ _ m(1) s2(1) f2(1), of i loop_fuel l] tids n m(1) l Cons by simp
    then have "receiveMessage s = Inr (d, Some ?n, sti ?s)"
      using cur hd tids Cons msg_rep_nodes(1) [OF rep, of x0] xs(1)
      by (auto simp: receiveMessage_def s0_def [symmetric] Let_def mnode_at_def deref_def)
    moreover have "last as' \<in> km_used s2" using msg_rep_in(1) [OF rep2 s2(2), of "last as'"] xs2 by simp
    then have "bytes_at (vview ?s) d ?n = bs"
      using bytes_at_free [OF ipc_inv_put [OF s2(2)], where x = y and d = d and n = ?n] y2 dA s2(5) by simp
    ultimately show ?thesis
      using rep3 inv3 by (intro exI [of _ "sti ?s"] exI [of _ "bs' @ last as' # cs'"]) simp
  qed
qed

lemma receive_nothing:
  assumes "msg_rep s xs ms" and "currentThread s = Inr i" and "\<forall>m\<in>set ms. fst m \<noteq> i"
  shows "receiveMessage s = (if ms = [] then Inl NullDeref else Inr (0, None, sti s))"
proof -
  define s0 where "s0 = cli s"
  have rep: "msg_rep s0 xs ms" using assms(1) by (simp add: s0_def)
  have cur: "currentThread s0 = Inr i"
    using assms(2) by (simp add: currentThread_def tnode_at_def thread_at_def s0_def)
  have mem: "chain (mq_links s0) (msgs s0) xs" using rep by (simp add: msg_rep_def mq.members_def)
  have ms: "ms = map (msg_of s0) xs" by (rule msg_rep_msgs [OF rep])
  show ?thesis
  proof (cases xs)
    case Nil
    have "receive_loop (Suc k) i 0 s0 = Inl NullDeref" for k
      by (simp add: receive_loop.simps(2) mnode_at_def)
    from this [of "2 ^ 32 - 1", folded loop_fuel_Suc] show ?thesis using Nil mem ms cur by (simp add: receiveMessage_def s0_def [symmetric])
  next
    case (Cons x xs')
    then have hd: "msgs s0 = x" "x \<noteq> 0" using mem by auto
    have tids: "\<forall>z\<in>set xs. node_tid s0 z \<noteq> i" using assms(3) ms by (auto simp: msg_of_def Let_def)
    have "receive_loop loop_fuel i x s0 = Inr (0, None, sti s0)"
      using receive_loop_none [of s0 x xs' i loop_fuel] chain_fuel [OF mem] mem hd tids Cons by simp
    moreover have "sti s0 = sti s" by (simp add: s0_def sti_def cli_def)
    ultimately show ?thesis
      using cur hd tids Cons msg_rep_nodes(1) [OF rep, of x] ms
      by (auto simp: receiveMessage_def s0_def [symmetric] Let_def mnode_at_def deref_def)
  qed
qed

subsection \<open>Clearing\<close>

text \<open>
  What \<^verbatim>\<open>clearMessages\<close> makes of the messages behind its iterator, and of the whole queue. After a
  removal the iterator moves past the next message without looking at it; after the removal of the
  head it still stands on the removed node, so a second message of the thread stays linked.
\<close>

fun clear_rest :: "u32 \<Rightarrow> (u32 \<times> 'b) list \<Rightarrow> (u32 \<times> 'b) list" where
  "clear_rest i [] = []"
| "clear_rest i [m] = (if fst m = i then [] else [m])"
| "clear_rest i (m # m' # ms) = (if fst m = i then m' # clear_rest i ms else m # clear_rest i (m' # ms))"

fun clear_after_head :: "u32 \<Rightarrow> (u32 \<times> 'b) list \<Rightarrow> (u32 \<times> 'b) list" where
  "clear_after_head i [] = []"
| "clear_after_head i [m] = [m]"
| "clear_after_head i (m # m' # ms) =
     (if fst m = i then m # m' # clear_rest i ms else m # clear_rest i (m' # ms))"

fun clear_spec :: "u32 \<Rightarrow> (u32 \<times> 'b) list \<Rightarrow> (u32 \<times> 'b) list" where
  "clear_spec i [] = []"
| "clear_spec i (m # ms) = (if fst m = i then clear_after_head i ms else m # clear_rest i ms)"

lemma clear_rest_others: "filter (\<lambda>m. fst m \<noteq> i) (clear_rest i ms) = filter (\<lambda>m. fst m \<noteq> i) ms"
  by (induction i ms rule: clear_rest.induct) auto

lemma clear_spec_others:
  fixes ms :: "(u32 \<times> 'b) list"
  shows "filter (\<lambda>m. fst m \<noteq> i) (clear_spec i ms) = filter (\<lambda>m. fst m \<noteq> i) ms"
proof -
  have "filter (\<lambda>m. fst m \<noteq> i) (clear_after_head i ms) = filter (\<lambda>m. fst m \<noteq> i) ms" for ms :: "(u32 \<times> 'b) list"
    by (cases "(i, ms)" rule: clear_after_head.cases) (auto simp: clear_rest_others)
  then show ?thesis by (cases ms) (auto simp: clear_rest_others)
qed

declare clear_loop.simps(2) [simp del]

lemma fst_msg_of: "fst (msg_of s x) = node_tid s x"
  by (simp add: msg_of_def Let_def)

lemma msg_rep_link:
  assumes "msg_rep s (ps @ x # ys) ms"
  shows "\<exists>n. mnodes s x = Some n \<and> x \<noteq> 0 \<and> q_next n = (if ys = [] then 0 else hd ys)"
proof -
  have ch: "chain (mq_links s) (msgs s) (ps @ x # ys)" using assms by (simp add: msg_rep_def mq.members_def)
  from chain_append [OF ch] obtain n where n: "mnodes s x = Some n" "x \<noteq> 0" "chain (mq_links s) (q_next n) ys"
    by (auto simp: mq_links_def)
  have "q_next n = (if ys = [] then 0 else hd ys)" using n(3) by (cases ys) auto
  with n show ?thesis by blast
qed

lemma clear_loop_rest:
  assumes "msg_rep s (ps @ it # ys) ms" and "ipc_inv s A" and "length ys < k"
  shows "\<exists>s' zs. clear_loop k i it s = Inr s' \<and> ipc_inv s' A
    \<and> msg_rep s' zs (map (msg_of s) (ps @ [it]) @ clear_rest i (map (msg_of s) ys))"
  using assms
proof (induction "length ys" arbitrary: ys k it ps s ms rule: less_induct)
  case less
  obtain n where n: "mnodes s it = Some n" "it \<noteq> 0" "q_next n = (if ys = [] then 0 else hd ys)"
    using msg_rep_link [OF less.prems(1)] by blast
  obtain j where k: "k = Suc j" using less.prems(3) by (cases k) auto
  note ms = msg_rep_msgs [OF less.prems(1)]
  show ?case
  proof (cases ys)
    case Nil
    then have "clear_loop k i it s = Inr s" using n by (simp add: k clear_loop.simps(2) mnode_at_def deref_def)
    then show ?thesis
      using less.prems(1,2) ms Nil by (intro exI [of _ s] exI [of _ "ps @ [it]"]) simp
  next
    case (Cons y ys')
    have rep_y: "msg_rep s ((ps @ [it]) @ y # ys') ms" using less.prems(1) Cons by simp
    obtain m where m: "mnodes s y = Some m" "y \<noteq> 0" "q_next m = (if ys' = [] then 0 else hd ys')"
      using msg_rep_link [OF rep_y] by blast
    have ny: "q_next n = y" using n(3) Cons by simp
    show ?thesis
    proof (cases "q_tid m = i")
      case False
      have "clear_loop k i it s = clear_loop j i y s"
        using n(1,2) m(1,2) ny False by (simp add: k clear_loop.simps(2) [of _ _ it] mnode_at_def deref_def)
      moreover have "clear_rest i (map (msg_of s) ys) = msg_of s y # clear_rest i (map (msg_of s) ys')"
        using False m(1) Cons by (cases ys') (simp_all add: fst_msg_of)
      ultimately show ?thesis
        using less.hyps [OF _ rep_y less.prems(2), of j] less.prems(3) Cons k by simp
    next
      case True
      define s1 where "s1 = kernel_free y (put_mnode it (n\<lparr>q_next := q_next m\<rparr>) s)"
      have rep1: "msg_rep s1 (ps @ it # ys') (map (msg_of s) (ps @ it # ys'))" and inv1: "ipc_inv s1 A"
        using msg_rep_unlink [OF _ less.prems(2) n(1) m(1)] less.prems(1) Cons by (simp_all add: s1_def)
      have of1: "map (msg_of s1) (ps @ it # ys') = map (msg_of s) (ps @ it # ys')"
        using msg_rep_msgs [OF rep1] by simp
      have mn1: "mnodes s1 = (mnodes s)(it \<mapsto> n\<lparr>q_next := q_next m\<rparr>)"
        by (simp add: s1_def kernel_free_def set_is_available_def)
      have step: "clear_loop k i it s = clear_loop j i (q_next m) s1"
        using n(1,2) m(1,2) ny True mn1
        by (simp add: k clear_loop.simps(2) [of _ _ it] mnode_at_def deref_def set_q_next_def s1_def [symmetric])
      show ?thesis
      proof (cases ys')
        case Nil
        then have "clear_loop k i it s = Inr s1"
          using step m(3) less.prems(3) Cons k by (cases j) (simp_all add: clear_loop.simps(2))
        moreover have "clear_rest i (map (msg_of s) ys) = []" using True m(1) Cons Nil by (simp add: fst_msg_of)
        ultimately show ?thesis using rep1 inv1 Nil by (intro exI [of _ s1] exI [of _ "ps @ [it]"]) simp
      next
        case (Cons z zs)
        have rep_z: "msg_rep s1 ((ps @ [it]) @ z # zs) (map (msg_of s) (ps @ it # ys'))" using rep1 Cons by simp
        have nz: "q_next m = z" using m(3) Cons by simp
        have "clear_rest i (map (msg_of s) ys) = msg_of s z # clear_rest i (map (msg_of s) zs)"
          using True m(1) \<open>ys = y # ys'\<close> Cons by (simp add: fst_msg_of)
        moreover have eq: "map (msg_of s1) ((ps @ [it]) @ [z]) = map (msg_of s) ((ps @ [it]) @ [z])"
          "map (msg_of s1) zs = map (msg_of s) zs" using of1 Cons by simp_all
        have "length zs < length ys" "length zs < j" using less.prems(3) \<open>ys = y # ys'\<close> Cons k by simp_all
        from less.hyps [OF this(1) rep_z inv1 this(2)] obtain s' us where "clear_loop j i z s1 = Inr s'"
          "ipc_inv s' A" "msg_rep s' us (map (msg_of s) ((ps @ [it]) @ [z]) @ clear_rest i (map (msg_of s) zs))"
          unfolding eq by blast
        ultimately show ?thesis using step nz by (intro exI [of _ s'] exI [of _ us]) simp
      qed
    qed
  qed
qed

text \<open>Changing the link of a node that is out of the queue.\<close>

lemma msg_rep_put_outside:
  assumes "msg_rep s xs ms" and "ipc_inv s A" and "x \<notin> set xs" and "x \<in> km_used s"
  shows "msg_rep (put_mnode x n s) xs ms" and "ipc_inv (put_mnode x n s) A"
  using msg_rep_frame [OF assms(1), of "put_mnode x n s"] assms(3) ipc_inv_put [OF assms(2,4)] by auto

text \<open>The loop of \<^verbatim>\<open>clearMessages\<close> from the head it has just taken out, which still leads to the queue.\<close>

lemma clear_loop_after_head:
  assumes "msg_rep s ys ms" and "ipc_inv s A" and "mnodes s x = Some n" and "x \<noteq> 0" and "x \<notin> set ys"
    and "q_next n = (if ys = [] then 0 else hd ys)" and "length ys < Suc k" and "0 < k"
  shows "\<exists>s' us. clear_loop (Suc k) i x s = Inr s' \<and> ipc_inv s' A \<and> msg_rep s' us (clear_after_head i ms)"
proof (cases ys)
  case Nil
  then have "clear_loop (Suc k) i x s = Inr s" using assms by (simp add: clear_loop.simps(2) mnode_at_def deref_def)
  then show ?thesis using assms(1,2) msg_rep_msgs [OF assms(1)] Nil by (intro exI [of _ s] exI [of _ ys]) simp
next
  case (Cons y zs)
  note ms = msg_rep_msgs [OF assms(1), unfolded Cons]
  have rep_y: "msg_rep s ([] @ y # zs) ms" using assms(1) Cons by simp
  obtain m where m: "mnodes s y = Some m" "y \<noteq> 0" "q_next m = (if zs = [] then 0 else hd zs)"
    using msg_rep_link [OF rep_y] by blast
  have ny: "q_next n = y" using assms(6) Cons by simp
  have tid: "fst (msg_of s y) = q_tid m" using m(1) by (simp add: fst_msg_of)
  show ?thesis
  proof (cases "q_tid m = i")
    case False
    have "clear_loop (Suc k) i x s = clear_loop k i y s"
      using assms(3,4) m(1,2) ny False by (simp add: clear_loop.simps(2) [of k i x] mnode_at_def deref_def)
    moreover have "clear_after_head i ms = map (msg_of s) ([] @ [y]) @ clear_rest i (map (msg_of s) zs)"
      using ms tid False by (cases zs) simp_all
    ultimately show ?thesis using clear_loop_rest [OF rep_y assms(2), of k i] assms(7) Cons by simp
  next
    case True
    define s2 where "s2 = put_mnode x (n\<lparr>q_next := q_next m\<rparr>) s"
    define s3 where "s3 = kernel_free y s2"
    have "x \<in> km_used s" using assms(2,3) by (auto simp: ipc_inv_def)
    from msg_rep_put_outside [OF assms(1,2,5) this]
    have rep2: "msg_rep s2 ys ms" and inv2: "ipc_inv s2 A" by (simp_all add: s2_def)
    have yin: "y \<in> set ys" using Cons by simp
    have rep3: "msg_rep s3 ys ms" and inv3: "ipc_inv s3 A"
      using msg_rep_free [OF rep2 inv2 msg_rep_in(1,2) [OF rep2 inv2 yin]] msg_rep_in(4) [OF rep2 inv2 _ yin]
      by (simp_all add: s3_def)
    have "mnodes s3 = (mnodes s)(x \<mapsto> n\<lparr>q_next := q_next m\<rparr>)"
      by (simp add: s3_def s2_def kernel_free_def set_is_available_def)
    then have step: "clear_loop (Suc k) i x s = clear_loop k i (q_next m) s3"
      using assms(3,4) m(1,2) ny True by (simp add: clear_loop.simps(2) [of k i x] mnode_at_def deref_def
          set_q_next_def s2_def [symmetric] s3_def [symmetric])
    show ?thesis
    proof (cases zs)
      case Nil
      then have "clear_loop (Suc k) i x s = Inr s3"
        using step m(3) assms(8) by (cases k) (simp_all add: clear_loop.simps(2))
      moreover have "clear_after_head i ms = ms" using ms Nil by simp
      ultimately show ?thesis using rep3 inv3 by (intro exI [of _ s3] exI [of _ ys]) simp
    next
      case (Cons z us)
      have rep_z: "msg_rep s3 ([y] @ z # us) ms" using rep3 \<open>ys = y # zs\<close> Cons by simp
      have "clear_after_head i ms = map (msg_of s3) ([y] @ [z]) @ clear_rest i (map (msg_of s3) us)"
        using msg_rep_msgs [OF rep_z] ms tid True by simp
      moreover have "length us < k" using assms(7) \<open>ys = y # zs\<close> Cons by simp
      ultimately show ?thesis using clear_loop_rest [OF rep_z inv3, of k i] step m(3) Cons by simp
    qed
  qed
qed

lemma clear_queue:
  assumes "msg_rep s xs ms" and "ipc_inv s A"
  shows "\<exists>s' zs. clearMessages i s = Inr s' \<and> ipc_inv s' A \<and> msg_rep s' zs (clear_spec i ms) \<and> iflag s'"
proof -
  define s0 where "s0 = cli s"
  have rep: "msg_rep s0 xs ms" and inv: "ipc_inv s0 A" using assms by (simp_all add: s0_def)
  note ms = msg_rep_msgs [OF rep]
  have mem: "chain (mq_links s0) (msgs s0) xs" using rep by (simp add: msg_rep_def mq.members_def)
  obtain k where k: "loop_fuel = Suc k" "0 < k"
    using that [of "2 ^ 32 - 1"] by (simp only: loop_fuel_Suc) simp
  have fuel: "length xs < Suc k" using chain_fuel [OF mem] k(1) by simp
  have "\<exists>s' zs. bindR (if msgs s0 = 0 then Inr s0
                else bindR (mnode_at (msgs s0) s0) (\<lambda>n.
                  if q_tid n = i then Inr (kernel_free (msgs s0) (s0\<lparr>msgs := q_next n\<rparr>))
                  else Inr s0)) (clear_loop (Suc k) i (msgs s0)) = Inr s'
      \<and> ipc_inv s' A \<and> msg_rep s' zs (clear_spec i ms)"
  proof (cases xs)
    case Nil
    then show ?thesis
      using mem rep inv ms by (intro exI [of _ s0] exI [of _ "[]"]) (simp add: clear_loop.simps(2))
  next
    case (Cons x ys)
    have rep_x: "msg_rep s0 ([] @ x # ys) ms" using rep Cons by simp
    obtain n where n: "mnodes s0 x = Some n" "x \<noteq> 0" "q_next n = (if ys = [] then 0 else hd ys)"
      using msg_rep_link [OF rep_x] by blast
    have hd: "msgs s0 = x" using mem Cons by simp
    have tid: "fst (msg_of s0 x) = q_tid n" using n(1) by (simp add: fst_msg_of)
    have len: "length ys < Suc k" using fuel Cons by simp
    show ?thesis
    proof (cases "q_tid n = i")
      case False
      then have "clear_spec i ms = map (msg_of s0) ([] @ [x]) @ clear_rest i (map (msg_of s0) ys)"
        using ms Cons tid by simp
      then show ?thesis
        using clear_loop_rest [OF rep_x inv len, of i] False hd n(1,2) by (simp add: mnode_at_def deref_def)
    next
      case True
      define s1 where "s1 = kernel_free x (s0\<lparr>msgs := q_next n\<rparr>)"
      have rep1: "msg_rep s1 ys (map (msg_of s0) ys)" and inv1: "ipc_inv s1 A"
        using msg_rep_drop_head [OF _ inv n(1)] rep Cons by (simp_all add: s1_def)
      have n1: "mnodes s1 x = Some n" using n(1) by (simp add: s1_def kernel_free_def set_is_available_def)
      have "x \<notin> set ys" using chain_distinct [OF mem] Cons by simp
      from clear_loop_after_head [OF rep1 inv1 n1 n(2) this n(3) len k(2), of i] show ?thesis
        using True hd n(1,2) ms Cons tid by (simp add: mnode_at_def deref_def s1_def)
    qed
  qed
  then show ?thesis
    unfolding clearMessages_def s0_def [symmetric] Let_def k(1) by fastforce
qed

subsection \<open>A concrete queue\<close>

text \<open>
  The address space of \<^verbatim>\<open>init_vmm\<close>, four threads of which the one with identifier 0 runs, and three
  messages: one for thread 1, then two for thread 0. The process heap has a free chunk of 16 bytes.
\<close>

definition demo_mem :: mem where
  "demo_mem = (fold put_header [(0x10100, 0, 32), (0x00200400, 1, 0x000FFC00)] (pmem vm_boot))
     (0x00200098 := 0x41, 0x00200099 := 0x42, 0x002000C8 := 1, 0x002000C9 := 2, 0x002000CA := 3, 0x002000F8 := 9,
      0x00010200 := 7, 0x00010201 := 8)"

definition demo_ipc :: ipc where
  "demo_ipc = tasks.extend (kheap.extend (vmm.extend
       (vm_boot\<lparr>pmem := demo_mem, is_initialized := True, start_address := 0x00200000,
          last_valid_address := 0x00300000, current_address := 0x00200400\<rparr>)
       (kheap.fields [0x00200300 \<mapsto> \<lparr>current_mem_addr = 0x10118, size_array = SIZES,
          list_array = [0x10100, 0, 0, 0, 0, 0, 0, 0, 0, 0, 0]\<rparr>] 0x00200300))
       (tasks.fields (threads demo_tasks) (tnodes demo_tasks) 0x00200008 0x00200020 4 0x00101000 0x00101100))
     (ipc.fields
       [0x00200080 \<mapsto> \<lparr>q_tid = 1, q_cbData = 2, q_data = 0x00200098, q_next = 0x002000B0\<rparr>,
        0x002000B0 \<mapsto> \<lparr>q_tid = 0, q_cbData = 3, q_data = 0x002000C8, q_next = 0x002000E0\<rparr>,
        0x002000E0 \<mapsto> \<lparr>q_tid = 0, q_cbData = 1, q_data = 0x002000F8, q_next = 0\<rparr>] 0x00200080)"

lemma demo_ipc_space: "same_space demo_ipc (vm_boot\<lparr>pmem := demo_mem\<rparr>)"
  by (simp add: demo_ipc_def same_space_def tasks.defs kheap.defs vmm.defs ipc.defs)

lemma demo_ipc_fields:
  "mnodes demo_ipc = [0x00200080 \<mapsto> \<lparr>q_tid = 1, q_cbData = 2, q_data = 0x00200098, q_next = 0x002000B0\<rparr>,
        0x002000B0 \<mapsto> \<lparr>q_tid = 0, q_cbData = 3, q_data = 0x002000C8, q_next = 0x002000E0\<rparr>,
        0x002000E0 \<mapsto> \<lparr>q_tid = 0, q_cbData = 1, q_data = 0x002000F8, q_next = 0\<rparr>]"
  "msgs demo_ipc = 0x00200080" "tnodes demo_ipc = tnodes demo_tasks" "threads demo_ipc = threads demo_tasks"
  "current_thread demo_ipc = 0x00200008" "ready_queue demo_ipc = 0x00200020" "currentHeap demo_ipc = 0x00200300"
  "heap_objs demo_ipc = [0x00200300 \<mapsto> \<lparr>current_mem_addr = 0x10118, size_array = SIZES,
          list_array = [0x10100, 0, 0, 0, 0, 0, 0, 0, 0, 0, 0]\<rparr>]"
  "current_address demo_ipc = 0x00200400" "pmem demo_ipc = demo_mem" "is_initialized demo_ipc"
  "start_address demo_ipc = 0x00200000" "last_valid_address demo_ipc = 0x00300000"
  by (simp_all add: demo_ipc_def tasks.defs kheap.defs vmm.defs ipc.defs)

lemma demo_mem_high: "\<forall>a. a \<notin> low_mem \<longrightarrow> demo_mem a = pmem vm_boot a"
proof (intro allI impI)
  fix a assume a: "a \<notin> low_mem"
  then have "a \<notin> hdr_cells n" if "unat n < 0x00280000" for n
    using that by (auto simp: low_mem_def hdr_cells_offsets unat_add_small unat_of_nat_u32)
  moreover have "a \<noteq> b" if "unat b < 0x00280000" for b using that a by (auto simp: low_mem_def)
  ultimately show "demo_mem a = pmem vm_boot a" by (simp add: demo_mem_def put_header_outside)
qed

lemma demo_ipc_inv: "ipc_inv demo_ipc low_mem" "km_room demo_ipc = 0x000FFC00"
proof -
  note sp = boot_space [OF demo_ipc_space demo_mem_high]
  have sub: "km_area \<subseteq> low_mem" by (auto simp: km_area_def low_mem_def)
  have hd: "load32 demo_mem 0x00200400 = 1" "load32 demo_mem (0x00200400 + 4) = 0x000FFC00"
    by (simp_all add: load32_def demo_mem_def put_header_def store32_def)
  have "km_inv demo_ipc"
    using hd by (simp add: km_inv_def demo_ipc_fields mb_is_available_def mb_size_def)
  moreover have "dom (tnodes demo_ipc) \<subseteq> km_used demo_ipc" "dom (mnodes demo_ipc) \<subseteq> km_used demo_ipc"
    by (simp_all add: demo_ipc_fields km_used_def, simp add: demo_tasks_def)
  moreover have "\<forall>a\<in>km_area. translate demo_ipc a = Some a" using sp(2) sub by auto
  ultimately show "ipc_inv demo_ipc low_mem"
    using sp(1) sub by (simp add: ipc_inv_def task_inv_def)
  show "km_room demo_ipc = 0x000FFC00" by (simp add: km_room_def demo_ipc_fields)
qed

lemma demo_view: "a \<in> low_mem \<Longrightarrow> vview demo_ipc a = demo_mem a"
  by (rule boot_space(3) [OF demo_ipc_space demo_mem_high])

lemma demo_msgs: "msg_rep demo_ipc [0x00200080, 0x002000B0, 0x002000E0] [(1, [0x41, 0x42]), (0, [1, 2, 3]), (0, [9])]"
proof -
  have mem: "mq.members demo_ipc 0x00200080 [0x00200080, 0x002000B0, 0x002000E0]"
    by (simp add: mq.members_def mq_links_def demo_ipc_fields)
  have of3: "msg_of demo_ipc 0x00200080 = (1, [0x41, 0x42])" "msg_of demo_ipc 0x002000B0 = (0, [1, 2, 3])"
    "msg_of demo_ipc 0x002000E0 = (0, [9])"
    by (simp_all add: msg_of_def bytes_at_def demo_ipc_fields demo_view low_mem_def upt_rec)
      (simp_all add: demo_mem_def)
  have sp: "msg_span demo_ipc 0x00200080 = {a. 0x00200098 \<le> unat a \<and> unat a < 0x0020009A}"
    "msg_span demo_ipc 0x002000B0 = {a. 0x002000C8 \<le> unat a \<and> unat a < 0x002000CB}"
    "msg_span demo_ipc 0x002000E0 = {a. 0x002000F8 \<le> unat a \<and> unat a < 0x002000F9}"
    by (auto simp: msg_span_def demo_ipc_fields span_small)
  have ce: "cell 0x00200078 = {a. 0x00200078 \<le> unat a \<and> unat a < 0x0020007C}"
    "cell 0x002000A8 = {a. 0x002000A8 \<le> unat a \<and> unat a < 0x002000AC}"
    "cell 0x002000D8 = {a. 0x002000D8 \<le> unat a \<and> unat a < 0x002000DC}"
    by (auto simp: cell_small)
  have used: "km_used demo_ipc = {a. 0x00200000 \<le> unat a \<and> unat a < 0x00200400}"
    by (simp add: km_used_def demo_ipc_fields)
  show ?thesis
    unfolding msg_rep_def demo_ipc_fields(2)
    using mem of3 by (simp del: One_nat_def add: sp ce used) auto
qed

subsection \<open>Properties\<close>

text \<open>C13: Sending to a known thread succeeds while the kernel heap has room and appends one message, with
  the receiver's identifier and the bytes of the sender's buffer, behind all earlier ones, which keep
  their contents; sending to an unknown thread changes nothing. Interrupts are on afterwards.\<close>

theorem sendMessage_appends:
  assumes "ipc_inv s A" and "msg_rep s xs ms" and "isRunning i s = Inr known" and "unat n + 48 \<le> km_room s"
    and "span p n \<subseteq> A" and "\<forall>a\<in>span p n. a \<in> km_area \<longrightarrow> a \<in> km_used s"
  shows "if known then \<exists>s' xs'. sendMessage i p n s = Inr s' \<and> ipc_inv s' A
      \<and> msg_rep s' xs' (ms @ [(i, bytes_at (vview s) p n)]) \<and> km_room s' + unat n + 32 = km_room s \<and> iflag s'
    else sendMessage i p n s = Inr (s\<lparr>iflag := True\<rparr>)"
proof (cases known)
  case True
  with sendMessage_queue [OF assms(1,2) _ assms(4-6), of i] assms(3) show ?thesis by auto
next
  case False
  then show ?thesis
    using assms(3) by (simp add: sendMessage_def Let_def isRunning_cli, simp add: sti_def cli_def)
qed

lemma demo_ipc_threads: "isRunning i demo_ipc = Inr (i \<in> {0, 1, 2, 3})" "currentThread demo_ipc = Inr 0"
proof -
  have "running_loop k i it demo_ipc = running_loop k i it demo_tasks" for k i it
    by (induction k arbitrary: it) (simp_all add: tnode_at_def thread_at_def demo_ipc_fields cong: if_cong)
  moreover have f: "current_thread demo_tasks = 0x00200008" "ready_queue demo_tasks = 0x00200020"
    by (simp_all add: demo_tasks_def)
  ultimately have "isRunning i demo_ipc = isRunning i demo_tasks"
    by (simp add: isRunning_def currentThread_def tnode_at_def thread_at_def demo_ipc_fields
        del: running_loop.simps cong: if_cong)
  also have "\<dots> = Inr (i \<in> {0, 1, 2, 3})"
    using isRunning_spec [OF demo_facts(3,4), of i] demo_facts(5) by (auto simp: demo_tasks_def demo_thread_def)
  finally show "isRunning i demo_ipc = Inr (i \<in> {0, 1, 2, 3})" .
  show "currentThread demo_ipc = Inr 0"
    by (simp add: currentThread_def tnode_at_def thread_at_def demo_ipc_fields)
      (simp add: demo_tasks_def deref_def demo_thread_def)
qed

lemma sendMessage_appends_witness:
  "\<exists>s' xs. sendMessage 2 0x10200 2 demo_ipc = Inr s'
    \<and> msg_rep s' xs [(1, [0x41, 0x42]), (0, [1, 2, 3]), (0, [9]), (2, [7, 8])]"
proof -
  have sp: "span 0x10200 2 = {a. 0x10200 \<le> unat a \<and> unat a < 0x10202}" by (auto simp: span_small)
  have "bytes_at (vview demo_ipc) 0x10200 2 = [7, 8]"
    by (simp add: bytes_at_def demo_view low_mem_def upt_rec) (simp add: demo_mem_def)
  moreover have "span 0x10200 2 \<subseteq> low_mem" by (auto simp: sp low_mem_def)
  ultimately show ?thesis
    using sendMessage_appends [OF demo_ipc_inv(1) demo_msgs demo_ipc_threads(1),
        where i = 2 and n = 2 and p = "0x10200"] demo_ipc_inv(2) sp
    by (auto simp: km_area_def)
qed


lemma demo_fresh_block: "\<exists>s1. fresh_block (cli demo_ipc) low_mem 3 0x10108 s1"
proof -
  let ?s = "cli demo_ipc"
  let ?h = "\<lparr>current_mem_addr = 0x10118, size_array = SIZES, list_array = [0x10100, 0, 0, 0, 0, 0, 0, 0, 0, 0, 0]\<rparr>"
  have area: "data_area ?s low_mem" using demo_ipc_inv(1) by (simp add: ipc_inv_def cli_def)
  have ok: "heap_ok ?s 0x00200300 ?h" by (simp add: heap_ok_def cli_def demo_ipc_fields)
  have hd: "hdr_cells 0x10100 \<subseteq> low_mem" by (simp add: hdr_cells_def cell_def low_mem_def)
  have word: "chunk_next (vview ?s) 0x10100 = 0" "chunk_word (vview ?s) 0x10100 = 32"
    by (simp_all add: chunk_next_def chunk_word_def load32_def demo_view low_mem_def)
      (simp_all add: demo_mem_def put_header_def store32_def)
  have idx: "size_index SIZES 10 0 3 = 0" by (simp add: SIZES_def eval_nat_numeral)
  obtain s1 where s1: "kmalloc 0x00200300 3 ?s = Inr (0x10108, s1)"
    "wrote ?s low_mem (store32 (vview ?s) 0x10104 (32 OR 1)) s1"
    using kmalloc_first_fit [OF ok area _ idx, of "[]" "0x10100" "[]"] word hd
    by (auto simp: chunk_free_def)
  have v: "vview s1 a = store32 (vview ?s) 0x10104 (32 OR 1) a" if "a \<in> low_mem" for a
    by (rule wroteD(6) [OF s1(2) that])
  have c: "cell 0x10104 = {a. 0x10104 \<le> unat a \<and> unat a < 0x10108}" by (auto simp: cell_small)
  have "\<forall>a\<in>km_area. vview s1 a = vview ?s a"
  proof
    fix a assume "a \<in> km_area"
    then have "a \<in> low_mem" "a \<notin> cell 0x10104" by (auto simp: km_area_def low_mem_def c)
    then show "vview s1 a = vview ?s a" using v store32_notin by simp
  qed
  moreover have "wrote ?s low_mem (vview s1) s1" by (rule wrote_cong [OF s1(2)]) (simp add: v)
  moreover have "span 0x10108 3 = {a. 0x10108 \<le> unat a \<and> unat a < 0x1010B}" by (auto simp: span_small)
  then have "span 0x10108 3 \<subseteq> low_mem - km_area" by (auto simp: low_mem_def km_area_def)
  ultimately show ?thesis
    using s1(1) by (intro exI [of _ s1]) (simp add: fresh_block_def, simp add: demo_ipc_fields)
qed


text \<open>C38: Without a message for the running thread receiving returns a null pointer and changes nothing but
  the interrupt flag; but on an empty queue it follows a null pointer itself.\<close>

theorem receiveMessage_without_message:
  assumes "msg_rep s xs ms" and "currentThread s = Inr i" and "\<forall>m\<in>set ms. fst m \<noteq> i"
  shows "receiveMessage s = (if ms = [] then Inl NullDeref else Inr (0, None, s\<lparr>iflag := True\<rparr>))"
  using receive_nothing [OF assms] by (simp add: sti_def)

lemma receiveMessage_without_message_witness: "receiveMessage (demo_ipc\<lparr>msgs := 0\<rparr>) = Inl NullDeref"
proof -
  have "msg_rep (demo_ipc\<lparr>msgs := 0\<rparr>) [] []" by (simp add: msg_rep_def mq.members_def)
  moreover have "currentThread (demo_ipc\<lparr>msgs := 0\<rparr>) = Inr 0"
    using demo_ipc_threads(2) by (simp add: currentThread_def tnode_at_def thread_at_def)
  ultimately show ?thesis using receiveMessage_without_message [of "demo_ipc\<lparr>msgs := 0\<rparr>" "[]" "[]" 0] by simp
qed

text \<open>C21: clearMessages returns and implements \<open>clear_spec\<close>: no message for another thread is lost, but
  the message behind a removed one is not examined, and after the removal of the head the next
  message stays in the queue even if it is for the same thread.\<close>

theorem clearMessages_skips:
  assumes "msg_rep s xs ms" and "ipc_inv s A"
  shows "\<exists>s' zs. clearMessages i s = Inr s' \<and> ipc_inv s' A \<and> msg_rep s' zs (clear_spec i ms) \<and> iflag s'
    \<and> filter (\<lambda>m. fst m \<noteq> i) (clear_spec i ms) = filter (\<lambda>m. fst m \<noteq> i) ms"
  using clear_queue [OF assms, of i] clear_spec_others [of i ms] by simp

lemma clearMessages_skips_witness:
  "\<exists>s' zs. clearMessages 0 demo_ipc = Inr s' \<and> msg_rep s' zs [(1, [0x41, 0x42]), (0, [9])]"
  using clearMessages_skips [OF demo_msgs demo_ipc_inv(1), of 0] by auto

end
