(* ===== verification/KernelLoop.thy ===== *)
theory KernelLoop
  imports KMain Messages
begin

text \<open>
  The endless loops of \<^verbatim>\<open>kmain.cpp\<close> at work: the main loop, which sends a cell of the screen to
  process 1 in every round and uses up the kernel heap, the loop of \<^verbatim>\<open>Program1::launch\<close>, which draws
  the cells it receives, and the programs known to the launcher.
\<close>

subsection \<open>The main loop\<close>

text \<open>\<open>n\<close> rounds of \<^verbatim>\<open>for (;;)\<close>.\<close>

fun main_rounds :: "nat \<Rightarrow> u32 \<Rightarrow> 'a kernel_scheme \<Rightarrow> kerror + (u32 \<times> 'a kernel_scheme)" where
  "main_rounds 0 seed s = Inr (seed, s)"
| "main_rounds (Suc n) seed s = bindR (main_step seed s) (\<lambda>(seed, s). main_rounds n seed s)"

text \<open>The message of a round, and the seeds of \<open>n\<close> rounds.\<close>

definition cell_message :: "u32 \<Rightarrow> u32 \<times> u8 list" where
  "cell_message seed = (1, [seed_x seed, seed_y seed, 0x5A])"

fun seeds :: "nat \<Rightarrow> u32 \<Rightarrow> u32 list" where
  "seeds 0 seed = []"
| "seeds (Suc n) seed = next_seed seed # seeds n (next_seed seed)"

lemma length_seeds [simp]: "length (seeds n seed) = n"
  by (induction n arbitrary: seed) simp_all

lemma seed_x_less: "unat (seed_x seed) < 80"
  and seed_y_less: "unat (seed_y seed) < 25"
proof -
  have "take_bit 8 n < 80" if "n < 80" for n :: nat
    using that by (meson take_bit_nat_less_eq_self le_less_trans)
  moreover have "take_bit 8 n < 25" if "n < 25" for n :: nat
    using that by (meson take_bit_nat_less_eq_self le_less_trans)
  ultimately show "unat (seed_x seed) < 80" "unat (seed_y seed) < 25"
    by (simp_all add: seed_x_def seed_y_def unsigned_ucast_eq unsigned_take_bit_eq unat_mod_distrib)
qed

lemma bytes_at_3: "bytes_at m p 3 = [m p, m (p + 1), m (p + 2)]"
  by (simp add: bytes_at_def upt_rec)

lemma span_3: "p \<in> span p 3" "p + 1 \<in> span p 3" "p + 2 \<in> span p 3"
  by (simp_all add: span_def)

lemma isRunning_step:
  assumes "ipc_step s s'"
  shows "isRunning i s' = isRunning i s"
proof -
  note f = ipc_step_fields [OF assms]
  have "running_loop k i it s' = running_loop k i it s" for k it
    by (induction k arbitrary: it) (simp_all add: tnode_at_def thread_at_def f cong: if_cong)
  then show ?thesis
    by (simp add: isRunning_def currentThread_def tnode_at_def thread_at_def f del: running_loop.simps cong: if_cong)
qed

lemma ipc_step_trans: "ipc_step s s1 \<Longrightarrow> ipc_step s1 s2 \<Longrightarrow> ipc_step s s2"
  unfolding ipc_step_def by (elim exE) (simp, metis)

lemma wrote_ipc_step: "wrote s A m s' \<Longrightarrow> ipc_step s s'"
  unfolding wrote_def ipc_step_def
  by (elim conjE exE) (rule exI, rule exI, rule exI [of _ "current_address s"], rule exI [of _ "mnodes s"],
    rule exI [of _ "msgs s"], rule exI [of _ "iflag s"], simp)

text \<open>The three bytes of the message, written on the stack.\<close>

lemma stack_message:
  assumes "ipc_inv s A" and "msg_rep s xs ms" and "8 \<le> km_room s" and "span p 3 \<subseteq> A - km_area"
  shows "\<exists>s'. bindR (vstore8 p x s) (\<lambda>s. bindR (vstore8 (p + 1) y s) (vstore8 (p + 2) z)) = Inr s'
    \<and> ipc_inv s' A \<and> msg_rep s' xs ms \<and> bytes_at (vview s') p 3 = [x, y, z]
    \<and> km_room s' = km_room s \<and> ipc_step s s'"
proof -
  have area: "data_area s A" and km: "km_inv s" and kA: "km_area \<subseteq> A"
    using assms(1) by (simp_all add: ipc_inv_def task_inv_def)
  have in_A: "p \<in> A" "p + 1 \<in> A" "p + 2 \<in> A" using span_3 assms(4) by blast+
  obtain s1 where s1: "vstore8 p x s = Inr s1" "wrote s A ((vview s)(p := x)) s1"
    using vstore8_area [OF area in_A(1)] by blast
  obtain s2 where s2: "vstore8 (p + 1) y s1 = Inr s2" "wrote s1 A ((vview s1)(p + 1 := y)) s2"
    using vstore8_area [OF wroteD(2) [OF s1(2)] in_A(2)] by blast
  obtain s3 where s3: "vstore8 (p + 2) z s2 = Inr s3" "wrote s2 A ((vview s2)(p + 2 := z)) s3"
    using vstore8_area [OF wroteD(2) [OF s2(2)] in_A(3)] by blast
  let ?m = "(vview s)(p := x, p + 1 := y, p + 2 := z)"
  have w: "wrote s A ?m s3"
    by (rule wrote_cong [OF wrote_trans [OF wrote_trans [OF s1(2) s2(2)] s3(2)]])
      (simp add: wroteD(6) [OF s1(2)] wroteD(6) [OF s2(2)])
  have keep: "?m a = vview s a" if "a \<in> km_area" for a
    using that assms(4) span_3 [of p] by auto
  have inv: "ipc_inv s3 A"
    by (rule ipc_inv_wrote [OF assms(1) w assms(3)]) (use keep hdr_current(1) [OF km assms(3)] in blast)
  have view: "vview s3 a = ?m a" if "a \<in> A" for a by (rule wroteD(6) [OF w that])
  have rep: "msg_rep s3 xs ms"
    by (rule msg_rep_wrote [OF assms(2,1) w]) (use view keep kA in auto)
  have "bytes_at (vview s3) p 3 = [x, y, z]"
    using view in_A by (simp add: bytes_at_3)
  then show ?thesis
    using inv rep s1(1) s2(1) s3(1) wrote_ipc_fields(4) [OF w] wrote_ipc_step [OF w] by auto
qed

lemma main_step_sends:
  assumes "ipc_inv s A" and "msg_rep s xs ms" and "isRunning 1 s = Inr True" and "51 \<le> km_room s"
    and "span (addr_ms s) 3 \<subseteq> A - km_area"
  shows "\<exists>s' xs'. main_step seed s = Inr (next_seed seed, s') \<and> ipc_inv s' A
    \<and> msg_rep s' xs' (ms @ [cell_message (next_seed seed)]) \<and> km_room s' + 35 = km_room s \<and> ipc_step s s'"
proof -
  let ?p = "addr_ms s" and ?x = "seed_x (next_seed seed)" and ?y = "seed_y (next_seed seed)"
  have r: "8 \<le> km_room s" using assms(4) by simp
  obtain s1 where s1: "bindR (vstore8 ?p ?x s) (\<lambda>s. bindR (vstore8 (?p + 1) ?y s) (vstore8 (?p + 2) 0x5A)) = Inr s1"
    "ipc_inv s1 A" "msg_rep s1 xs ms" "bytes_at (vview s1) ?p 3 = [?x, ?y, 0x5A]" "km_room s1 = km_room s" "ipc_step s s1"
    using stack_message [OF assms(1,2) r assms(5), of ?x ?y "0x5A"] by blast
  have run: "isRunning 1 s1 = Inr True" using isRunning_step [OF s1(6)] assms(3) by simp
  have sp: "span ?p 3 \<subseteq> A" "\<forall>a\<in>span ?p 3. a \<in> km_area \<longrightarrow> a \<in> km_used s1" using assms(5) by auto
  have room: "unat (3 :: u32) + 48 \<le> km_room s1" using assms(4) s1(5) by simp
  obtain s2 xs2 where s2: "sendMessage 1 ?p 3 s1 = Inr s2" "ipc_inv s2 A"
    "msg_rep s2 xs2 (ms @ [(1, [?x, ?y, 0x5A])])" "km_room s2 + 35 = km_room s" "ipc_step s1 s2"
    using sendMessage_queue [OF s1(2,3) run room sp] s1(4,5) by auto
  have "main_step seed s = Inr (next_seed seed, s2)"
    using s1(1) s2(1) by (auto simp: main_step_def Let_def bindR_eq_Inr)
  then show ?thesis
    using s2 ipc_step_trans [OF s1(6) s2(5)] by (auto simp: cell_message_def)
qed

lemma main_rounds_sends:
  assumes "ipc_inv s A" and "msg_rep s xs ms" and "isRunning 1 s = Inr True" and "35 * n + 16 \<le> km_room s"
    and "span (addr_ms s) 3 \<subseteq> A - km_area"
  shows "\<exists>seed' s' xs'. main_rounds n seed s = Inr (seed', s') \<and> ipc_inv s' A
    \<and> msg_rep s' xs' (ms @ map cell_message (seeds n seed)) \<and> km_room s' + 35 * n = km_room s"
  using assms
proof (induction n arbitrary: seed s xs ms)
  case 0
  then show ?case by auto
next
  case (Suc n)
  have r: "51 \<le> km_room s" using Suc.prems(4) by simp
  obtain s1 xs1 where s1: "main_step seed s = Inr (next_seed seed, s1)" "ipc_inv s1 A"
    "msg_rep s1 xs1 (ms @ [cell_message (next_seed seed)])" "km_room s1 + 35 = km_room s" "ipc_step s s1"
    using main_step_sends [OF Suc.prems(1-3) r Suc.prems(5)] by blast
  have "addr_ms s1 = addr_ms s" using ipc_step_fields(6) [OF s1(5)] by (cases s; cases s1) simp
  moreover have "isRunning 1 s1 = Inr True" using isRunning_step [OF s1(5)] Suc.prems(3) by simp
  ultimately obtain seed' s' xs' where "main_rounds n (next_seed seed) s1 = Inr (seed', s')" "ipc_inv s' A"
    "msg_rep s' xs' ((ms @ [cell_message (next_seed seed)]) @ map cell_message (seeds n (next_seed seed)))"
    "km_room s' + 35 * n = km_room s1"
    using Suc.IH [OF s1(2,3), of "next_seed seed"] Suc.prems(4,5) s1(4) by auto
  then show ?case using s1(1,4) by auto
qed

subsection \<open>Drawing what arrives\<close>

lemma bytes_at_load:
  assumes "bytes_at m p 3 = [x, y, z]"
  shows "m p = x" and "m (p + 1) = y" and "m (p + 2) = z"
  using assms by (simp_all add: bytes_at_3)

lemma sint_small:
  fixes x :: u8
  assumes "unat x < 128"
  shows "sint x = int (unat x)"
proof -
  have "int (unat x) < 128" using assms by linarith
  then have "uint x < 2 ^ 7" by simp
  moreover have "- (2 ^ 7) \<le> uint x" by (rule order_trans [OF _ uint_ge_0]) simp
  ultimately have "signed_take_bit 7 (uint x) = uint x" by (intro signed_take_bit_int_eq_self)
  then show ?thesis by (simp add: sint_uint)
qed

lemma program1_draws:
  assumes "ipc_inv s A" and "msg_rep s xs ms" and "currentThread s = Inr i" and "8 \<le> km_room s"
    and "ms = as @ (i, [x, y, b]) # cs" and "\<forall>m\<in>set as. fst m \<noteq> i"
    and "fresh_block (cli s) A 3 d s1" and "d \<noteq> 0" and "unat x < 80" and "unat y < 25"
  defines "pos \<equiv> 2 * (int (unat y) * 80 + int (unat x))"
  shows "\<exists>s' xs'. program1_step s = Inr s' \<and> ipc_inv s' A \<and> msg_rep s' xs' (as @ cs)
    \<and> vram (con s') pos = b \<and> vram (con s') (pos + 1) = COLOR_WHITE \<and> 0 \<le> pos \<and> pos + 1 < 4000"
proof -
  obtain s2 xs2 where s2: "receiveMessage s = Inr (d, Some 3, s2)" "ipc_inv s2 A" "msg_rep s2 xs2 (as @ cs)"
    "bytes_at (vview s2) d 3 = [x, y, b]"
    using receive_first [OF assms(1-6), of d s1] assms(7) by auto
  have "span d 3 \<subseteq> A" using assms(7) by (auto simp: fresh_block_def)
  then have in_A: "d \<in> A" "d + 1 \<in> A" "d + 2 \<in> A" using span_3 by blast+
  have area: "data_area s2 A" using s2(2) by (simp add: ipc_inv_def)
  note ld = vload8_area [OF area]
  have sx: "sint x = int (unat x)" "sint y = int (unat y)" using sint_small assms(9,10) by simp_all
  define s3 where "s3 = draw_cell (sint x) (sint y) b s2"
  have "program1_step s = Inr s3"
    using s2(1) ld [OF in_A(1)] ld [OF in_A(2)] ld [OF in_A(3)] bytes_at_load [OF s2(4)] assms(8)
    by (simp add: program1_step_def s3_def)
  moreover have "vram (con s3) pos = b" "vram (con s3) (pos + 1) = COLOR_WHITE"
    by (simp_all add: s3_def draw_cell_def Let_def pos_def sx)
  moreover have "0 \<le> pos" unfolding pos_def by simp
  moreover have "pos + 1 < 4000"
  proof -
    have "int (unat x) < 80" "int (unat y) < 25" using assms(9,10) by linarith+
    moreover have "2 * (c * 80 + a) + 1 < 4000" if "a < 80" "c < 25" for a c :: int
    proof -
      have "a \<le> 79" "c \<le> 24" using that by simp_all
      then show ?thesis by simp
    qed
    ultimately show ?thesis unfolding pos_def by blast
  qed
  moreover have "ipc_inv s3 A" "msg_rep s3 xs2 (as @ cs)"
    using s2(2,3) by (simp_all add: s3_def draw_cell_def Let_def ipc_inv_def task_inv_def km_inv_def km_used_def
        msg_rep_def mq.members_def mq_links_def msg_span_def msg_of_def cong: map_cong)
  ultimately show ?thesis by blast
qed

subsection \<open>The programs of the launcher\<close>

lemma launcher_adds:
  assumes "length ps \<le> 10" and "m_current l = 0"
  shows "m_current (fold launcher_add ps l) = int (length ps) mod 10
    \<and> (\<forall>i<length ps. m_programs (fold launcher_add ps l) (int i) = ps ! i)"
  using assms
proof (induction ps rule: rev_induct)
  case Nil
  then show ?case by simp
next
  case (snoc p ps)
  then have len: "length ps < 10" by simp
  with snoc show ?case
    by (auto simp: launcher_add_def Let_def nth_append less_Suc_eq signed_modulo_int_def add.commute)
qed

lemma find_program_first:
  assumes "\<forall>p\<in>set ps. str_at m (getName p) (title p) \<and> length (title p) < 2 ^ 32" and "str_at m line w"
  shows "find_program getName m line ps = Inr (case List.find (\<lambda>p. title p = w) ps of None \<Rightarrow> 0 | Some p \<Rightarrow> p)"
  using assms(1)
proof (induction ps)
  case Nil
  then show ?case by simp
next
  case (Cons p ps)
  then have p: "str_at m (getName p) (title p)" "length (title p) < loop_fuel" by (simp_all add: loop_fuel_def)
  obtain d where "kstrcmp m (getName p) line = Inr d" "d = 0 \<longleftrightarrow> title p = w"
    using kstrcmp_loop_str [OF p(1) assms(2) p(2)] by (auto simp: kstrcmp_def)
  with Cons show ?case by simp
qed


subsection \<open>Properties\<close>

text \<open>The facts about messages concern the fields up to the queue, whatever else the state has.\<close>

lemma truncate_queue:
  "ipc_inv (ipc.truncate s) A = ipc_inv s A" "msg_rep (ipc.truncate s) xs ms = msg_rep s xs ms"
  "km_room (ipc.truncate s) = km_room s" "vview (ipc.truncate s) = vview s"
proof -
  have sp: "same_space (ipc.truncate s) s" by (simp add: same_space_def ipc.defs)
  note v = vmm_agree [OF sp]
  show "vview (ipc.truncate s) = vview s" by (rule v(9))
  show "km_room (ipc.truncate s) = km_room s" by (simp add: km_room_def ipc.defs)
  have u: "km_used (ipc.truncate s) = km_used s" "mnodes (ipc.truncate s) = mnodes s"
    "msgs (ipc.truncate s) = msgs s" "tnodes (ipc.truncate s) = tnodes s" "km_inv (ipc.truncate s) = km_inv s"
    by (simp_all add: km_used_def km_inv_def ipc.defs)
  show "ipc_inv (ipc.truncate s) A = ipc_inv s A"
    using v u by (simp add: ipc_inv_def task_inv_def)
  show "msg_rep (ipc.truncate s) xs ms = msg_rep s xs ms"
    using v u by (simp add: msg_rep_def mq.members_def mq_links_def msg_span_def msg_of_def cong: map_cong)
qed

lemma truncate_threads: "isRunning i (ipc.truncate s) = isRunning i s"
proof -
  have f: "tnodes (ipc.truncate s) = tnodes s" "threads (ipc.truncate s) = threads s"
    "current_thread (ipc.truncate s) = current_thread s" "ready_queue (ipc.truncate s) = ready_queue s"
    by (simp_all add: ipc.defs)
  have "running_loop k i it (ipc.truncate s) = running_loop k i it s" for k it
    by (induction k arbitrary: it) (simp_all add: tnode_at_def thread_at_def f cong: if_cong)
  then show ?thesis
    by (simp add: isRunning_def currentThread_def tnode_at_def thread_at_def f del: running_loop.simps cong: if_cong)
qed

text \<open>The machine of the messages, with a message buffer of the main loop at \<open>0x90000\<close>.\<close>

definition demo_kernel :: kernel where
  "demo_kernel = idt.extend (kbd.extend (sched.extend (ipc.extend demo_ipc (sched.fields 0x9FF00 0x9FF40 1 2 3 0x202))
       (kbd.fields False [] (replicate 78 0) 0 (\<lambda>_. False) (\<lambda>_. 0) 0 False False 0 0))
     (idt.fields (\<lambda>_. \<lparr>low_offset = 0, selector = 0, settings = 0, high_offset = 0\<rparr>) (\<lambda>_. None)
        0 0 (0, 0) 8 0 0x00110000 (\<lambda>_. 0) (\<lambda>_. 0) 0))
     (kernel.fields 0x2BADB002 0x9F000 0x90000)"

lemma demo_kernel_ipc: "ipc.truncate demo_kernel = demo_ipc"
  by (simp add: demo_kernel_def idt.defs kbd.defs sched.defs ipc.defs kernel.defs)


lemma demo_kernel_queue:
  "ipc_inv demo_kernel low_mem" "km_room demo_kernel = 0x000FFC00" "addr_ms demo_kernel = 0x90000"
  "msg_rep demo_kernel [0x00200080, 0x002000B0, 0x002000E0] [(1, [0x41, 0x42]), (0, [1, 2, 3]), (0, [9])]"
  "isRunning 1 demo_kernel = Inr True"
proof -
  note tr = truncate_queue [of demo_kernel, unfolded demo_kernel_ipc]
  show "ipc_inv demo_kernel low_mem" using demo_ipc_inv(1) tr(1) by blast
  show "km_room demo_kernel = 0x000FFC00" using demo_ipc_inv(2) tr(3) by simp
  show "msg_rep demo_kernel [0x00200080, 0x002000B0, 0x002000E0] [(1, [0x41, 0x42]), (0, [1, 2, 3]), (0, [9])]"
    using demo_msgs tr(2) by blast
  show "isRunning 1 demo_kernel = Inr True"
    using demo_ipc_threads(1) [of 1] truncate_threads [of 1 demo_kernel] by (simp add: demo_kernel_ipc)
  show "addr_ms demo_kernel = 0x90000" by (simp add: demo_kernel_def kernel.defs idt.defs)
qed

text \<open>C9: Every round of the main loop sends process 1 one cell inside the screen, behind all earlier
  messages, and takes 35 bytes of the kernel heap for good, which received messages do not give back:
  after fewer than 30000 rounds the megabyte has no room for another message.\<close>

theorem main_loop_sends_cells:
  assumes "ipc_inv s A" and "msg_rep s xs ms" and "isRunning 1 s = Inr True" and "35 * n + 16 \<le> km_room s"
    and "span (addr_ms s) 3 \<subseteq> A - km_area"
  shows "(\<exists>seed' s' xs'. main_rounds n seed s = Inr (seed', s') \<and> ipc_inv s' A
      \<and> msg_rep s' xs' (ms @ map cell_message (seeds n seed)) \<and> km_room s' + 35 * n = km_room s)
    \<and> (\<forall>seed'\<in>set (seeds n seed). unat (seed_x seed') < 80 \<and> unat (seed_y seed') < 25)"
  using main_rounds_sends [OF assms] seed_x_less seed_y_less by auto

lemma main_loop_sends_cells_witness:
  "\<exists>seed' s' xs. main_rounds 29929 123456 demo_kernel = Inr (seed', s') \<and> km_room s' = 37
    \<and> msg_rep s' xs ([(1, [0x41, 0x42]), (0, [1, 2, 3]), (0, [9])] @ map cell_message (seeds 29929 123456))"
proof -
  have "span 0x90000 3 \<subseteq> low_mem - km_area" by (auto simp: span_small low_mem_def km_area_def)
  then show ?thesis
    using main_loop_sends_cells [OF demo_kernel_queue(1,4,5), of 29929 123456]
    unfolding demo_kernel_queue by auto
qed



text \<open>C40: With fewer than ten programs added, a typed line starts the first program whose name it is, or
  reports that there is none; with ten programs the launcher knows none of them.\<close>

theorem launcher_finds_program:
  assumes "length ps \<le> 10" and "\<forall>p\<in>set ps. str_at (pmem s) (getName p) (title p) \<and> length (title p) < 2 ^ 32"
    and "str_at (pmem s) line w" and "0 \<notin> set ps"
  shows "lineEntered getName (fold launcher_add ps (fst (launcher_ctor l s0))) line s =
    (let s = printlnk '''' s in
     case if length ps < 10 then List.find (\<lambda>p. title p = w) ps else None of
       Some p \<Rightarrow> bindR (createThread p s) (\<lambda>(result, s). Inr s)
     | None \<Rightarrow> Inr (printlnk ''Couldn't find it.'' s))"
proof -
  let ?l = "fold launcher_add ps (fst (launcher_ctor l s0))"
  have cur: "m_current (fst (launcher_ctor l s0)) = 0" by (simp add: launcher_ctor_def)
  note la = launcher_adds [OF assms(1) cur]
  have mem: "pmem (printlnk '''' s) = pmem s" by (simp add: printlnk_def)
  define qs where "qs = map (m_programs ?l) [0..m_current ?l - 1]"
  have "qs = (if length ps < 10 then ps else [])"
  proof (cases "length ps < 10")
    case True
    then have "m_current ?l = int (length ps)" using la by simp
    then have "length qs = length ps" "\<forall>i<length ps. qs ! i = ps ! i" using la by (simp_all add: qs_def)
    with True show ?thesis by (simp add: nth_equalityI)
  next
    case False
    then show ?thesis using assms(1) la by (simp add: qs_def)
  qed
  moreover have "find_program getName (pmem s) line ps
    = Inr (case List.find (\<lambda>p. title p = w) ps of None \<Rightarrow> 0 | Some p \<Rightarrow> p)"
    by (rule find_program_first [OF assms(2,3)])
  moreover have "p \<noteq> 0" if "List.find (\<lambda>p. title p = w) ps = Some p" for p
    using that assms(4) by (metis find_Some_iff nth_mem)
  ultimately show ?thesis
    unfolding lineEntered_def Let_def mem qs_def [symmetric] by (auto split: option.split)
qed

lemma launcher_finds_program_witness:
  "lineEntered (\<lambda>_. 0x100) (fold launcher_add (replicate 10 0x500) (fst (launcher_ctor \<lparr>m_programs = \<lambda>_. 0, m_current = 0\<rparr> demo_ipc))) 0x100
     (demo_ipc\<lparr>pmem := demo_strings\<rparr>)
   = Inr (printlnk ''Couldn't find it.'' (printlnk '''' (demo_ipc\<lparr>pmem := demo_strings\<rparr>)))"
  using launcher_finds_program [of "replicate 10 0x500" "demo_ipc\<lparr>pmem := demo_strings\<rparr>" "\<lambda>_. 0x100"
      "\<lambda>_. [0x61, 0x62]" "0x100" "[0x61, 0x62]" "\<lparr>m_programs = \<lambda>_. 0, m_current = 0\<rparr>" demo_ipc] demo_strings_at by simp

end
