(* ===== verification/Creation.thy ===== *)
theory Creation
  imports Scheduler Messages
begin

text \<open>
  Creating a thread: \<^verbatim>\<open>createThread\<close> makes a descriptor in the kernel heap and a stack in the heap of the
  process, on which the first switch to the thread finds \<^verbatim>\<open>thread_start\<close>, its return address
  \<^verbatim>\<open>thread_exit\<close> and the program object. A stack has 1024 bytes, an unusual size for the process heap; the theorems
  are about the first one of a heap.
\<close>

subsection \<open>Steps that leave the kernel heap alone\<close>

lemma ipc_inv_kept:
  assumes "ipc_inv s A" and "data_area s' A" and "\<forall>a\<in>A. translate s' a = translate s a"
    and "\<forall>a\<in>km_area. vview s' a = vview s a" and "8 \<le> km_room s"
    and "current_address s' = current_address s" and "start_address s' = start_address s"
    and "last_valid_address s' = last_valid_address s" and "is_initialized s' = is_initialized s"
    and "dom (tnodes s') = dom (tnodes s)" and "dom (mnodes s') = dom (mnodes s)"
  shows "ipc_inv s' A" and "km_used s' = km_used s" and "km_room s' = km_room s"
proof -
  show u: "km_used s' = km_used s" "km_room s' = km_room s" using assms(6) by (simp_all add: km_used_def km_room_def)
  have km: "km_inv s" and sub: "km_area \<subseteq> A" and id: "\<forall>a\<in>km_area. translate s a = Some a"
    using assms(1) by (simp_all add: ipc_inv_def task_inv_def)
  have mem: "pmem s' a = pmem s a" if "a \<in> km_area" for a
  proof -
    have "translate s' a = Some a" using that assms(3) sub id by auto
    then show ?thesis using that assms(4) id by (auto simp: vview_def)
  qed
  have "pmem s' a = pmem s a" if "a \<in> hdr_cells (current_address s)" for a
    using mem hdr_current(1) [OF km assms(5) that] by blast
  then have "load32 (pmem s') (current_address s) = load32 (pmem s) (current_address s)"
    "load32 (pmem s') (current_address s + 4) = load32 (pmem s) (current_address s + 4)"
    by (simp_all add: load32_def hdr_cells_def cell_def)
  then have "km_inv s'" using km assms(6-9) by (simp add: km_inv_def mb_is_available_def mb_size_def)
  then show "ipc_inv s' A"
    using assms(1-3,10,11) sub u by (auto simp: ipc_inv_def task_inv_def)
qed

lemma km_write_pages:
  assumes "ipc_inv s A" and "\<forall>a. a \<notin> km_area \<longrightarrow> m a = pmem s a"
  shows "free_pages (s\<lparr>pmem := m\<rparr>) = free_pages s" and "pde (s\<lparr>pmem := m\<rparr>) = pde s"
proof -
  have area: "data_area s A" and sub: "km_area \<subseteq> A" and id: "\<forall>a\<in>km_area. translate s a = Some a"
    using assms(1) by (simp_all add: ipc_inv_def)
  have inv: "vm_inv s" using area by (simp add: data_area_def)
  have "plain_mem s a" if "a \<in> km_area" for a
    using that area sub id by (fastforce simp: data_area_def)
  then have keep: "m a = pmem s a" if "\<not> plain_mem s a" for a using that assms(2) by blast
  show "free_pages (s\<lparr>pmem := m\<rparr>) = free_pages s" "pde (s\<lparr>pmem := m\<rparr>) = pde s"
    using plain_update(4,5) [OF inv keep] by simp_all
qed

lemma km_write_area:
  assumes "ipc_inv s A" and "\<forall>a. a \<notin> km_area \<longrightarrow> m a = pmem s a"
  shows "area_step s A (s\<lparr>pmem := m\<rparr>)"
proof -
  have area: "data_area s A" and sub: "km_area \<subseteq> A" and id: "\<forall>a\<in>km_area. translate s a = Some a"
    using assms(1) by (simp_all add: ipc_inv_def)
  have inv: "vm_inv s" using area by (simp add: data_area_def)
  have "plain_mem s a" if "a \<in> km_area" for a
    using that area sub id by (fastforce simp: data_area_def)
  then have keep: "m a = pmem s a" if "\<not> plain_mem s a" for a using that assms(2) by blast
  have "pmem (s\<lparr>pmem := m\<rparr>) p = pmem s p" if "\<forall>a\<in>A. translate s a \<noteq> Some p" for p
    using that assms(2) sub id by auto
  then show ?thesis using plain_update(2,3,5) [OF inv keep] by (simp add: area_step_def)
qed

lemma ipc_alloc_area:
  assumes "ipc_inv s A" and "unat bytes + 16 \<le> km_room s"
  shows "area_step s A (s\<lparr>pmem := taken_mem (pmem s) (current_address s) bytes, current_address := ca\<rparr>)"
proof -
  have km: "km_inv s" using assms(1) by (simp add: ipc_inv_def task_inv_def)
  have "\<forall>a. a \<notin> km_area \<longrightarrow> taken_mem (pmem s) (current_address s) bytes a = pmem s a"
    using km assms(2) by (auto simp: km_area_def km_inv_def km_room_def intro!: taken_mem_frame)
  from area_step_trans [OF km_write_area [OF assms(1) this] area_step_same] show ?thesis
    by (simp add: same_space_def)
qed

lemma grow_ok_cong:
  assumes "grow_ok s A cur sz" and "data_area s' A" and "translate s' = translate s" and "free_pages s' = free_pages s"
    and "pde s' = pde s"
  shows "grow_ok s' A cur sz"
  using assms by (simp add: grow_ok_def off_free_def)

text \<open>The new descriptor, before the stack is known.\<close>

definition blank_thread :: "u32 \<Rightarrow> u32 \<Rightarrow> u32 \<Rightarrow> thread" where
  "blank_thread pd h i = \<lparr>t_esp = 0, t_ebp = 0, t_ebx = 0, t_esi = 0, t_edi = 0, t_eflags = 0,
     t_page_directory = pd, t_heap = h, t_id = i, t_stack = 0\<rparr>"

definition new_thread :: "u32 \<Rightarrow> u32 \<Rightarrow> u32 \<Rightarrow> u32 \<Rightarrow> thread" where
  "new_thread stk pd h i = (blank_thread pd h i)\<lparr>t_stack := stk, t_esp := stk + 4 * 0xFC - 12, t_ebp := 0, t_eflags := 0x200\<rparr>"

text \<open>What the first switch to the thread finds on its stack.\<close>

definition start_frame :: "mem \<Rightarrow> u32 \<Rightarrow> u32 list" where
  "start_frame m sp = [load32 m sp, load32 m (sp + 4), load32 m (sp + 8)]"

lemma ipc_inv_con [simp]:
  "ipc_inv (s\<lparr>con := c\<rparr>) A = ipc_inv s A" "km_room (s\<lparr>con := c\<rparr>) = km_room s" "km_used (s\<lparr>con := c\<rparr>) = km_used s"
  "grow_ok (s\<lparr>con := c\<rparr>) A cur sz = grow_ok s A cur sz" "heap_ok (s\<lparr>con := c\<rparr>) this h = heap_ok s this h"
proof -
  have sp: "same_space (s\<lparr>con := c\<rparr>) s" for s :: "'b vmm_scheme" by (simp add: same_space_def)
  show u: "km_room (s\<lparr>con := c\<rparr>) = km_room s" "km_used (s\<lparr>con := c\<rparr>) = km_used s" for s :: "'b kmm_scheme"
    by (simp_all add: km_room_def km_used_def)
  show "ipc_inv (s\<lparr>con := c\<rparr>) A = ipc_inv s A" for s :: "'b ipc_scheme"
    using vmm_agree [OF sp] by (simp add: ipc_inv_def task_inv_def km_inv_def u)
  show "grow_ok (s\<lparr>con := c\<rparr>) A cur sz = grow_ok s A cur sz" for s :: "'b kheap_scheme"
    using vmm_agree [OF sp] by (simp add: grow_ok_def off_free_def)
  show "heap_ok (s\<lparr>con := c\<rparr>) this h = heap_ok s this h" for s :: "'b kheap_scheme" by (simp add: heap_ok_def)
qed

lemma span_cell:
  assumes "span p n \<subseteq> B" and "k + 4 \<le> unat n"
  shows "cell (p + of_nat k) \<subseteq> B"
proof -
  have "p + of_nat j \<in> B" if "j < unat n" for j
  proof -
    have "p + of_nat j \<in> span p n" using that unat_u32_less [of n] by (simp add: span_def unat_of_nat_u32)
    then show ?thesis using assms(1) by blast
  qed
  from this [of k] this [of "k + 1"] this [of "k + 2"] this [of "k + 3"] show ?thesis
    using assms(2) by (auto simp: cell_def ac_simps)
qed

lemma vwrite32_mem:
  assumes "vwrite32 p v s = Inr s'"
  shows "\<exists>q. s' = s\<lparr>pmem := q\<rparr>"
proof -
  have st: "\<exists>q. t' = t\<lparr>pmem := q\<rparr>" if "vstore8 a b t = Inr t'" for a b and t t' :: "'a vmm_scheme"
    using that by (auto simp: vstore8_def bindR_eq_Inr)
  obtain s1 s2 s3 where "vstore8 p (ucast v) s = Inr s1" "vstore8 (p + 1) (ucast (drop_bit 8 v)) s1 = Inr s2"
    "vstore8 (p + 2) (ucast (drop_bit 16 v)) s2 = Inr s3" "vstore8 (p + 3) (ucast (drop_bit 24 v)) s3 = Inr s'"
    using assms by (auto simp: vwrite32_def bindR_eq_Inr)
  note this [THEN st]
  then show ?thesis by auto
qed

text \<open>The processor's and the process heap's registers, which creating a thread leaves alone.\<close>

definition same_process :: "'a kheap_scheme \<Rightarrow> 'b kheap_scheme \<Rightarrow> bool" where
  "same_process s s' \<longleftrightarrow> cr0 s' = cr0 s \<and> cr3 s' = cr3 s \<and> current_page_directory s' = current_page_directory s
     \<and> kernel_page_directory s' = kernel_page_directory s \<and> currentHeap s' = currentHeap s"

text \<open>The fields that the task manager, the heaps and the address spaces change: \<open>put_tasks\<close> takes them from
  its first argument and all others from its second.\<close>

definition put_tasks :: "'a tasks_scheme \<Rightarrow> 'a tasks_scheme \<Rightarrow> 'a tasks_scheme" where
  "put_tasks s' s = s\<lparr>con := con s', pmem := pmem s', is_initialized := is_initialized s', start_address := start_address s',
     last_valid_address := last_valid_address s', current_address := current_address s', first_free_index := first_free_index s',
     cr3 := cr3 s', current_page_directory := current_page_directory s', heap_objs := heap_objs s', currentHeap := currentHeap s',
     threads := threads s', tnodes := tnodes s', current_thread := current_thread s', ready_queue := ready_queue s', tid := tid s'\<rparr>"

definition task_step :: "'a tasks_scheme \<Rightarrow> 'a tasks_scheme \<Rightarrow> bool" where
  "task_step s s' \<longleftrightarrow> s' = put_tasks s' s"

lemma put_tasks_twice: "put_tasks a (put_tasks b s) = put_tasks a s"
  by (simp add: put_tasks_def)

lemma task_step_trans: "task_step s s1 \<Longrightarrow> task_step s1 s2 \<Longrightarrow> task_step s s2"
  unfolding task_step_def by (metis put_tasks_twice)

lemma task_stepI:
  "task_step s (s\<lparr>con := c\<rparr>)" "task_step s (s\<lparr>tid := i\<rparr>)" "task_step s (put_thread p t s)"
  "task_step s (s\<lparr>pmem := m, current_address := a\<rparr>)" "task_step s (s\<lparr>currentHeap := h\<rparr>)"
  "task_step s (s\<lparr>con := c, pmem := m, first_free_index := f\<rparr>)" "task_step s (switch_page_directory d s)"
  "task_step s (s\<lparr>con := c, pmem := m, current_address := a, tnodes := tn, ready_queue := rq\<rparr>)"
  by (simp_all add: task_step_def put_tasks_def put_thread_def switch_page_directory_def)

lemma heap_step_task: "heap_step s s' \<Longrightarrow> task_step s s'"
  by (auto simp: heap_step_def task_step_def put_tasks_def)

lemma task_step_fields:
  assumes "task_step s s'"
  shows "iflag s' = iflag s" and "cr0 s' = cr0 s" and "bitmap s' = bitmap s" and "kernel_page_directory s' = kernel_page_directory s"
    and "addr_thread_start s' = addr_thread_start s" and "addr_thread_exit s' = addr_thread_exit s"
proof -
  have s': "s' = put_tasks s' s" using assms by (simp add: task_step_def)
  show "iflag s' = iflag s" by (subst s') (simp add: put_tasks_def)
  show "cr0 s' = cr0 s" by (subst s') (simp add: put_tasks_def)
  show "bitmap s' = bitmap s" by (subst s') (simp add: put_tasks_def)
  show "kernel_page_directory s' = kernel_page_directory s" by (subst s') (simp add: put_tasks_def)
  show "addr_thread_start s' = addr_thread_start s" by (subst s') (simp add: put_tasks_def)
  show "addr_thread_exit s' = addr_thread_exit s" by (subst s') (simp add: put_tasks_def)
qed

text \<open>The stack and its three words.\<close>

lemma start_stack:
  assumes "ipc_inv s A" and "8 \<le> km_room s" and "heap_ok s (currentHeap s) hp" and "list_array hp ! 10 = 0"
    and "cur = current_mem_addr hp" and "grow_ok s A cur 0x400" and "span cur 1032 \<subseteq> A - km_area"
  defines "sp \<equiv> cur + 8 + 4 * 0xFC"
  shows "\<exists>s1. bindR (kmalloc (currentHeap s) 0x400 s) (\<lambda>(stk, s). bindR (vwrite32 (stk + 4 * 0xFC - 4) x s) (\<lambda>s.
      bindR (vwrite32 (stk + 4 * 0xFC - 8) y s) (\<lambda>s. bindR (vwrite32 (stk + 4 * 0xFC - 12) z s) (\<lambda>s. Inr (stk, s)))))
      = Inr (cur + 8, s1)
    \<and> ipc_inv s1 A \<and> km_used s1 = km_used s \<and> km_room s1 = km_room s \<and> heap_step s s1 \<and> area_step s A s1
    \<and> start_frame (vview s1) (sp - 12) = [z, y, x]"
proof -
  have area: "data_area s A" and kA: "km_area \<subseteq> A" using assms(1) by (simp_all add: ipc_inv_def)
  have km: "km_inv s" using assms(1) by (simp add: ipc_inv_def task_inv_def)
  obtain s1 where s1: "kmalloc (currentHeap s) 0x400 s = Inr (cur + 8, s1)" "data_area s1 A" "heap_step s s1" "area_step s A s1"
    "\<forall>a\<in>A. translate s1 a = translate s a" "\<forall>a\<in>A - hdr_cells cur. vview s1 a = vview s a"
    using kmalloc_first_large [OF assms(3) _ assms(4,5,6)] by auto
  have cells: "cell (cur + of_nat k) \<subseteq> A - km_area" if "k < 1028" for k
    using span_cell [OF assms(7)] that by simp
  have hd: "hdr_cells cur \<subseteq> A - km_area" using cells [of 0] cells [of 4] by (simp add: hdr_cells_def)
  have i1: "ipc_inv s1 A" "km_used s1 = km_used s" "km_room s1 = km_room s"
    by (rule ipc_inv_kept [OF assms(1) s1(2,5) _ assms(2)]; use s1(3,6) hd kA in \<open>auto simp: heap_step_def\<close>)+
  have c: "cell (sp - 4) \<subseteq> A - km_area" "cell (sp - 8) \<subseteq> A - km_area" "cell (sp - 12) \<subseteq> A - km_area"
    using cells [of 1012] cells [of 1008] cells [of 1004] by (simp_all add: sp_def add.commute)
  obtain s2 where s2: "vwrite32 (sp - 4) x s1 = Inr s2" "wrote s1 A (store32 (vview s1) (sp - 4) x) s2"
    using vwrite32_area [OF s1(2), of "sp - 4"] c(1) by blast
  obtain s3 where s3: "vwrite32 (sp - 8) y s2 = Inr s3" "wrote s2 A (store32 (vview s2) (sp - 8) y) s3"
    using vwrite32_area [OF wroteD(2) [OF s2(2)], of "sp - 8"] c(2) by blast
  obtain s4 where s4: "vwrite32 (sp - 12) z s3 = Inr s4" "wrote s3 A (store32 (vview s3) (sp - 12) z) s4"
    using vwrite32_area [OF wroteD(2) [OF s3(2)], of "sp - 12"] c(3) by blast
  have w: "wrote s1 A (vview s4) s4"
    using wrote_trans [OF s2(2) wrote_trans [OF s3(2) s4(2)]] by (rule wrote_cong) (simp add: wroteD(6) [OF s4(2)])
  have keep: "vview s4 a = vview s1 a" if "a \<in> km_area" for a
  proof -
    have "a \<in> A" "a \<notin> cell (sp - 4)" "a \<notin> cell (sp - 8)" "a \<notin> cell (sp - 12)" using that c kA by auto
    then show ?thesis
      using wroteD(6) [OF s2(2), of a] wroteD(6) [OF s3(2), of a] wroteD(6) [OF s4(2), of a] by (simp add: store32_notin)
  qed
  have i4: "ipc_inv s4 A" "km_used s4 = km_used s1" "km_room s4 = km_room s1"
    by (rule ipc_inv_kept [OF i1(1) wroteD(2) [OF w]];
        use w keep i1(3) assms(2) in \<open>auto simp: wrote_def\<close>)+
  have cA: "cell (sp - 4) \<subseteq> A" "cell (sp - 8) \<subseteq> A" "cell (sp - 12) \<subseteq> A" using c by auto
  have ap: "apart32 (sp - 4) (sp - 8)" "apart32 (sp - 4) (sp - 12)" "apart32 (sp - 8) (sp - 12)"
    "apart32 (sp - 8) (sp - 4)" "apart32 (sp - 12) (sp - 4)" "apart32 (sp - 12) (sp - 8)"
    by (simp_all add: apart32_def)
  have "load32 (vview s4) (sp - 12) = z" "load32 (vview s4) (sp - 8) = y" "load32 (vview s4) (sp - 4) = x"
    using load32_wrote [OF s4(2), of "sp - 12"] load32_wrote [OF s4(2), of "sp - 8"] load32_wrote [OF s4(2), of "sp - 4"]
      load32_wrote [OF s3(2), of "sp - 8"] load32_wrote [OF s3(2), of "sp - 4"] load32_wrote [OF s2(2), of "sp - 4"] cA ap
    by (simp_all add: load32_store32_same load32_store32_apart)
  then have "start_frame (vview s4) (sp - 12) = [z, y, x]" by (simp add: start_frame_def)
  moreover have "heap_step s s4" using heap_step_trans [OF s1(3) wrote_heap_step [OF w]] .
  moreover have "area_step s A s4" using area_step_trans [OF s1(4) wrote_area_step [OF w]] .
  ultimately show ?thesis
    using s1(1) s2(1) s3(1) s4(1) i4 i1 by (simp add: sp_def)
qed


lemma put_thread_area [simp]:
  "ipc_inv (put_thread p t s) A = ipc_inv s A" "km_room (put_thread p t s) = km_room s"
  "km_used (put_thread p t s) = km_used s" "vview (put_thread p t s) = vview s"
  "grow_ok (put_thread p t s) B cur sz = grow_ok s B cur sz" "heap_ok (put_thread p t s) this h = heap_ok s this h"
  "ipc_inv (s\<lparr>tid := i\<rparr>) A = ipc_inv s A" "km_room (s\<lparr>tid := i\<rparr>) = km_room s" "km_used (s\<lparr>tid := i\<rparr>) = km_used s"
  "grow_ok (s\<lparr>tid := i\<rparr>) B cur sz = grow_ok s B cur sz" "heap_ok (s\<lparr>tid := i\<rparr>) this h = heap_ok s this h"
proof -
  have sp: "same_space (put_thread p t s) s" "same_space (s\<lparr>tid := i\<rparr>) s" by (simp_all add: same_space_def put_thread_def)
  note ag = vmm_agree [OF sp(1)] vmm_agree [OF sp(2)]
  show u: "km_room (put_thread p t s) = km_room s" "km_used (put_thread p t s) = km_used s"
    "km_room (s\<lparr>tid := i\<rparr>) = km_room s" "km_used (s\<lparr>tid := i\<rparr>) = km_used s"
    by (simp_all add: put_thread_def km_room_def km_used_def)
  have k: "km_inv (put_thread p t s) = km_inv s" "km_inv (s\<lparr>tid := i\<rparr>) = km_inv s"
    by (simp_all add: km_inv_def put_thread_def)
  have "tnodes (put_thread p t s) = tnodes s" "mnodes (put_thread p t s) = mnodes s" by (simp_all add: put_thread_def)
  then show "ipc_inv (put_thread p t s) A = ipc_inv s A" "ipc_inv (s\<lparr>tid := i\<rparr>) A = ipc_inv s A"
    using ag u k by (simp_all add: ipc_inv_def task_inv_def)
  show "vview (put_thread p t s) = vview s" by (rule ag)
  show "grow_ok (put_thread p t s) B cur sz = grow_ok s B cur sz" "grow_ok (s\<lparr>tid := i\<rparr>) B cur sz = grow_ok s B cur sz"
    using ag by (simp_all add: grow_ok_def off_free_def)
  show "heap_ok (put_thread p t s) this h = heap_ok s this h" "heap_ok (s\<lparr>tid := i\<rparr>) this h = heap_ok s this h"
    by (simp_all add: heap_ok_def put_thread_def)
qed


lemma create_thread_result:
  assumes "ipc_inv s A" and "88 \<le> km_room s" and "queue_nodes s (ready_queue s) xs ts"
    and "heap_ok s (currentHeap s) hp" and "list_array hp ! 10 = 0"
    and "cur = current_mem_addr hp" and "grow_ok s A cur 0x400" and "span cur 1032 \<subseteq> A - km_area"
    and "dom (threads s) \<subseteq> km_used s"
  defines "stk \<equiv> cur + 8"
  shows "\<exists>s' thr y. create_thread_in child pd h s = Inr (0, s') \<and> ipc_inv s' A \<and> km_room s' + 68 = km_room s
    \<and> queue_nodes s' (ready_queue s') (xs @ [y]) (ts @ [thr]) \<and> y \<notin> dom (tnodes s) \<and> \<not> tl_remove (the (tnodes s' y))
    \<and> (\<forall>x k. tnodes s x = Some k \<longrightarrow> (\<exists>m. tnodes s' x = Some m \<and> tl_thread m = tl_thread k \<and> tl_remove m = tl_remove k))
    \<and> thr \<noteq> 0 \<and> thr \<notin> dom (threads s) \<and> threads s' = (threads s)(thr \<mapsto> new_thread stk pd h (tid s))
    \<and> dom (threads s') \<subseteq> km_used s' \<and> tid s' = tid s + 1 \<and> current_thread s' = current_thread s
    \<and> start_frame (vview s') (t_esp (new_thread stk pd h (tid s))) = [addr_thread_start s, addr_thread_exit s, child]
    \<and> area_step s A s' \<and> same_process s s' \<and> mnodes s' = mnodes s \<and> msgs s' = msgs s \<and> task_step s s'"
proof -
  define s0 where "s0 = printlnk '''' (printhexk (current_page_directory (printk ''PD: '' s)) (printk ''PD: '' s))"
  obtain c0 where s0: "s0 = s\<lparr>con := c0\<rparr>" by (simp add: s0_def print_defs)
  have i0: "ipc_inv s0 A" and r0: "unat (40 :: u32) + 16 \<le> km_room s0" using assms(1,2) by (simp_all add: s0)
  define thr where "thr = current_address s0 + 8"
  define s1 where "s1 = s0\<lparr>pmem := taken_mem (pmem s0) (current_address s0) 40,
      current_address := current_address s0 + 8 + 40\<rparr>"
  note a1 = ipc_alloc [OF i0 r0, folded thr_def s1_def]
  define s2 where "s2 = printlnk ''2'' ((put_thread thr (blank_thread pd h (tid s)) s1)\<lparr>tid := tid s + 1\<rparr>)"
  obtain c2 where s2: "s2 = (put_thread thr (blank_thread pd h (tid s)) s1)\<lparr>tid := tid s + 1, con := c2\<rparr>"
    by (simp add: s2_def print_defs)
  have i2: "ipc_inv s2 A" and u2: "km_used s2 = km_used s1" "km_room s2 = km_room s1"
    using a1(2) by (simp_all add: s2)
  have r2: "8 \<le> km_room s2" using a1(10) assms(2) by (simp add: u2 s0)
  have heap2: "heap_ok s2 (currentHeap s2) hp"
    using assms(4) by (simp add: s2 s1_def s0 heap_ok_def put_thread_def)
  have km0: "km_inv s0" using i0 by (simp add: ipc_inv_def task_inv_def)
  have out: "\<forall>a. a \<notin> km_area \<longrightarrow> taken_mem (pmem s0) (current_address s0) 40 a = pmem s0 a"
    using km0 r0 by (auto simp: km_area_def km_inv_def km_room_def intro!: taken_mem_frame)
  have sp1: "same_space s1 (s0\<lparr>pmem := taken_mem (pmem s0) (current_address s0) 40\<rparr>)" by (simp add: s1_def same_space_def)
  note ag1 = vmm_agree [OF sp1] and wr = km_write [OF i0 out] and wp = km_write_pages [OF i0 out]
  have area1: "data_area s1 A" using a1(2) by (simp add: ipc_inv_def)
  have "grow_ok s0 A cur 0x400" using assms(7) by (simp add: s0)
  then have "grow_ok s1 A cur 0x400"
    by (rule grow_ok_cong [OF _ area1]) (simp_all add: ag1 wr wp)
  then have grow2: "grow_ok s2 A cur 0x400" by (simp add: s2)
  obtain s3 where s3: "bindR (kmalloc (currentHeap s2) 0x400 s2) (\<lambda>(stk, s). bindR (vwrite32 (stk + 4 * 0xFC - 4) child s) (\<lambda>s.
      bindR (vwrite32 (stk + 4 * 0xFC - 8) (addr_thread_exit s2) s) (\<lambda>s.
      bindR (vwrite32 (stk + 4 * 0xFC - 12) (addr_thread_start s2) s) (\<lambda>s. Inr (stk, s))))) = Inr (stk, s3)"
    "ipc_inv s3 A" "km_used s3 = km_used s2" "km_room s3 = km_room s2" "heap_step s2 s3"
    "start_frame (vview s3) (stk + 4 * 0xFC - 12) = [addr_thread_start s2, addr_thread_exit s2, child]" "area_step s2 A s3"
    using start_stack [OF i2 r2 heap2 assms(5,6) grow2 assms(8), of child "addr_thread_exit s2" "addr_thread_start s2"]
    unfolding stk_def by blast
  have f3: "threads s3 = (threads s)(thr \<mapsto> blank_thread pd h (tid s))" "tnodes s3 = tnodes s" "tid s3 = tid s + 1"
    "ready_queue s3 = ready_queue s" "current_thread s3 = current_thread s"
    "addr_thread_start s3 = addr_thread_start s" "addr_thread_exit s3 = addr_thread_exit s"
    using s3(5) by (auto simp: heap_step_def s2 s1_def s0 put_thread_def)
  define s4 where "s4 = put_thread thr (new_thread stk pd h (tid s)) s3"
  have i4: "ipc_inv s4 A" and u4: "km_used s4 = km_used s1" "km_room s4 + 48 = km_room s"
    using s3(2-4) u2 a1(10) assms(2) by (simp_all add: s4_def s0)
  have ti4: "task_inv s4" and room4: "20 < km_room s4" using i4 u4(2) assms(2) by (simp_all add: ipc_inv_def)
  have f4: "tnodes s4 = tnodes s" "ready_queue s4 = ready_queue s" "current_thread s4 = current_thread s"
    "threads s4 = (threads s)(thr \<mapsto> new_thread stk pd h (tid s))" "tid s4 = tid s + 1"
    using f3 by (simp_all add: s4_def put_thread_def)
  have q4: "queue_nodes s4 (ready_queue s4) xs ts" using assms(3) queue_nodes_cong [OF f4(1)] by (simp add: f4)
  obtain s5 y where s5: "addThread thr s4 = Inr s5" "task_inv s5" "km_room s5 + 20 = km_room s4"
    "queue_nodes s5 (ready_queue s5) (xs @ [y]) (ts @ [thr])" "y \<notin> dom (tnodes s4)" "\<not> tl_remove (the (tnodes s5 y))"
    "\<forall>x k. tnodes s4 x = Some k \<longrightarrow> (\<exists>m. tnodes s5 x = Some m \<and> tl_thread m = tl_thread k \<and> tl_remove m = tl_remove k)"
    "\<exists>co tn rq. s5 = s4\<lparr>con := co, pmem := taken_mem (pmem s4) (current_address s4) 12,
         current_address := current_address s4 + 8 + 12, tnodes := tn, ready_queue := rq\<rparr>"
    using addThread_result [OF ti4 room4 q4, of thr] by blast
  define s4' where "s4' = s4\<lparr>pmem := taken_mem (pmem s4) (current_address s4) 12,
         current_address := current_address s4 + 8 + 12\<rparr>"
  have r4: "unat (12 :: u32) + 16 \<le> km_room s4" using u4(2) assms(2) by simp
  note a4 = ipc_alloc [OF i4 r4, folded s4'_def]
  have sp5: "same_space s5 s4'" and m5: "mnodes s5 = mnodes s4'" and u5: "km_used s5 = km_used s4'"
    using s5(8) by (auto simp: same_space_def s4'_def km_used_def)
  note ag5 = vmm_agree [OF sp5]
  have i5: "ipc_inv s5 A" using a4(2) s5(2) ag5 m5 u5 by (simp add: ipc_inv_def)
  define s6 where "s6 = printlnk ''create--'' s5"
  obtain c6 where s6: "s6 = s5\<lparr>con := c6\<rparr>" by (simp add: s6_def print_defs)
  have f5: "threads s5 = threads s4" "current_thread s5 = current_thread s4" "tid s5 = tid s4"
    using s5(8) by auto
  have view: "vview s6 a = vview s3 a" if "a \<in> A - km_area" for a
    using that a4(9) [of a] by (simp add: s6 ag5 s4_def)
  have "cell (cur + 1004) \<subseteq> A - km_area" "cell (cur + 1008) \<subseteq> A - km_area" "cell (cur + 1012) \<subseteq> A - km_area"
    using span_cell [OF assms(8), of 1004] span_cell [OF assms(8), of 1008] span_cell [OF assms(8), of 1012] by simp_all
  then have "load32 (vview s6) p = load32 (vview s3) p" if "p \<in> {cur + 1004, cur + 1008, cur + 1012}" for p
    using that view by (auto simp: load32_def cell_def)
  then have frame: "start_frame (vview s6) (cur + 1004) = start_frame (vview s3) (cur + 1004)"
    by (simp add: start_frame_def)
  have kt: "kernel_malloc 40 s0 = Inr (thr, s1)" "thr \<noteq> 0" using a1(1,3) by simp_all
  have tid0: "tid s0 = tid s" "tid s1 = tid s" "currentHeap s1 = currentHeap s" by (simp_all add: s1_def s0)
  have stk_eq: "stk + 4 * 0xFC - 12 = cur + 1004" by (simp add: stk_def)
  obtain t1 t2 t3 where steps: "kmalloc (currentHeap s2) 0x400 s2 = Inr (stk, t1)" "vwrite32 (stk + 4 * 0xFC - 4) child t1 = Inr t2"
    "vwrite32 (stk + 4 * 0xFC - 8) (addr_thread_exit s2) t2 = Inr t3"
    "vwrite32 (stk + 4 * 0xFC - 12) (addr_thread_start s2) t3 = Inr s3"
    using s3(1) by (auto simp: bindR_eq_Inr)
  have adr: "addr_thread_exit t2 = addr_thread_exit s2" "addr_thread_start t3 = addr_thread_start s2"
  proof -
    obtain t1' where "kmalloc (currentHeap s2) 0x400 s2 = Inr (stk, t1')" "heap_step s2 t1'"
      using kmalloc_first_large [OF heap2 _ assms(5,6) grow2] by (auto simp: stk_def)
    then have "heap_step s2 t1" using steps(1) by simp
    then show "addr_thread_exit t2 = addr_thread_exit s2" "addr_thread_start t3 = addr_thread_start s2"
      using vwrite32_mem [OF steps(2)] vwrite32_mem [OF steps(3)] by (auto simp: heap_step_def)
  qed
  have thr3: "thread_at thr s3 = Inr (blank_thread pd h (tid s))" using f3(1) kt(2) by (simp add: thread_at_def deref_def)
  have s2': "s2 = printlnk ''2'' ((put_thread thr (blank_thread pd h (tid s)) s1)
      \<lparr>tid := tid (put_thread thr (blank_thread pd h (tid s)) s1) + 1\<rparr>)"
    by (simp add: s2_def tid0 put_thread_def)
  have s4': "s4 = put_thread thr ((blank_thread pd h (tid s))\<lparr>t_stack := stk, t_esp := 996 + stk, t_ebp := 0,
      t_eflags := 512\<rparr>) s3" by (simp add: s4_def new_thread_def)
  have "create_thread_in child pd h s = Inr (0, s6)"
    unfolding create_thread_in_def Let_def
    using kt steps adr thr3 s5(1)
    by (simp add: sizeof_thread_def init_thread_def s0_def [symmetric] s2' [symmetric] tid0 blank_thread_def [symmetric]
      s4' [symmetric] s6_def [symmetric])
  moreover have "thr \<notin> km_used s" "thr \<in> km_used s6" "km_used s \<subseteq> km_used s6"
    using a1(4,5,11) a4(5) u4(1) u5 by (auto simp: s0 s6)
  moreover have "queue_nodes s6 (ready_queue s6) (xs @ [y]) (ts @ [thr])"
    using s5(4) queue_nodes_cong [of s6 s5] by (simp add: s6)
  moreover have "t_esp (new_thread stk pd h (tid s)) = cur + 1004" by (simp add: new_thread_def stk_def)
  then have "start_frame (vview s6) (t_esp (new_thread stk pd h (tid s)))
      = [addr_thread_start s, addr_thread_exit s, child]"
    using frame s3(6) unfolding stk_eq by (simp add: s2 s1_def s0 put_thread_def)
  moreover have "ipc_inv s6 A" "km_room s6 + 68 = km_room s" using i5 s5(3) u4(2) by (simp_all add: s6)
  moreover have "tnodes s6 = tnodes s5" "threads s6 = threads s5" "tid s6 = tid s5" "current_thread s6 = current_thread s5"
    by (simp_all add: s6)
  moreover have "area_step s A s6"
  proof -
    have st: "area_step s A s0" "area_step s1 A s2" "area_step s3 A s4" "area_step s4' A s5" "area_step s5 A s6"
      using sp5 by (auto intro!: area_step_same simp: same_space_def s0 s2 s4_def put_thread_def s6)
    have al: "area_step s0 A s1" "area_step s4 A s4'"
      using ipc_alloc_area [OF i0 r0] ipc_alloc_area [OF i4 r4] by (simp_all add: s1_def s4'_def)
    show ?thesis
      by (rule area_step_trans [OF st(1)], rule area_step_trans [OF al(1)], rule area_step_trans [OF st(2)],
          rule area_step_trans [OF s3(7)], rule area_step_trans [OF st(3)], rule area_step_trans [OF al(2)],
          rule area_step_trans [OF st(4,5)])
  qed
  moreover have "same_process s s6 \<and> mnodes s6 = mnodes s \<and> msgs s6 = msgs s"
  proof -
    have "same_process s s2 \<and> mnodes s2 = mnodes s \<and> msgs s2 = msgs s"
      by (simp add: same_process_def s2 s1_def s0 put_thread_def)
    moreover have "same_process s2 s3 \<and> mnodes s3 = mnodes s2 \<and> msgs s3 = msgs s2"
      using s3(5) by (auto simp: same_process_def heap_step_def)
    moreover have "same_process s3 s6 \<and> mnodes s6 = mnodes s3 \<and> msgs s6 = msgs s3"
      using s5(8) by (auto simp: same_process_def s4_def s6 put_thread_def)
    ultimately show ?thesis by (simp add: same_process_def)
  qed
  moreover have "task_step s s6"
  proof -
    have "task_step s s1" unfolding s1_def s0 by (rule task_step_trans [OF task_stepI(1,4)])
    moreover have "task_step s1 s2" unfolding s2
      by (rule task_step_trans [OF task_step_trans [OF task_stepI(3,2)] task_stepI(1)])
    moreover have "task_step s2 s4" unfolding s4_def
      by (rule task_step_trans [OF heap_step_task [OF s3(5)] task_stepI(3)])
    moreover have "task_step s4 s5" using s5(8) task_stepI(8) by auto
    moreover have "task_step s5 s6" unfolding s6 by (rule task_stepI(1))
    ultimately show ?thesis by (meson task_step_trans)
  qed
  moreover have "thr \<notin> dom (threads s)" using assms(9) \<open>thr \<notin> km_used s\<close> by blast
  ultimately show ?thesis
    using s5(5-7) f5 f4 kt(2) assms(9)
    apply -
    apply (rule exI [of _ s6], rule exI [of _ thr], rule exI [of _ y])
    apply auto
    done
qed

subsection \<open>From the creation to the first run\<close>

text \<open>A thread appended behind the waiting ones.\<close>

lemma created_rep:
  assumes "sched_rep s c ts" and "queue_nodes s (ready_queue s) xs ts" and "current_thread s \<notin> set xs"
    and "queue_nodes s' (ready_queue s') (xs @ [y]) (ts @ [thr])" and "y \<notin> dom (tnodes s)" and "\<not> tl_remove (the (tnodes s' y))"
    and kept: "\<forall>x k. tnodes s x = Some k \<longrightarrow> (\<exists>m. tnodes s' x = Some m \<and> tl_thread m = tl_thread k \<and> tl_remove m = tl_remove k)"
    and "thr \<noteq> 0" and "thr \<notin> dom (threads s)" and "threads s' = (threads s)(thr \<mapsto> new)"
    and "current_thread s' = current_thread s" and unmarked: "\<forall>x\<in>set xs. \<not> tl_remove (the (tnodes s x))"
  shows "sched_rep s' c (ts @ [thr])"
proof -
  obtain n where q: "current_thread s \<noteq> 0" "tnodes s (current_thread s) = Some n" "tl_thread n = c" "\<not> tl_remove n"
    "distinct (c # ts)" "\<forall>t\<in>set (c # ts). described s t"
    using assms(1) by (auto simp: sched_rep_def)
  obtain m where m: "tnodes s' (current_thread s) = Some m" "tl_thread m = c" "\<not> tl_remove m"
    using kept q(2-4) by fastforce
  show ?thesis
    unfolding sched_rep_def
  proof (intro conjI exI [of _ "xs @ [y]"] exI [of _ m])
    have new_id: "thr \<notin> set (c # ts)" using assms(9) q(6) by (auto simp: described_def)
    show "distinct (c # ts @ [thr])" using q(5) new_id by auto
    show "\<forall>t\<in>set (c # ts @ [thr]). described s' t" using q(6) assms(8,10) by (auto simp: described_def)
    show "current_thread s' \<notin> set (xs @ [y])" using assms(3,5,11) q(2) by auto
    show "\<forall>x\<in>set (xs @ [y]). \<not> tl_remove (the (tnodes s' x))"
    proof
      fix x assume "x \<in> set (xs @ [y])"
      then consider "x = y" | "x \<in> set xs" by auto
      then show "\<not> tl_remove (the (tnodes s' x))"
      proof cases
        case 1
        then show ?thesis using assms(6) by simp
      next
        case 2
        then obtain k where "tnodes s x = Some k" using queue_nodes_members(3) [OF assms(2)] by blast
        with kept unmarked 2 show ?thesis by fastforce
      qed
    qed
  qed (use assms(4,11) q(1) m in auto)
qed

lemma createThread_sched:
  assumes "sched_rep s c ts" and "ipc_inv s A" and "88 \<le> km_room s" and "dom (threads s) \<subseteq> km_used s"
    and "heap_ok s (currentHeap s) hp" and "list_array hp ! 10 = 0" and "cur = current_mem_addr hp"
    and "grow_ok s A cur 0x400" and "span cur 1032 \<subseteq> A - km_area"
  defines "new \<equiv> new_thread (cur + 8) (t_page_directory (the (threads s c))) (t_heap (the (threads s c))) (tid s)"
  shows "\<exists>s' thr. createThread child s = Inr (0, s') \<and> sched_rep s' c (ts @ [thr]) \<and> ipc_inv s' A
    \<and> thr \<notin> dom (threads s) \<and> threads s' = (threads s)(thr \<mapsto> new) \<and> tid s' = tid s + 1
    \<and> start_frame (vview s') (t_esp new) = [addr_thread_start s, addr_thread_exit s, child]"
proof -
  obtain xs n where q: "queue_nodes s (ready_queue s) xs ts" "current_thread s \<noteq> 0" "current_thread s \<notin> set xs"
    "tnodes s (current_thread s) = Some n" "tl_thread n = c" "\<forall>x\<in>set xs. \<not> tl_remove (the (tnodes s x))" "described s c"
    using assms(1) by (auto simp: sched_rep_def)
  obtain t where t: "threads s c = Some t" "c \<noteq> 0" using q(7) by (auto simp: described_def)
  obtain s' thr y where s': "create_thread_in child (t_page_directory t) (t_heap t) s = Inr (0, s')" "ipc_inv s' A"
    "queue_nodes s' (ready_queue s') (xs @ [y]) (ts @ [thr])" "y \<notin> dom (tnodes s)" "\<not> tl_remove (the (tnodes s' y))"
    "\<forall>x k. tnodes s x = Some k \<longrightarrow> (\<exists>m. tnodes s' x = Some m \<and> tl_thread m = tl_thread k \<and> tl_remove m = tl_remove k)"
    "thr \<noteq> 0" "thr \<notin> dom (threads s)" "threads s' = (threads s)(thr \<mapsto> new)" "tid s' = tid s + 1"
    "current_thread s' = current_thread s"
    "start_frame (vview s') (t_esp new) = [addr_thread_start s, addr_thread_exit s, child]"
    using create_thread_result [OF assms(2,3) q(1) assms(5-9) assms(4), of child "t_page_directory t" "t_heap t"] t(1)
    by (auto simp: new_def)
  have "sched_rep s' c (ts @ [thr])" by (rule created_rep [OF assms(1) q(1,3) s'(3-9,11) q(6)])
  moreover have "createThread child s = Inr (0, s')"
    using s'(1) q(2,4,5) t by (simp add: createThread_def tnode_at_def thread_at_def deref_def)
  ultimately show ?thesis using s'(2,8-10,12) by blast
qed


subsection \<open>Properties\<close>

text \<open>The machine of the messages, with its threads under the scheduler.\<close>

definition demo_creation :: sched where
  "demo_creation = ipc.extend demo_ipc (sched.fields 0xD00000F0 0xD0000100 11 12 13 0x202)"

definition creation_area :: "u32 set" where
  "creation_area = low_mem - {a. 0x11000 \<le> unat a \<and> unat a < 0x12000}"

lemma demo_creation_fields:
  "threads demo_creation = threads demo_tasks" "tnodes demo_creation = tnodes demo_tasks"
  "current_thread demo_creation = 0x00200008" "ready_queue demo_creation = 0x00200020"
  "currentHeap demo_creation = 0x00200300" "heap_objs demo_creation = heap_objs demo_ipc"
  "mnodes demo_creation = mnodes demo_ipc" "current_address demo_creation = 0x00200400" "tid demo_creation = 4"
  by (simp_all add: demo_creation_def ipc.defs demo_ipc_fields)
    (simp add: demo_ipc_def tasks.defs kheap.defs vmm.defs ipc.defs)

lemma demo_creation_rep: "sched_rep demo_creation 0x00200100 [0x00200130, 0x00200160, 0x00200190]"
proof -
  have "queue_nodes demo_creation (ready_queue demo_creation) [0x00200020, 0x00200038, 0x00200050]
     [0x00200130, 0x00200160, 0x00200190]"
    by (simp add: demo_creation_fields) (simp add: demo_tasks_def)
  then show ?thesis
    unfolding sched_rep_def
    by (intro conjI exI [of _ "[0x00200020, 0x00200038, 0x00200050]"] exI [of _ "the (tnodes demo_tasks 0x00200008)"])
      (simp_all add: described_def demo_creation_fields, simp_all add: demo_tasks_def)
qed

lemma demo_creation_inv: "ipc_inv demo_creation creation_area" "km_room demo_creation = 0x000FFC00"
  "grow_ok demo_creation creation_area 0x10118 0x400"
proof -
  have sp: "same_space demo_creation demo_ipc" by (simp add: demo_creation_def same_space_def ipc.defs)
  note ag = vmm_agree [OF sp] and bs = boot_space [OF demo_ipc_space demo_mem_high]
  have sub: "creation_area \<subseteq> low_mem" "km_area \<subseteq> creation_area" by (auto simp: creation_area_def km_area_def low_mem_def)
  have area: "data_area demo_creation creation_area"
    using data_area_subset [OF bs(1) sub(1)] by (simp add: ag)
  have f: "start_address demo_creation = start_address demo_ipc" "last_valid_address demo_creation = last_valid_address demo_ipc"
    "is_initialized demo_creation = is_initialized demo_ipc" "pmem demo_creation = pmem demo_ipc"
    by (simp_all add: demo_creation_def ipc.defs)
  show "km_room demo_creation = 0x000FFC00" by (simp add: km_room_def demo_creation_fields)
  have u: "km_used demo_creation = km_used demo_ipc" "km_inv demo_creation = km_inv demo_ipc"
    by (simp_all add: km_used_def km_inv_def demo_creation_fields demo_ipc_fields f)
  show "ipc_inv demo_creation creation_area"
    using demo_ipc_inv(1) area sub u ag(2) by (simp add: ipc_inv_def task_inv_def demo_creation_fields demo_ipc_fields)
  have off: "off_free demo_creation creation_area"
    unfolding off_free_def
  proof
    fix a assume a: "a \<in> creation_area"
    then have "unat (frame a) < 0x00300000" using sub(1) by (auto simp: low_mem_def unat_frame)
    then show "frame (the (translate demo_creation a)) \<notin> free_pages demo_creation"
      using boot_free_pages(1) [of "frame a"] bs(2) [of a] bs(4) sub(1) a by (auto simp: ag)
  qed
  have np: "new_pages 0x10118 0x400 = 1" "page_end 0x10118 = 0x11000" by (simp_all add: new_pages_def page_end_def)
  have hd: "hdr_cells 0x10118 \<subseteq> creation_area" by (simp add: hdr_cells_def cell_def creation_area_def low_mem_def)
  have "b \<notin> creation_area \<and> pde demo_creation b \<noteq> 0 \<and> dir_index b < 1022" if "0x11000 \<le> unat b" "unat b < 0x12000" for b
    using that vm_boot_pde [of b] dir_index_low [of b] bs(5) by (simp add: creation_area_def ag)
  then show "grow_ok demo_creation creation_area 0x10118 0x400"
    using area off hd np boot_free_pages(2) bs(4) by (simp add: grow_ok_def ag)
qed



end
