(* ===== verification/ProcessSpace.thy ===== *)
theory ProcessSpace
  imports KernelSpace
begin

text \<open>
  The address space of a new process: what the second branch of \<^verbatim>\<open>create_page_directory\<close> builds
  under paging, through two windows at \<open>PD\<close> and \<open>PT\<close> in the running address space. A page is
  private (\<open>unused_page\<close>) while it is taken from the allocator and not yet part of the running tables;
  \<open>dir_step P\<close> is what every step of the construction keeps while it writes the private pages \<open>P\<close>.
\<close>

subsection \<open>Private pages\<close>

abbreviation PD :: u32 where "PD \<equiv> 0x7AB13000"
abbreviation PT :: u32 where "PT \<equiv> 0x7AB14000"

lemma window_index [simp]: "dir_index PD = 490" "dir_index PT = 490" "frame PD = PD" "frame PT = PT"
  by (simp_all add: dir_index_def frame_fix)

lemma or3 [simp]: "(p :: u32) OR PAGE_PRESENT OR PAGE_WRITE = p OR 3" "PAGE_PRESENT OR PAGE_WRITE = 3"
  by (simp_all add: PAGE_PRESENT_def PAGE_WRITE_def or.assoc)

definition dir_step :: "u32 set \<Rightarrow> 'a vmm_scheme \<Rightarrow> 'a vmm_scheme \<Rightarrow> bool" where
  "dir_step P s s' \<longleftrightarrow> (\<exists>c m f. s' = s\<lparr>con := c, pmem := m, first_free_index := f\<rparr>) \<and> vm_inv s'
     \<and> vm_frames s' = vm_frames s \<and> pde s' = pde s \<and> free_pages s' \<subseteq> free_pages s
     \<and> (\<forall>va. unat va div 4096 \<notin> {0x7AB13, 0x7AB14} \<longrightarrow> translate s' va = translate s va)
     \<and> (\<forall>a. frame a \<notin> P \<and> frame a \<noteq> bitmap s \<and> frame a \<notin> vm_frames s \<longrightarrow> pmem s' a = pmem s a)"

lemma dir_step_refl: "vm_inv s \<Longrightarrow> dir_step P s s"
  unfolding dir_step_def by (auto intro!: exI [of _ "con s"] exI [of _ "pmem s"] exI [of _ "first_free_index s"])

lemma dir_stepD:
  assumes "dir_step P s s'"
  shows "vm_inv s'" and "vm_frames s' = vm_frames s" and "pde s' = pde s" and "bitmap s' = bitmap s"
    and "free_pages s' \<subseteq> free_pages s" and "active_dir s' = active_dir s"
    and "unat va div 4096 \<notin> {0x7AB13, 0x7AB14} \<Longrightarrow> translate s' va = translate s va"
    and "frame a \<notin> P \<Longrightarrow> frame a \<noteq> bitmap s \<Longrightarrow> frame a \<notin> vm_frames s \<Longrightarrow> pmem s' a = pmem s a"
  using assms by (auto simp: dir_step_def active_dir_def)

lemma dir_step_trans:
  assumes "dir_step P s s1" and "dir_step Q s1 s2"
  shows "dir_step (P \<union> Q) s s2"
proof -
  obtain c m f where s1: "s1 = s\<lparr>con := c, pmem := m, first_free_index := f\<rparr>" using assms(1) by (auto simp: dir_step_def)
  obtain c' m' f' where "s2 = s1\<lparr>con := c', pmem := m', first_free_index := f'\<rparr>" using assms(2) by (auto simp: dir_step_def)
  then have "s2 = s\<lparr>con := c', pmem := m', first_free_index := f'\<rparr>" by (simp add: s1)
  then have "\<exists>c m f. s2 = s\<lparr>con := c, pmem := m, first_free_index := f\<rparr>" by blast
  moreover have "bitmap s1 = bitmap s" by (simp add: s1)
  ultimately show ?thesis using assms unfolding dir_step_def by auto
qed

lemma dir_step_mono: "dir_step P s s' \<Longrightarrow> P \<subseteq> Q \<Longrightarrow> dir_step Q s s'"
  unfolding dir_step_def by blast

lemma dir_step_unused: "dir_step P s s' \<Longrightarrow> unused_page q s \<Longrightarrow> unused_page q s'"
  using dir_stepD(2,4,5) [of P s s'] by (auto simp: unused_page_def)

lemma dir_step_entry:
  assumes "dir_step P s s'" and "unused_page q s" and "q \<notin> P" and "j < 1024"
  shows "entry (pmem s') q j = entry (pmem s) q j"
  using assms dir_stepD(8) [OF assms(1)] by (intro entry_cong) (auto simp: unused_page_def)

lemma con_update_inv [simp]: "free_pages (s\<lparr>con := c\<rparr>) = free_pages s" "vm_inv (s\<lparr>con := c\<rparr>) = vm_inv s"
proof -
  have t: "taken i (s\<lparr>con := c\<rparr>) = taken i s" for i by (simp add: taken_bit)
  show "free_pages (s\<lparr>con := c\<rparr>) = free_pages s" by (simp add: free_pages_def page_of_def free_set_def t)
  then show "vm_inv (s\<lparr>con := c\<rparr>) = vm_inv s" by (simp add: vm_inv_def pmm_inv_def t)
qed

lemma con_step: "vm_inv s \<Longrightarrow> dir_step P s (s\<lparr>con := c\<rparr>)"
proof -
  have "s\<lparr>con := c\<rparr> = s\<lparr>con := c, pmem := pmem s, first_free_index := first_free_index s\<rparr>" by simp
  then have "\<exists>c' m f. s\<lparr>con := c\<rparr> = s\<lparr>con := c', pmem := m, first_free_index := f\<rparr>" by blast
  moreover have "pde (s\<lparr>con := c\<rparr>) = pde s" by (simp add: fun_eq_iff)
  ultimately show "vm_inv s \<Longrightarrow> ?thesis" unfolding dir_step_def by simp
qed

subsection \<open>The steps\<close>

lemma private_write:
  assumes "vm_inv s" and "unused_page p s" and "\<And>a. frame a \<noteq> p \<Longrightarrow> m a = pmem s a"
  shows "dir_step {p} s (s\<lparr>pmem := m\<rparr>)" and "translate (s\<lparr>pmem := m\<rparr>) = translate s"
    and "free_pages (s\<lparr>pmem := m\<rparr>) = free_pages s"
proof -
  have out: "\<forall>a. frame a = bitmap s \<or> frame a \<in> vm_frames s \<longrightarrow> m a = pmem s a"
    using assms(2) by (intro allI impI assms(3)) (auto simp: unused_page_def)
  have wf: "vm_wf s" using assms(1) by (simp add: vm_inv_def)
  have "same_tables (pmem s) (active_dir s) m" using out by (simp add: same_tables_def vm_frames_def)
  note o = vm_inv_outside [OF assms(1) out] and fr = outside_update(3) [OF wf this]
  show "translate (s\<lparr>pmem := m\<rparr>) = translate s" "free_pages (s\<lparr>pmem := m\<rparr>) = free_pages s" using o by auto
  moreover have "pde (s\<lparr>pmem := m\<rparr>) = pde s" using o(3) by auto
  ultimately show "dir_step {p} s (s\<lparr>pmem := m\<rparr>)"
    using o(1) fr assms(3) unfolding dir_step_def
    by (auto intro!: exI [of _ "con s"] exI [of _ m] exI [of _ "first_free_index s"])
qed

lemma private_alloc:
  assumes "vm_inv s" and "free_pages s \<noteq> {}"
  obtains p s' where "pmm_alloc_page s = Inr (p, s')" and "p \<in> free_pages s" and "unused_page p s'"
    and "dir_step {} s s'" and "translate s' = translate s" and "free_pages s' = free_pages s - {p}"
    and "p = page_of s (Min (free_set s))"
proof -
  have pmm: "pmm_inv s" using assms(1) by (simp add: vm_inv_def)
  have ne: "free_set s \<noteq> {}" using assms(2) by (auto simp: free_pages_def)
  note lf = least_free [OF pmm ne]
  obtain f m where al: "pmm_alloc_page s = Inr (page_of s (first_free_index s), s\<lparr>pmem := m, first_free_index := f\<rparr>)"
    and mem: "\<forall>a. frame a \<noteq> bitmap s \<longrightarrow> m a = pmem s a"
    and pmm': "pmm_inv (s\<lparr>pmem := m, first_free_index := f\<rparr>)"
    and free: "free_pages (s\<lparr>pmem := m, first_free_index := f\<rparr>) = free_pages s - {page_of s (first_free_index s)}"
    and pin: "page_of s (first_free_index s) \<in> free_pages s"
    by (rule pmm_alloc_vm [OF assms(1) lf(1) refl])
  define p s' where "p = page_of s (first_free_index s)" and "s' = s\<lparr>pmem := m, first_free_index := f\<rparr>"
  note inv = pmm_alloc_vm_inv [OF assms(1) mem pmm' free]
  have wf: "vm_wf s" using assms(1) by (simp add: vm_inv_def)
  note out = outside_update [OF wf inv(2)]
  have same: "translate s' = translate s" "pde s' = pde s" "vm_frames s' = vm_frames s"
    using out by (auto simp: s'_def)
  have "dir_step {} s s'"
    unfolding dir_step_def using inv(1) same free mem
    by (auto simp: s'_def intro!: exI [of _ "con s"] exI [of _ m] exI [of _ f])
  moreover have "unused_page p s'"
    using page_ne_bitmap [OF pmm pin] pin assms(1) free same by (auto simp: unused_page_def vm_inv_def p_def s'_def)
  ultimately show ?thesis
    using al pin free same lf by (intro that [of p s']) (simp_all add: p_def s'_def)
qed

lemma private_pte:
  assumes "vm_inv s" and "pde s PD \<noteq> 0" and "w = PD \<or> w = PT" and "v = 0 \<or> v = p OR 3 \<and> frame p = p"
  shows "dir_step {} s (set_pte w v s)" and "free_pages (set_pte w v s) = free_pages s"
    and "translate (set_pte w v s) vb = (if unat vb div 4096 = unat w div 4096
         then (if v = 0 then None else Some (p + of_nat (unat vb mod 4096))) else translate s vb)"
proof -
  have wf: "vm_wf s" using assms(1) by (simp add: vm_inv_def)
  have "pde s PT = pde s PD" by (simp add: pde_def)
  then have w: "pde s w \<noteq> 0" "dir_index w < 1022" "4096 \<le> unat w" "unat w div 4096 \<in> {0x7AB13, 0x7AB14}" "dir_index w \<noteq> 1023"
    using assms(2,3) by auto
  note inv = set_pte_inv [OF assms(1) w(1-3), of v]
  show "free_pages (set_pte w v s) = free_pages s" by (rule inv(2))
  have f: "frame (p OR 3) = p" "bit (p OR 3) 0" "p OR 3 \<noteq> 0" if "frame p = p"
    using that present_nonzero frame_fixed_bit0 frame_or_flags(1) by auto
  show tr: "translate (set_pte w v s) vb = (if unat vb div 4096 = unat w div 4096
         then (if v = 0 then None else Some (p + of_nat (unat vb mod 4096))) else translate s vb)" for vb
    using translate_set_pte [OF wf w(1,2), of v vb] assms(4) f by auto
  have mem: "pmem (set_pte w v s) a = pmem s a" if "frame a \<notin> vm_frames s" for a
  proof -
    have "frame a \<noteq> table_of s w" using that pde_in_frames [OF wf w(1)] by auto
    then show ?thesis
      using store_cell_frame [of "table_of s w" "table_index w" a] by (simp add: set_pte_def table_index_less)
  qed
  have "pde (set_pte w v s) = pde s" using set_pte_pde [OF wf w(1,5)] by auto
  moreover have "translate (set_pte w v s) va = translate s va" if "unat va div 4096 \<notin> {0x7AB13, 0x7AB14}" for va
    using tr [of va] that w(4) by auto
  ultimately show "dir_step {} s (set_pte w v s)"
    unfolding dir_step_def using inv set_pte_frames [OF wf w(1,5)] mem
    by (auto simp: set_pte_def intro!: exI [of _ "con s"] exI [of _ "first_free_index s"])
qed


lemma private_store:
  assumes "vm_inv s" and "unused_page p s" and "i < 1024"
  shows "dir_step {p} s (s\<lparr>pmem := store32 (pmem s) (p + 4 * of_nat i) v\<rparr>)"
    and "translate (s\<lparr>pmem := store32 (pmem s) (p + 4 * of_nat i) v\<rparr>) = translate s"
    and "free_pages (s\<lparr>pmem := store32 (pmem s) (p + 4 * of_nat i) v\<rparr>) = free_pages s"
proof -
  have "frame p = p" using assms(2) by (simp add: unused_page_def)
  then have "store32 (pmem s) (p + 4 * of_nat i) v a = pmem s a" if "frame a \<noteq> p" for a
    using that assms(3) by (intro store_cell_frame)
  from private_write [OF assms(1,2) this] show "dir_step {p} s (s\<lparr>pmem := store32 (pmem s) (p + 4 * of_nat i) v\<rparr>)"
    "translate (s\<lparr>pmem := store32 (pmem s) (p + 4 * of_nat i) v\<rparr>) = translate s"
    "free_pages (s\<lparr>pmem := store32 (pmem s) (p + 4 * of_nat i) v\<rparr>) = free_pages s" by blast+
qed

lemma identity_table_mem:
  assumes "frame t = t" and "frame a \<noteq> t"
  shows "identity_table t m a = m a"
  unfolding identity_table_def
  by (rule for_upt_rule [where P = "\<lambda>_ m'. m' a = m a"]) (use assms store_cell_frame [OF assms(1)] in auto)

lemma private_fill:
  assumes "vm_inv s" and "unused_page p s" and "m = identity_table p (pmem s) \<or> m = memset (pmem s) p 0 0x1000"
  shows "dir_step {p} s (s\<lparr>pmem := m\<rparr>)" and "translate (s\<lparr>pmem := m\<rparr>) = translate s"
    and "free_pages (s\<lparr>pmem := m\<rparr>) = free_pages s"
proof -
  have p: "frame p = p" using assms(2) by (simp add: unused_page_def)
  have "m a = pmem s a" if "frame a \<noteq> p" for a
    using that assms(3) identity_table_mem [OF p that] memset_page [OF p] by auto
  from private_write [OF assms(1,2) this] show "dir_step {p} s (s\<lparr>pmem := m\<rparr>)"
    "translate (s\<lparr>pmem := m\<rparr>) = translate s" "free_pages (s\<lparr>pmem := m\<rparr>) = free_pages s" by blast+
qed

text \<open>Reading and writing a private page through a window.\<close>

lemma translate_offset:
  assumes "vm_inv s" and "frame w = w" and "translate s w = Some p" and "k < 4096"
  shows "translate s (w + of_nat k) = Some (p + of_nat k)"
  using assms walk_offset [OF assms(2,4), of "pmem s" "frame (cr3 s)" p]
  by (simp add: translate_def vm_inv_def vm_wf_def)

lemma window_access:
  assumes "vm_inv s" and "frame w = w" and "translate s w = Some p" and "unused_page p s"
  shows "vmemset w 0 0x1000 s = Inr (s\<lparr>pmem := memset (pmem s) p 0 0x1000\<rparr>)"
    and "i < 1024 \<Longrightarrow> vstore32 (w + 4 * of_nat i) v s = Inr (s\<lparr>pmem := store32 (pmem s) (p + 4 * of_nat i) v\<rparr>)"
    and "i < 1024 \<Longrightarrow> vload32 (w + 4 * of_nat i) s = Inr (entry (pmem s) p i)"
proof -
  have wf: "vm_wf s" and p: "frame p = p" "p \<notin> vm_frames s"
    using assms(1,4) by (simp_all add: vm_inv_def unused_page_def)
  show "vmemset w 0 0x1000 s = Inr (s\<lparr>pmem := memset (pmem s) p 0 0x1000\<rparr>)"
    by (rule vmemset_page [OF wf assms(2,3) p])
  have tr: "translate s (w + 4 * of_nat i) = Some (p + 4 * of_nat i)" if "i < 1024"
    using that translate_offset [OF assms(1-3), of "4 * i"] unfolding cell_offset [OF that] by simp
  then show "i < 1024 \<Longrightarrow> vstore32 (w + 4 * of_nat i) v s = Inr (s\<lparr>pmem := store32 (pmem s) (p + 4 * of_nat i) v\<rparr>)"
    and "i < 1024 \<Longrightarrow> vload32 (w + 4 * of_nat i) s = Inr (entry (pmem s) p i)"
    by (simp_all add: vstore32_def vload32_def resolve_def entry_def)
qed

lemma window_fill:
  assumes "vm_inv s" and "frame w = w" and "translate s w = Some p" and "unused_page p s"
  shows "fill_identity w s = Inr (s\<lparr>pmem := identity_table p (pmem s)\<rparr>)"
proof -
  let ?P = "\<lambda>s. vm_inv s \<and> translate s w = Some p \<and> unused_page p s"
  let ?g = "\<lambda>i s. s\<lparr>pmem := store32 (pmem s) (p + 4 * of_nat i) (identity_entry i)\<rparr>"
  have "vstore32 (w + 4 * of_nat i) (identity_entry i) s = Inr (?g i s) \<and> ?P (?g i s)"
    if "i \<in> set [0..<1024]" "?P s" for i and s :: "'a vmm_scheme"
  proof -
    have i: "i < 1024" and s: "vm_inv s" "translate s w = Some p" "unused_page p s" using that by auto
    from private_store [OF s(1,3) i]
    have "dir_step {p} s (?g i s)" "translate (?g i s) = translate s" by auto
    with s window_access(2) [OF s(1) assms(2) s(2,3) i] show ?thesis
      using dir_stepD(1) dir_step_unused by fastforce
  qed
  from forR_total [of ?P s "[0..<1024]" "\<lambda>i. vstore32 (w + 4 * of_nat i) (identity_entry i)" ?g, OF _ this]
  have "fill_identity w s = Inr (fold ?g [0..<1024] s)" using assms by (simp add: fill_identity_def)
  also have "fold ?g [0..<1024] s = s\<lparr>pmem := identity_table p (pmem s)\<rparr>"
    by (simp add: identity_table_def for_upt_def fold_pmem [of "\<lambda>i m. store32 m (p + 4 * of_nat i) (identity_entry i)"])
  finally show ?thesis .
qed

text \<open>A new page is entered into the new directory and shown at \<open>PT\<close>.\<close>

definition dir_shown :: "u32 \<Rightarrow> 'a vmm_scheme \<Rightarrow> bool" where
  "dir_shown d s \<longleftrightarrow> vm_inv s \<and> unused_page d s \<and> translate s PD = Some d \<and> pde s PD \<noteq> 0"

lemma open_table:
  assumes "dir_shown d s" and "free_pages s \<noteq> {}" and "i < 1024"
  obtains t s1 s2 s' where "pmm_alloc_page s = Inr (t, s1)" and "vstore32 (PD + 4 * of_nat i) (t OR 3) s1 = Inr s2"
    and "vload32 (PD + 4 * of_nat i) s2 = Inr (t OR 3)" and "(t OR 3) AND PAGE_MASK = t"
    and "map_page PT t 3 s2 = Inr s'" and "t \<in> free_pages s" and "unused_page t s'" and "t \<noteq> d"
    and "dir_step {d} s s'" and "dir_shown d s'" and "translate s' PT = Some t"
    and "free_pages s' = free_pages s - {t}"
    and "\<forall>j<1024. entry (pmem s') d j = (if j = i then t OR 3 else entry (pmem s) d j)"
proof -
  have s: "vm_inv s" "unused_page d s" "translate s PD = Some d" "pde s PD \<noteq> 0"
    using assms(1) by (simp_all add: dir_shown_def)
  have d: "frame d = d" using s(2) by (simp add: unused_page_def)
  obtain t s1 where s1: "pmm_alloc_page s = Inr (t, s1)" "t \<in> free_pages s" "unused_page t s1"
    "dir_step {} s s1" "translate s1 = translate s" "free_pages s1 = free_pages s - {t}"
    by (rule private_alloc [OF s(1) assms(2)]) blast
  have td: "t \<noteq> d" using s1(2) s(2) by (auto simp: unused_page_def)
  have t: "frame t = t" using s1(3) by (simp add: unused_page_def)
  have d1: "vm_inv s1" "unused_page d s1" using dir_stepD(1) dir_step_unused s1(4) s(2) by blast+
  define s2 where "s2 = s1\<lparr>pmem := store32 (pmem s1) (d + 4 * of_nat i) (t OR 3)\<rparr>"
  note w2 = private_store [OF d1 assms(3), of "t OR 3", folded s2_def]
  have acc: "translate s1 PD = Some d" using s(3) s1(5) by simp
  have st: "vstore32 (PD + 4 * of_nat i) (t OR 3) s1 = Inr s2"
    using window_access(2) [OF d1(1) window_index(3) acc d1(2) assms(3)] by (simp add: s2_def)
  have d2: "vm_inv s2" "unused_page d s2" "translate s2 PD = Some d" "unused_page t s2"
    using dir_stepD(1) [OF w2(1)] dir_step_unused [OF w2(1)] d1(2) s1(3) w2(2) acc by simp_all
  have e2: "entry (pmem s2) d j = (if j = i then t OR 3 else entry (pmem s) d j)" if "j < 1024" for j
    using entry_store [OF d d assms(3) that] dir_step_entry [OF s1(4) s(2) _ that] by (simp add: s2_def)
  have ld: "vload32 (PD + 4 * of_nat i) s2 = Inr (t OR 3)"
    using window_access(3) [OF d2(1) window_index(3) d2(3,2) assms(3)] e2 [OF assms(3)] by simp
  have pd2: "pde s2 PD \<noteq> 0" using s(4) dir_stepD(3) [OF s1(4)] dir_stepD(3) [OF w2(1)] by simp
  then have pt2: "pde s2 PT \<noteq> 0" by (simp add: pde_def)
  define s' where "s' = set_pte PT (t OR 3) s2"
  note p' = private_pte [OF d2(1) pd2, of PT "t OR 3" t, folded s'_def]
  have ne: "t OR 3 \<noteq> 0" by (rule present_nonzero [OF t])
  have st': "dir_step {} s2 s'" "free_pages s' = free_pages s2"
    "translate s' vb = (if unat vb div 4096 = 0x7AB14 then Some (t + of_nat (unat vb mod 4096)) else translate s2 vb)" for vb
    using p' t ne by simp_all
  have mp: "map_page PT t 3 s2 = Inr s'"
    using map_page_present [of s2 PT t 3] d2(1) pt2 t by (simp add: vm_inv_def s'_def)
  have "dir_step ({} \<union> {d} \<union> {}) s s'" by (rule dir_step_trans [OF dir_step_trans [OF s1(4) w2(1)] st'(1)])
  then have step: "dir_step {d} s s'" by simp
  have "dir_shown d s'" unfolding dir_shown_def
    using step st'(3) [of PD] d2(3) dir_step_unused [OF st'(1) d2(2)] pd2 dir_stepD(1,3) [OF st'(1)] by simp
  moreover have "translate s' PT = Some t" using st'(3) [of PT] by simp
  moreover have "free_pages s' = free_pages s - {t}" using st'(2) w2(3) s1(6) by simp
  moreover have "\<forall>j<1024. entry (pmem s') d j = (if j = i then t OR 3 else entry (pmem s) d j)"
    using e2 dir_step_entry [OF st'(1) d2(2)] by simp
  moreover have "(t OR 3) AND PAGE_MASK = t" using frame_or_flags(1) t by (simp add: frame_def)
  ultimately show ?thesis
    using s1(1,2) st ld mp td step dir_step_unused [OF st'(1) d2(4)] by (intro that) simp_all
qed


lemma shown_step:
  assumes "dir_shown d s" and "dir_step P s s'" and "translate s' PD = translate s PD"
  shows "dir_shown d s'"
  using assms dir_stepD(1,3) [OF assms(2)] dir_step_unused [OF assms(2)] by (simp add: dir_shown_def)

lemma shown_aligned: "dir_shown d s \<Longrightarrow> frame d = d" by (simp add: dir_shown_def unused_page_def)

lemma close_table:
  assumes "dir_shown d s"
  obtains s' where "unmap PT s = Inr s'" and "dir_step {} s s'" and "dir_shown d s'" and "translate s' PT = None"
    and "free_pages s' = free_pages s"
proof -
  have s: "vm_inv s" "pde s PD \<noteq> 0" "pde s PT \<noteq> 0" using assms by (simp_all add: dir_shown_def pde_def)
  define s' where "s' = set_pte PT 0 s"
  note p' = private_pte [OF s(1,2), of PT 0, folded s'_def, simplified]
  have "unmap PT s = Inr s'" using unmap_present [of s PT] s(1,3) by (simp add: vm_inv_def s'_def)
  moreover have "translate s' PD = translate s PD" "translate s' PT = None" using p'(3) [of PD] p'(3) [of PT] by simp_all
  ultimately show ?thesis using shown_step [OF assms p'(1)] p'(1,2) by (intro that [of s'])
qed

lemma close_dir:
  assumes "dir_shown d s"
  obtains s' where "unmap PD s = Inr s'" and "dir_step {} s s'" and "translate s' PD = None"
    and "translate s' PT = translate s PT" and "free_pages s' = free_pages s"
proof -
  have s: "vm_inv s" "pde s PD \<noteq> 0" using assms by (simp_all add: dir_shown_def)
  define s' where "s' = set_pte PD 0 s"
  note p' = private_pte [OF s, of PD 0, folded s'_def, simplified]
  have "unmap PD s = Inr s'" using unmap_present [of s PD] s by (simp add: vm_inv_def s'_def)
  moreover have "translate s' PD = None" "translate s' PT = translate s PT" using p'(3) [of PD] p'(3) [of PT] by simp_all
  ultimately show ?thesis using p'(1,2) by (intro that [of s'])
qed

text \<open>The table of the first 4 MB.\<close>

lemma first_table:
  assumes "dir_shown d s" and "free_pages s \<noteq> {}"
  obtains t s1 s2 s3 s4 s' where "pmm_alloc_page s = Inr (t, s1)" and "vstore32 PD (t OR 3) s1 = Inr s2"
    and "vload32 PD s2 = Inr (t OR 3)" and "(t OR 3) AND PAGE_MASK = t" and "map_page PT t 3 s2 = Inr s3"
    and "fill_identity PT s3 = Inr s4" and "unmap PT s4 = Inr s'"
    and "t \<in> free_pages s" and "unused_page t s'" and "t \<noteq> d" and "dir_step {d, t} s s'" and "dir_shown d s'"
    and "free_pages s' = free_pages s - {t}"
    and "\<forall>j<1024. entry (pmem s') d j = (if j = 0 then t OR 3 else entry (pmem s) d j)"
    and "\<forall>j<1024. entry (pmem s') t j = identity_entry j"
proof -
  obtain t s1 s2 s3 where o: "pmm_alloc_page s = Inr (t, s1)" "vstore32 (PD + 4 * of_nat 0) (t OR 3) s1 = Inr s2"
    "vload32 (PD + 4 * of_nat 0) s2 = Inr (t OR 3)" "(t OR 3) AND PAGE_MASK = t" "map_page PT t 3 s2 = Inr s3"
    "t \<in> free_pages s" "unused_page t s3" "t \<noteq> d" "dir_step {d} s s3" "dir_shown d s3" "translate s3 PT = Some t"
    "free_pages s3 = free_pages s - {t}" "\<forall>j<1024. entry (pmem s3) d j = (if j = 0 then t OR 3 else entry (pmem s) d j)"
    by (rule open_table [OF assms, of 0]) simp_all
  have v3: "vm_inv s3" "unused_page d s3" and t: "frame t = t"
    using o(7,10) by (simp_all add: dir_shown_def unused_page_def)
  define s4 where "s4 = s3\<lparr>pmem := identity_table t (pmem s3)\<rparr>"
  have fill: "fill_identity PT s3 = Inr s4"
    using window_fill [OF v3(1) window_index(4) o(11,7)] by (simp add: s4_def)
  note w4 = private_fill [OF v3(1) o(7) disjI1 [OF refl], folded s4_def]
  have sh4: "dir_shown d s4" using shown_step [OF o(10) w4(1)] w4(2) by simp
  have e4: "entry (pmem s4) t j = identity_entry j" if "j < 1024" for j
    using identity_table_entry [OF t t that] by (simp add: s4_def)
  have d4: "entry (pmem s4) d j = entry (pmem s3) d j" if "j < 1024" for j
    using dir_step_entry [OF w4(1) v3(2) _ that] o(8) by simp
  have v4: "unused_page t s4" "unused_page d s4" using dir_step_unused [OF w4(1)] o(7) v3(2) by blast+
  obtain s5 where c: "unmap PT s4 = Inr s5" "dir_step {} s4 s5" "dir_shown d s5" "free_pages s5 = free_pages s4"
    by (rule close_table [OF sh4])
  have e5: "entry (pmem s5) q j = entry (pmem s4) q j" if "unused_page q s4" "j < 1024" for q j
    using dir_step_entry [OF c(2) that(1) _ that(2)] by simp
  have "dir_step ({d} \<union> {t} \<union> {}) s s5" by (rule dir_step_trans [OF dir_step_trans [OF o(9) w4(1)] c(2)])
  then have step: "dir_step {d, t} s s5" by (rule dir_step_mono) auto
  show ?thesis
    using o(1,6,8) o(2,3) [simplified] o(4,5) fill c step dir_step_unused [OF c(2) v4(1)] e5 [OF v4(1)] e4 e5 [OF v4(2)] d4 o(12,13) w4(3)
    by (intro that [of t s1 s2 s3 s4 s5]) simp_all
qed


text \<open>The table before the last, and the two entries that point back to the directory.\<close>

lemma last_table:
  assumes "dir_shown d s" and "free_pages s \<noteq> {}"
  obtains u s1 s2 s3 s4 s5 s6 s7 s' where "pmm_alloc_page s = Inr (u, s1)"
    and "vstore32 (PD + 4088) (u OR 3) s1 = Inr s2" and "vload32 (PD + 4088) s2 = Inr (u OR 3)"
    and "(u OR 3) AND PAGE_MASK = u" and "map_page PT u 3 s2 = Inr s3" and "vmemset PT 0 0x1000 s3 = Inr s4"
    and "vstore32 (PT + 4092) (d OR 3) s4 = Inr s5" and "vstore32 (PD + 4092) (d OR 3) s5 = Inr s6"
    and "unmap PT s6 = Inr s7" and "unmap PD s7 = Inr s'"
    and "u \<in> free_pages s" and "unused_page u s'" and "u \<noteq> d" and "dir_step {d, u} s s'"
    and "translate s' PD = None" and "translate s' PT = None" and "free_pages s' = free_pages s - {u}"
    and "\<forall>j<1024. entry (pmem s') d j = (if j = 1022 then u OR 3 else if j = 1023 then d OR 3 else entry (pmem s) d j)"
    and "\<forall>j<1024. entry (pmem s') u j = (if j = 1023 then d OR 3 else 0)"
proof -
  obtain u s1 s2 s3 where o: "pmm_alloc_page s = Inr (u, s1)" "vstore32 (PD + 4 * of_nat 1022) (u OR 3) s1 = Inr s2"
    "vload32 (PD + 4 * of_nat 1022) s2 = Inr (u OR 3)" "(u OR 3) AND PAGE_MASK = u" "map_page PT u 3 s2 = Inr s3"
    "u \<in> free_pages s" "unused_page u s3" "u \<noteq> d" "dir_step {d} s s3" "dir_shown d s3" "translate s3 PT = Some u"
    "free_pages s3 = free_pages s - {u}" "\<forall>j<1024. entry (pmem s3) d j = (if j = 1022 then u OR 3 else entry (pmem s) d j)"
    by (rule open_table [OF assms, of 1022]) simp_all
  have v3: "vm_inv s3" "unused_page d s3" and u: "frame u = u" and d: "frame d = d"
    using o(7,10) by (simp_all add: dir_shown_def unused_page_def)
  define s4 where "s4 = s3\<lparr>pmem := memset (pmem s3) u 0 0x1000\<rparr>"
  have x4: "vmemset PT 0 0x1000 s3 = Inr s4"
    using window_access(1) [OF v3(1) window_index(4) o(11,7)] by (simp add: s4_def)
  note w4 = private_fill [OF v3(1) o(7) disjI2 [OF refl], folded s4_def]
  have v4: "unused_page u s4" "dir_shown d s4" "vm_inv s4" "translate s4 PT = Some u"
    using dir_step_unused [OF w4(1) o(7)] shown_step [OF o(10) w4(1)] w4(2) dir_stepD(1) [OF w4(1)] o(11) by simp_all
  define s5 where "s5 = s4\<lparr>pmem := store32 (pmem s4) (u + 4 * of_nat 1023) (d OR 3)\<rparr>"
  have x5: "vstore32 (PT + 4 * of_nat 1023) (d OR 3) s4 = Inr s5"
    using window_access(2) [OF v4(3) window_index(4) v4(4,1), of 1023] by (simp add: s5_def)
  note w5 = private_store [OF v4(3,1), of 1023 "d OR 3", folded s5_def, simplified]
  have v5: "unused_page u s5" "dir_shown d s5" "vm_inv s5" "unused_page d s5" "translate s5 PD = Some d"
    using dir_step_unused [OF w5(1) v4(1)] shown_step [OF v4(2) w5(1)] w5(2) by (simp_all add: dir_shown_def)
  define s6 where "s6 = s5\<lparr>pmem := store32 (pmem s5) (d + 4 * of_nat 1023) (d OR 3)\<rparr>"
  have x6: "vstore32 (PD + 4 * of_nat 1023) (d OR 3) s5 = Inr s6"
    using window_access(2) [OF v5(3) window_index(3) v5(5,4), of 1023] by (simp add: s6_def)
  note w6 = private_store [OF v5(3,4), of 1023 "d OR 3", folded s6_def, simplified]
  have v6: "unused_page u s6" "dir_shown d s6" "unused_page d s6"
    using dir_step_unused [OF w6(1) v5(1)] shown_step [OF v5(2) w6(1)] w6(2) by (simp_all add: dir_shown_def)
  have eu: "entry (pmem s6) u j = (if j = 1023 then d OR 3 else 0)" if "j < 1024" for j
    using dir_step_entry [OF w6(1) v5(1) _ that] o(8) entry_store [OF u u _ that, of 1023] memset_entry [OF u u that]
    by (simp add: s5_def s4_def)
  have ed: "entry (pmem s6) d j = (if j = 1023 then d OR 3 else entry (pmem s3) d j)" if "j < 1024" for j
    using entry_store [OF d d _ that, of 1023] dir_step_entry [OF w5(1) _ _ that, of d]
      dir_step_entry [OF w4(1) v3(2) _ that] o(8) v4(2) by (simp add: s6_def dir_shown_def)
  obtain s7 where c7: "unmap PT s6 = Inr s7" "dir_step {} s6 s7" "dir_shown d s7" "translate s7 PT = None"
    "free_pages s7 = free_pages s6" by (rule close_table [OF v6(2)])
  obtain s8 where c8: "unmap PD s7 = Inr s8" "dir_step {} s7 s8" "translate s8 PD = None" "translate s8 PT = translate s7 PT"
    "free_pages s8 = free_pages s7" by (rule close_dir [OF c7(3)])
  have c: "dir_step {} s6 s8" using dir_step_trans [OF c7(2) c8(2)] by simp
  have e8: "entry (pmem s8) q j = entry (pmem s6) q j" if "unused_page q s6" "j < 1024" for q j
    using dir_step_entry [OF c that(1) _ that(2)] by simp
  note dir_step_trans [OF dir_step_trans [OF dir_step_trans [OF dir_step_trans [OF o(9) w4(1)] w5(1)] w6(1)] c]
  then have step: "dir_step {d, u} s s8" by (rule dir_step_mono) auto
  show ?thesis
    using o(1,6,8) o(2,3) [simplified] o(4,5) x4 x5 [simplified] x6 [simplified] c7(1,4) c8(1,3,4) step
      dir_step_unused [OF c v6(1)] o(12,13) w4(3) w5(3) w6(3) c7(5) c8(5) e8 [OF v6(1)] eu e8 [OF v6(3)] ed
    by (intro that [of u s1 s2 s3 s4 s5 s6 s7 s8]) simp_all
qed

text \<open>The new directory shown at \<open>PD\<close>: a table is taken when there is none for the window.\<close>

definition window_table :: "'a vmm_scheme \<Rightarrow> u32 set" where
  "window_table s = (if pde s PD = 0 then {page_of s (Min (free_set s))} else {})"

lemma show_dir:
  assumes "vm_inv s" and "unused_page d s"
    and "pde s PD = 0 \<Longrightarrow> free_set s \<noteq> {} \<and> entry (pmem s) (page_of s (Min (free_set s))) 0 = 0"
  obtains s' where "map_page PD d 3 s = Inr s'" and "dir_shown d s'" and "free_pages s' = free_pages s - window_table s"
    and "vm_frames s' = window_table s \<union> vm_frames s" and "window_table s \<subseteq> free_pages s"
    and "\<And>va. dir_index va < 1023 \<Longrightarrow> dir_index va \<noteq> 490 \<Longrightarrow> translate s' va = translate s va"
    and "\<And>a. frame a \<notin> {0, bitmap s} \<union> window_table s \<union> vm_frames s \<Longrightarrow> pmem s' a = pmem s a"
    and "\<exists>m f. s' = s\<lparr>pmem := m, first_free_index := f\<rparr>"
proof -
  have wf: "vm_wf s" and d: "frame d = d" using assms(1,2) by (simp_all add: vm_inv_def unused_page_def)
  show ?thesis
  proof (cases "pde s PD = 0")
    case True
    define p where "p = page_of s (Min (free_set s))"
    have T: "window_table s = {p}" using True by (simp add: window_table_def p_def)
    obtain s' where s': "map_page PD d 3 s = Inr s'" "vm_inv s'" "free_pages s' = free_pages s - {p}"
      "\<And>vb. dir_index vb < 1023 \<Longrightarrow> translate s' vb
        = (if unat vb div 4096 = unat PD div 4096 then Some (frame d + of_nat (unat vb mod 4096))
           else if dir_index vb = dir_index PD
           then let e = entry (pmem s) p (table_index vb)
                in if bit e 0 then Some (frame e + of_nat (unat vb mod 4096)) else None
           else translate s vb)"
      "vm_frames s' = insert p (vm_frames s)" "pde s' PD \<noteq> 0" "p \<in> free_pages s"
      "\<And>a. frame a \<notin> {0, bitmap s, p} \<union> vm_frames s \<Longrightarrow> pmem s' a = pmem s a"
      "\<exists>m f. s' = s\<lparr>pmem := m, first_free_index := f\<rparr>"
      by (rule map_page_new_table [OF assms(1) True, of 3 p d]) (use assms(3) [OF True] in \<open>auto simp: p_def\<close>)
    have "translate s' PD = Some d" using s'(4) [of PD] d by simp
    moreover have "bitmap s' = bitmap s" using s'(9) by auto
    then have "unused_page d s'" using assms(2) s'(3,5,7) by (auto simp: unused_page_def)
    moreover have "translate s' va = translate s va" if "dir_index va < 1023" "dir_index va \<noteq> 490" for va
    proof -
      have "unat va div 4096 \<noteq> unat PD div 4096" using that(2) same_page [of va PD] by auto
      then show ?thesis using s'(4) [OF that(1)] that(2) by simp
    qed
    ultimately show ?thesis using s' T by (intro that [of s']) (auto simp: dir_shown_def)
  next
    case False
    then have T: "window_table s = {}" by (simp add: window_table_def)
    define s' where "s' = set_pte PD (d OR 3) s"
    note p' = private_pte [OF assms(1) False, of PD "d OR 3" d, folded s'_def]
    have ne: "d OR 3 \<noteq> 0" by (rule present_nonzero [OF d])
    have st: "dir_step {} s s'" "free_pages s' = free_pages s" using p' d by simp_all
    have tr: "translate s' vb = (if unat vb div 4096 = 0x7AB13 then Some (d + of_nat (unat vb mod 4096)) else translate s vb)" for vb
      using p'(3) d ne by simp
    have mp: "map_page PD d 3 s = Inr s'" using map_page_present [OF wf False, of d 3] d by (simp add: s'_def)
    have "dir_shown d s'"
      using dir_stepD(1,3) [OF st(1)] dir_step_unused [OF st(1) assms(2)] tr [of PD] False by (simp add: dir_shown_def)
    moreover have "translate s' va = translate s va" if "dir_index va \<noteq> 490" for va
    proof -
      have "unat va div 4096 \<noteq> unat PD div 4096" using that same_page [of va PD] by auto
      then show ?thesis using tr [of va] by simp
    qed
    moreover have "s' = s\<lparr>pmem := pmem s', first_free_index := first_free_index s\<rparr>" by (simp add: s'_def set_pte_def)
    then have "\<exists>m f. s' = s\<lparr>pmem := m, first_free_index := f\<rparr>" by blast
    ultimately show ?thesis
      using mp st(2) dir_stepD(2,8) [OF st(1)] T by (intro that [of s']) auto
  qed
qed


subsection \<open>The whole construction\<close>

lemma pages_left: "finite F \<Longrightarrow> card F < card A \<Longrightarrow> A - F \<noteq> {}"
  using card_mono [of F A] by auto

lemma free_set_of_pages:
  assumes "pmm_inv s" and "pmm_inv s'" and "bitmap s' = bitmap s" and "free_pages s' = free_pages s - {page_of s i}"
    and "i \<in> free_set s"
  shows "free_set s' = free_set s - {i}"
proof -
  have sub: "free_set s \<subseteq> {..PAGES}" "free_set s' \<subseteq> {..PAGES}"
    using free_set_bounded [OF assms(1)] free_set_bounded [OF assms(2)] by auto
  have same: "page_of s' = page_of s" by (simp add: page_of_def fun_eq_iff assms(3))
  have "page_of s ` (free_set s - {i}) = page_of s ` free_set s - {page_of s i}"
    using sub(1) assms(5) by (subst inj_on_image_set_diff [OF page_of_inj_on [OF assms(1)]]) auto
  then have "page_of s ` free_set s' = page_of s ` (free_set s - {i})"
    using assms(4) by (simp add: free_pages_def same)
  moreover have "free_set s - {i} \<subseteq> {..PAGES}" using sub(1) by auto
  ultimately show ?thesis using inj_on_image_eq_iff [OF page_of_inj_on [OF assms(1)] sub(2)] by blast
qed

lemma directory_switched:
  assumes "vm_inv s" and "fresh_dir (pmem s) d t u" and "{d, t, u} \<inter> insert (bitmap s) (insert 0 (free_pages s)) = {}"
  shows "vm_inv (switch_page_directory d s)"
    and "dir_index va < 1022 \<Longrightarrow> translate (switch_page_directory d s) va = (if unat va < 0x400000 then Some va else None)"
proof -
  let ?s = "switch_page_directory d s"
  have d: "frame d = d" using assms(2) by (simp add: fresh_dir_def)
  have p: "paging ?s" "pmem ?s = pmem s" "active_dir ?s = d" "bitmap ?s = bitmap s"
    using assms(1) d by (simp_all add: switch_page_directory_def vm_inv_def vm_wf_def paging_def active_dir_def)
  have tk: "taken i ?s = taken i s" for i by (simp add: taken_bit switch_page_directory_def)
  then have pmm: "pmm_inv ?s" "free_pages ?s = free_pages s"
    using assms(1) by (simp_all add: vm_inv_def pmm_inv_def free_pages_def free_set_def page_of_def)
      (simp_all add: switch_page_directory_def)
  show tr: "translate ?s va = (if unat va < 0x400000 then Some va else None)" if "dir_index va < 1022" for va
    using fresh_dir_walk [OF assms(2) that] p by (simp add: translate_def active_dir_def dir_index_low)
  have fr: "vm_frames ?s = {d, t, u}" using fresh_dir_wf(2) [OF assms(2)] p by (simp add: vm_frames_def)
  have wf: "vm_wf ?s" using fresh_dir_wf(1) [OF assms(2)] p by (simp add: vm_wf_def)
  have "translate ?s 0 = Some 0" using tr [of 0] by (simp add: dir_index_def)
  then show "vm_inv ?s" using wf pmm p fr assms(1,3) by (auto simp: vm_inv_def)
qed

definition spare_table_ok :: "'a vmm_scheme \<Rightarrow> bool" where
  "spare_table_ok s \<longleftrightarrow> (pde s PD = 0 \<longrightarrow> entry (pmem s) (page_of s (Min (free_set s - {Min (free_set s)}))) 0 = 0)"

lemma process_directory:
  assumes "vm_inv s" and "4 \<le> card (free_pages s)" and "spare_table_ok s"
  obtains d t u T s' where "create_process_directory s = Inr (d, s')" and "fresh_dir (pmem s') d t u"
    and "{d, t, u} \<union> T \<subseteq> free_pages s" and "{d, t, u} \<inter> T = {}" and "free_pages s' = free_pages s - ({d, t, u} \<union> T)"
    and "T = {} \<longleftrightarrow> pde s PD \<noteq> 0" and "card T \<le> 1" and "finite T" and "vm_inv s'" and "vm_frames s' = T \<union> vm_frames s"
    and "\<And>va. dir_index va < 1023 \<Longrightarrow> dir_index va \<noteq> 490 \<Longrightarrow> translate s' va = translate s va"
    and "translate s' PD = None" and "translate s' PT = None"
    and "\<And>a. frame a \<notin> {0, bitmap s, d, t, u} \<union> T \<union> vm_frames s \<Longrightarrow> pmem s' a = pmem s a"
    and "\<exists>c m f. s' = s\<lparr>con := c, pmem := m, first_free_index := f\<rparr>"
proof -
  have pmm: "pmm_inv s" using assms(1) by (simp add: vm_inv_def)
  have ne: "free_pages s \<noteq> {}" using assms(2) by auto
  then have fs: "free_set s \<noteq> {}" by (auto simp: free_pages_def)
  obtain d s1 where a1: "pmm_alloc_page s = Inr (d, s1)" "d \<in> free_pages s" "unused_page d s1" "dir_step {} s s1"
    "translate s1 = translate s" "free_pages s1 = free_pages s - {d}" "d = page_of s (Min (free_set s))"
    by (rule private_alloc [OF assms(1) ne])
  define c where "c = con (printlnk '''' (printhexk PD (printk ''PD: '' (printlnk '''' (printhexk d (printk ''PD_PHYS: '' s1))))))"
  define s2 where "s2 = s1\<lparr>con := c\<rparr>"
  have v1: "vm_inv s1" and v2: "vm_inv s2" "dir_step {} s1 s2"
    using dir_stepD(1) [OF a1(4)] con_step [of s1] dir_stepD(1) by (auto simp: s2_def)
  have "dir_step ({} \<union> {}) s s2" by (rule dir_step_trans [OF a1(4) v2(2)])
  then have st2: "dir_step {} s s2" by simp
  have u2: "unused_page d s2" using dir_step_unused [OF v2(2) a1(3)] .
  have f2: "free_pages s2 = free_pages s - {d}" "translate s2 = translate s" "bitmap s2 = bitmap s" "vm_frames s2 = vm_frames s"
    "pde s2 = pde s" using a1(5,6) dir_stepD(2,3,4) [OF st2] by (auto simp: s2_def)
  have pmm2: "pmm_inv s2" using v2(1) by (simp add: vm_inv_def)
  have min: "Min (free_set s) \<in> free_set s"
    using least_free [OF pmm fs] first_free_in [OF pmm] by simp
  have fs2: "free_set s2 = free_set s - {Min (free_set s)}"
    using free_set_of_pages [OF pmm pmm2 f2(3) _ min] f2(1) a1(7) by simp
  have fp2: "free_pages s2 \<noteq> {}" using pages_left [of "{d}" "free_pages s"] assms(2) f2(1) by simp
  have page: "page_of s2 = page_of s" by (simp add: page_of_def fun_eq_iff f2(3))
  have spare: "entry (pmem s2) (page_of s2 (Min (free_set s2))) 0 = 0" if "pde s2 PD = 0"
  proof -
    have p: "free_set s2 \<noteq> {}" using fp2 by (auto simp: free_pages_def)
    let ?p = "page_of s2 (Min (free_set s2))"
    have "?p \<in> free_pages s2" using least_free [OF pmm2 p] first_free_in [OF pmm2] by (simp add: free_pages_def)
    then have "?p \<in> free_pages s" using f2(1) by simp
    note pn = page_ne_bitmap [OF pmm this]
    moreover have "?p \<notin> vm_frames s" using \<open>?p \<in> free_pages s\<close> assms(1) by (auto simp: vm_inv_def)
    ultimately have "entry (pmem s2) ?p 0 = entry (pmem s) ?p 0"
      using dir_stepD(8) [OF st2] by (intro entry_cong) auto
    also have "\<dots> = 0" using assms(3) that by (simp add: spare_table_ok_def page fs2 f2(5))
    finally show ?thesis .
  qed
  define T where "T = window_table s2"
  have fs2ne: "free_set s2 \<noteq> {}" using fp2 by (auto simp: free_pages_def)
  obtain s3 where a3: "map_page PD d 3 s2 = Inr s3" "dir_shown d s3" "free_pages s3 = free_pages s2 - T"
    "vm_frames s3 = T \<union> vm_frames s2" "T \<subseteq> free_pages s2"
    "\<And>va. dir_index va < 1023 \<Longrightarrow> dir_index va \<noteq> 490 \<Longrightarrow> translate s3 va = translate s2 va"
    "\<And>a. frame a \<notin> {0, bitmap s2} \<union> T \<union> vm_frames s2 \<Longrightarrow> pmem s3 a = pmem s2 a"
    "\<exists>m f. s3 = s2\<lparr>pmem := m, first_free_index := f\<rparr>"
    by (rule show_dir [OF v2(1) u2]) (use spare fs2ne in \<open>auto simp: T_def\<close>)
  have T: "finite T" "card T \<le> 1" by (simp_all add: T_def window_table_def)
  have left: "free_pages s - (F \<union> T) \<noteq> {}" if "finite F" "card F \<le> 2" for F
    using pages_left [of "F \<union> T" "free_pages s"] card_Un_le [of F T] that T assms(2) by simp
  have v3: "vm_inv s3" "unused_page d s3" "translate s3 PD = Some d" and al: "frame d = d"
    using a3(2) by (simp_all add: dir_shown_def unused_page_def)
  define s4 where "s4 = s3\<lparr>pmem := memset (pmem s3) d 0 0x1000\<rparr>"
  have x4: "vmemset PD 0 0x1000 s3 = Inr s4"
    using window_access(1) [OF v3(1) window_index(3) v3(3,2)] by (simp add: s4_def)
  note w4 = private_fill [OF v3(1,2) disjI2 [OF refl], folded s4_def]
  have sh4: "dir_shown d s4" using shown_step [OF a3(2) w4(1)] w4(2) by simp
  have e4: "\<forall>j<1024. entry (pmem s4) d j = 0" using memset_entry [OF al al] by (simp add: s4_def)
  have f4: "free_pages s4 = free_pages s - ({d} \<union> T)" using w4(3) a3(3) f2(1) by auto
  have "free_pages s4 \<noteq> {}" using left [of "{d}"] f4 by simp
  from first_table [OF sh4 this] obtain t b1 b2 b3 b4 s5 where b: "pmm_alloc_page s4 = Inr (t, b1)"
    "vstore32 PD (t OR 3) b1 = Inr b2" "vload32 PD b2 = Inr (t OR 3)" "(t OR 3) AND PAGE_MASK = t"
    "map_page PT t 3 b2 = Inr b3" "fill_identity PT b3 = Inr b4" "unmap PT b4 = Inr s5"
    "t \<in> free_pages s4" "unused_page t s5" "t \<noteq> d" "dir_step {d, t} s4 s5" "dir_shown d s5"
    "free_pages s5 = free_pages s4 - {t}" "\<forall>j<1024. entry (pmem s5) d j = (if j = 0 then t OR 3 else entry (pmem s4) d j)"
    "\<forall>j<1024. entry (pmem s5) t j = identity_entry j" .
  have "free_pages s5 = free_pages s - ({d, t} \<union> T)" using b(13) f4 by auto
  then have "free_pages s5 \<noteq> {}" using left [of "{d, t}"] b(10) by (simp add: card_insert_if)
  from last_table [OF b(12) this] obtain u c1 c2 c3 c4 c5 c6 c7 s6 where l: "pmm_alloc_page s5 = Inr (u, c1)"
    "vstore32 (PD + 4088) (u OR 3) c1 = Inr c2" "vload32 (PD + 4088) c2 = Inr (u OR 3)"
    "(u OR 3) AND PAGE_MASK = u" "map_page PT u 3 c2 = Inr c3" "vmemset PT 0 0x1000 c3 = Inr c4"
    "vstore32 (PT + 4092) (d OR 3) c4 = Inr c5" "vstore32 (PD + 4092) (d OR 3) c5 = Inr c6"
    "unmap PT c6 = Inr c7" "unmap PD c7 = Inr s6"
    "u \<in> free_pages s5" "unused_page u s6" "u \<noteq> d" "dir_step {d, u} s5 s6"
    "translate s6 PD = None" "translate s6 PT = None" "free_pages s6 = free_pages s5 - {u}"
    "\<forall>j<1024. entry (pmem s6) d j = (if j = 1022 then u OR 3 else if j = 1023 then d OR 3 else entry (pmem s5) d j)"
    "\<forall>j<1024. entry (pmem s6) u j = (if j = 1023 then d OR 3 else 0)" .
  have tu: "t \<noteq> u" using l(11) b(13) by auto
  have et: "\<forall>j<1024. entry (pmem s6) t j = identity_entry j"
    using dir_step_entry [OF l(14) b(9)] b(10,15) tu by simp
  have "fresh_dir (pmem s6) d t u"
    unfolding fresh_dir_def using al b(9,10) l(12,13) tu l(18,19) b(14) e4 et by (simp add: unused_page_def)
  moreover have "create_process_directory s = Inr (d, s6)"
    using a1(1) a3(1) x4 b(1-7) l(1-10)
    by (simp add: create_process_directory_def Let_def s2_def c_def print_defs)
  moreover have "free_pages s6 = free_pages s - ({d, t, u} \<union> T)" using l(17) b(13) f4 by auto
  moreover have "{d, t, u} \<union> T \<subseteq> free_pages s" using a1(2) b(8) f4 l(11) b(13) a3(5) f2(1) by auto
  moreover have "{d, t, u} \<inter> T = {}" using a3(5) f2(1) b(8,13) f4 l(11) by auto
  moreover have "T = {} \<longleftrightarrow> pde s PD \<noteq> 0" by (simp add: T_def window_table_def f2(5))
  moreover have st: "dir_step ({d} \<union> {d, t} \<union> {d, u}) s3 s6"
    by (rule dir_step_trans [OF dir_step_trans [OF w4(1) b(11)] l(14)])
  moreover have "vm_frames s6 = T \<union> vm_frames s" using dir_stepD(2) [OF st] a3(4) f2(4) by simp
  moreover have "translate s6 va = translate s va" if "dir_index va < 1023" "dir_index va \<noteq> 490" for va
  proof -
    have "unat va div 4096 \<notin> {0x7AB13, 0x7AB14}" using that(2) same_page [of va PD] same_page [of va PT] by auto
    then show ?thesis using dir_stepD(7) [OF st] a3(6) [OF that] f2(2) by simp
  qed
  moreover have b3': "bitmap s3 = bitmap s" using a3(8) f2(3) by auto
  have "pmem s6 a = pmem s a" if "frame a \<notin> {0, bitmap s, d, t, u} \<union> T \<union> vm_frames s" for a
    using that dir_stepD(8) [OF st, of a] a3(7) [of a] dir_stepD(8) [OF st2, of a] by (auto simp: b3' f2 a3(4))
  moreover have "\<exists>c m f. s6 = s\<lparr>con := c, pmem := m, first_free_index := f\<rparr>"
  proof -
    have "dir_step UNIV s s2" "\<exists>m f. s3 = s2\<lparr>pmem := m, first_free_index := f\<rparr>" "dir_step ({d} \<union> {d, t} \<union> {d, u}) s3 s6"
      using dir_step_mono [OF st2] a3(8) st by auto
    then show ?thesis unfolding dir_step_def by (elim conjE exE) auto
  qed
  ultimately show ?thesis using dir_stepD(1) [OF st] l(15,16) T by (intro that [of d s6 t u T]) simp_all
qed


subsection \<open>Properties\<close>

lemma vm_boot_spare: "kernel_page_directory vm_boot \<noteq> 0" "4 \<le> card (free_pages vm_boot)" "spare_table_ok vm_boot"
proof -
  obtain s' where "init_vmm vm_start = Inr s'" "kernel_page_directory s' = bitmap vm_start + 0x1000"
    by (rule init_vmm_result [OF vm_start_pre]) blast
  then show "kernel_page_directory vm_boot \<noteq> 0" by (simp add: vm_boot_def)
  have pmm: "pmm_inv vm_boot" using vm_boot_facts(1) by (simp add: vm_inv_def)
  have "inj_on (page_of vm_boot) {4..<PAGES}" by (rule inj_on_subset [OF page_of_inj_on [OF pmm]]) auto
  then have "card (free_pages vm_boot) = card {4..<PAGES}"
    unfolding free_pages_def vm_boot_facts(2) by (rule card_image)
  then show "4 \<le> card (free_pages vm_boot)" by (simp add: PAGES_def)
  have "Min {4..<PAGES} = 4" "Min ({4..<PAGES} - {4}) = 5" by (rule Min_eqI; auto simp: PAGES_def)+
  then have p: "page_of vm_boot (Min (free_set vm_boot - {Min (free_set vm_boot)})) = 0x00306000"
    by (simp add: vm_boot_facts(2,4) page_of_def MEM_UNIT_SIZE_def)
  have z: "pmem vm_boot a = 0" if "frame a = 0x00306000" for a
  proof -
    have "unat (frame a) \<le> unat a" by (simp add: unat_frame)
    then have "0x00305000 \<le> unat a" by (simp add: that)
    then show ?thesis using vm_boot_facts(7) [of a] km_boot_zero [of a] by simp
  qed
  have "frame 0x00306000 = 0x00306000" by (simp add: frame_fix)
  then have "entry (pmem vm_boot) 0x00306000 0 = entry (\<lambda>_. 0) 0x00306000 0" using z by (intro entry_cong) auto
  then show "spare_table_ok vm_boot" by (simp add: spare_table_ok_def p entry_def load32_def)
qed



declare or3 [simp del]

end
