(* ===== verification/NewProcess.thy ===== *)
theory NewProcess
  imports Creation ProcessSpace
begin

text \<open>
  Creating a process: \<^verbatim>\<open>createProcess\<close> builds an address space, switches to it, gives it a heap and a first
  thread there, and switches back. The theorem follows the process up to its first instruction.
\<close>

subsection \<open>The first page of a heap\<close>

text \<open>Every free page starts with a zero word, so that no new page table leads \<^verbatim>\<open>map\<close> astray.\<close>

definition fresh_memory :: "'a vmm_scheme \<Rightarrow> bool" where
  "fresh_memory s \<longleftrightarrow> (\<forall>p\<in>free_pages s. entry (pmem s) p 0 = 0)"

lemma fresh_memory_step:
  assumes "fresh_memory s" and "pmm_inv s" and "free_pages s' \<subseteq> free_pages s"
    and "\<And>a. frame a \<in> free_pages s' \<Longrightarrow> pmem s' a = pmem s a"
  shows "fresh_memory s'"
  unfolding fresh_memory_def
proof
  fix p assume p: "p \<in> free_pages s'"
  then have "frame p = p" using page_ne_bitmap(3) [OF assms(2)] assms(3) by blast
  then have "entry (pmem s') p 0 = entry (pmem s) p 0" using p by (intro entry_cong assms(4)) auto
  then show "entry (pmem s') p 0 = 0" using assms(1,3) p by (auto simp: fresh_memory_def)
qed

lemma least_page: "pmm_inv s \<Longrightarrow> free_pages s \<noteq> {} \<Longrightarrow> free_set s \<noteq> {} \<and> page_of s (Min (free_set s)) \<in> free_pages s"
  using least_free [of s] first_free_in [of s] by (auto simp: free_pages_def)

lemma free_pages_pick: "pmm_inv s \<Longrightarrow> Suc n \<le> card (free_pages s) \<Longrightarrow> p \<in> free_pages s \<Longrightarrow> n \<le> card (free_pages s - {p})"
  using card_Diff_singleton [of p "free_pages s"] by simp

lemma map_heap_page:
  assumes "vm_inv s" and "pde s HEAP_START = 0" and "2 \<le> card (free_pages s)" and "fresh_memory s"
  obtains hp p s1 s2 where "pmm_alloc_page s = Inr (hp, s1)" and "map_page HEAP_START hp (PAGE_PRESENT OR PAGE_WRITE) s1 = Inr s2"
    and "vm_inv s2" and "{hp, p} \<subseteq> free_pages s" and "hp \<noteq> p" and "free_pages s2 = free_pages s - {hp, p}"
    and "vm_frames s2 = insert p (vm_frames s)" and "pde s2 HEAP_START \<noteq> 0"
    and "\<And>vb. unat vb div 4096 = 0xD0000 \<Longrightarrow> translate s2 vb = Some (hp + of_nat (unat vb mod 4096))"
    and "\<And>vb. dir_index vb < 1023 \<Longrightarrow> dir_index vb \<noteq> 832 \<Longrightarrow> translate s2 vb = translate s vb"
    and "\<And>a. frame a \<notin> {0, bitmap s, p} \<union> vm_frames s \<Longrightarrow> pmem s2 a = pmem s a"
    and "\<exists>c m f. s2 = s\<lparr>con := c, pmem := m, first_free_index := f\<rparr>"
proof -
  have pmm: "pmm_inv s" using assms(1) by (simp add: vm_inv_def)
  have ne: "free_pages s \<noteq> {}" using assms(3) by auto
  obtain hp s1 where a1: "pmm_alloc_page s = Inr (hp, s1)" "hp \<in> free_pages s" "unused_page hp s1" "dir_step {} s s1"
    "translate s1 = translate s" "free_pages s1 = free_pages s - {hp}"
    by (rule private_alloc [OF assms(1) ne])
  note d1 = dir_stepD [OF a1(4)]
  have pmm1: "pmm_inv s1" using d1(1) by (simp add: vm_inv_def)
  have ne1: "free_pages s1 \<noteq> {}" using pages_left [of "{hp}" "free_pages s"] assms(3) a1(6) by simp
  define p where "p = page_of s1 (Min (free_set s1))"
  note lp = least_page [OF pmm1 ne1, folded p_def]
  have fm1: "fresh_memory s1"
  proof (rule fresh_memory_step [OF assms(4) pmm d1(5)])
    fix a assume "frame a \<in> free_pages s1"
    then have "frame a \<noteq> bitmap s" "frame a \<notin> vm_frames s"
      using page_ne_bitmap(1) [OF pmm] assms(1) a1(6) by (auto simp: vm_inv_def)
    then show "pmem s1 a = pmem s a" using d1(8) by simp
  qed
  have z: "entry (pmem s1) p 0 = 0" using fm1 lp by (simp add: fresh_memory_def)
  have va: "dir_index HEAP_START = 832" "unat HEAP_START div 4096 = 0xD0000" by (simp_all add: HEAP_START_def dir_index_def)
  have pde1: "pde s1 HEAP_START = 0" using assms(2) d1(3) by simp
  have fl: "PAGE_PRESENT OR PAGE_WRITE = (3 :: u32)" by (rule or3)
  have hf: "frame hp = hp" using a1(3) by (simp add: unused_page_def)
  obtain s2 where s2: "map_page HEAP_START hp 3 s1 = Inr s2" "vm_inv s2" "free_pages s2 = free_pages s1 - {p}"
    "\<And>vb. dir_index vb < 1023 \<Longrightarrow> translate s2 vb
        = (if unat vb div 4096 = unat HEAP_START div 4096 then Some (frame hp + of_nat (unat vb mod 4096))
           else if dir_index vb = dir_index HEAP_START
           then let e = entry (pmem s1) p (table_index vb)
                in if bit e 0 then Some (frame e + of_nat (unat vb mod 4096)) else None
           else translate s1 vb)"
    "vm_frames s2 = insert p (vm_frames s1)" "pde s2 HEAP_START \<noteq> 0"
    "\<And>a. frame a \<notin> {0, bitmap s1, p} \<union> vm_frames s1 \<Longrightarrow> pmem s2 a = pmem s1 a"
    "\<exists>m f. s2 = s1\<lparr>pmem := m, first_free_index := f\<rparr>"
    by (rule map_page_new_table [OF d1(1) pde1 _ _ _ _ p_def z, of 3 hp]) (use lp va in auto)
  show ?thesis
  proof (rule that [of hp s1 s2 p])
    show "map_page HEAP_START hp (PAGE_PRESENT OR PAGE_WRITE) s1 = Inr s2" using s2(1) by (simp only: fl)
    show "translate s2 vb = Some (hp + of_nat (unat vb mod 4096))" if "unat vb div 4096 = 0xD0000" for vb
      using s2(4) [of vb] that va hf by (simp add: dir_index_page)
    show "translate s2 vb = translate s vb" if "dir_index vb < 1023" "dir_index vb \<noteq> 832" for vb
    proof -
      have "unat vb div 4096 \<noteq> unat HEAP_START div 4096" using that(2) va(1) by (auto simp: dir_index_page)
      then show ?thesis using s2(4) [OF that(1)] that(2) a1(5) va by simp
    qed
    show "pmem s2 a = pmem s a" if "frame a \<notin> {0, bitmap s, p} \<union> vm_frames s" for a
      using that s2(7) [of a] d1(8) [of a] d1(2,4) by simp
    obtain c m f where "s1 = s\<lparr>con := c, pmem := m, first_free_index := f\<rparr>" using a1(4) by (auto simp: dir_step_def)
    then show "\<exists>c m f. s2 = s\<lparr>con := c, pmem := m, first_free_index := f\<rparr>" using s2(8) by auto
  qed (use a1 s2 lp d1(2) in auto)
qed


subsection \<open>Changing the address space\<close>

lemma vm_inv_of: "data_area s A \<Longrightarrow> vm_inv s" by (simp add: data_area_def)

lemma ipc_inv_vm: "ipc_inv s A \<Longrightarrow> vm_inv s" by (simp add: ipc_inv_def data_area_def)

lemma ipc_inv_pages:
  assumes "ipc_inv s A" and "off_free s A" and "a \<in> km_area"
  shows "translate s a = Some a" and "frame a \<notin> vm_frames s" and "frame a \<noteq> bitmap s" and "frame a \<notin> free_pages s"
    and "frame a \<noteq> 0" and "dir_index a = 0"
proof -
  have "a \<in> A" "translate s a = Some a" using assms(1,3) by (auto simp: ipc_inv_def)
  then show "translate s a = Some a" "frame a \<notin> vm_frames s" "frame a \<noteq> bitmap s" "frame a \<notin> free_pages s"
    using assms(1,2) by (auto simp: ipc_inv_def data_area_def plain_mem_def off_free_def)
  have "0x00200000 \<le> unat a" "unat a < 0x00300000" using assms(3) by (simp_all add: km_area_def)
  then show "frame a \<noteq> 0" "dir_index a = 0" by (auto simp: word_unat_eq_iff unat_frame dir_index_low)
qed

text \<open>The kernel heap is seen by every address space whose tables and free pages lie elsewhere.\<close>

lemma ipc_inv_space:
  assumes "ipc_inv s A" and "data_area s' B" and "km_area \<subseteq> B" and "\<forall>a\<in>km_area. translate s' a = Some a"
    and "\<forall>a\<in>km_area. pmem s' a = pmem s a" and "8 \<le> km_room s"
    and "current_address s' = current_address s" and "start_address s' = start_address s"
    and "last_valid_address s' = last_valid_address s" and "is_initialized s' = is_initialized s"
    and "dom (tnodes s') = dom (tnodes s)" and "dom (mnodes s') = dom (mnodes s)"
  shows "ipc_inv s' B" and "km_used s' = km_used s" and "km_room s' = km_room s"
proof -
  show u: "km_used s' = km_used s" "km_room s' = km_room s" using assms(7) by (simp_all add: km_used_def km_room_def)
  have km: "km_inv s" using assms(1) by (simp add: ipc_inv_def task_inv_def)
  have "pmem s' a = pmem s a" if "a \<in> hdr_cells (current_address s)" for a
    using assms(5) hdr_current(1) [OF km assms(6) that] by blast
  then have "load32 (pmem s') (current_address s) = load32 (pmem s) (current_address s)"
    "load32 (pmem s') (current_address s + 4) = load32 (pmem s) (current_address s + 4)"
    by (simp_all add: load32_def hdr_cells_def cell_def)
  then have "km_inv s'" using km assms(7-10) by (simp add: km_inv_def mb_is_available_def mb_size_def)
  then show "ipc_inv s' B"
    using assms(1-4,11,12) u by (auto simp: ipc_inv_def task_inv_def)
qed

text \<open>Going back to a directory whose tables were left alone.\<close>

lemma space_back:
  assumes "vm_inv s" and "active_dir s' = active_dir s" and "cr0 s' = cr0 s" and "bitmap s' = bitmap s"
    and "\<And>a. frame a \<in> vm_frames s \<Longrightarrow> pmem s' a = pmem s a" and "pmm_inv s'" and "free_pages s' \<subseteq> free_pages s"
  shows "vm_inv s'" and "translate s' = translate s" and "vm_frames s' = vm_frames s" and "pde s' = pde s"
proof -
  have wf: "vm_wf s" using assms(1) by (simp add: vm_inv_def)
  have "same_tables (pmem s) (active_dir s) (pmem s')" using assms(5) by (simp add: same_tables_def vm_frames_def)
  note out = outside_update [OF wf this]
  have w: "vm_wf s' = vm_wf (s\<lparr>pmem := pmem s'\<rparr>)" using assms(2,3) by (simp add: vm_wf_def paging_def active_dir_def)
  show tr: "translate s' = translate s" and "pde s' = pde s" and fr: "vm_frames s' = vm_frames s"
    using out(2-4) assms(2,3) by (auto simp: translate_def paging_def active_dir_def pde_def vm_frames_def fun_eq_iff)
  then show "vm_inv s'" using assms(1,4,6,7) out(1) w by (auto simp: vm_inv_def)
qed


subsection \<open>The steps of creating a process\<close>

definition new_tables :: "u32 \<Rightarrow> u32 \<Rightarrow> u32 \<Rightarrow> 'a vmm_scheme \<Rightarrow> u32 set \<Rightarrow> bool" where
  "new_tables pd t u s A \<longleftrightarrow> fresh_dir (pmem s) pd t u \<and> {pd, t, u} \<inter> ({0, bitmap s} \<union> free_pages s \<union> vm_frames s) = {}
     \<and> (\<forall>a\<in>A. frame (the (translate s a)) \<notin> {pd, t, u})"

lemma process_space:
  assumes "ipc_inv s A" and "off_free s A" and "\<forall>a\<in>A. dir_index a < 1023 \<and> dir_index a \<noteq> 490"
    and "7 \<le> card (free_pages s)" and "fresh_memory s" and "kernel_page_directory s \<noteq> 0" and "8 \<le> km_room s"
  obtains pd t u s1 where "create_page_directory s = Inr (pd, s1)" and "new_tables pd t u s1 A"
    and "ipc_inv s1 A" and "off_free s1 A" and "3 \<le> card (free_pages s1)" and "fresh_memory s1"
    and "km_room s1 = km_room s" and "\<exists>c m f. s1 = s\<lparr>con := c, pmem := m, first_free_index := f\<rparr>"
    and "\<forall>a\<in>A. translate s1 a = translate s a"
proof -
  have area: "data_area s A" and inv: "vm_inv s" and kA: "km_area \<subseteq> A" and id: "\<forall>a\<in>km_area. translate s a = Some a"
    using assms(1) by (simp_all add: ipc_inv_def data_area_def)
  then have pmm: "pmm_inv s" and disj: "vm_frames s \<inter> free_pages s = {}" by (simp_all add: vm_inv_def)
  have fs: "free_pages s - {page_of s (Min (free_set s))} \<noteq> {}"
    using pages_left [of "{page_of s (Min (free_set s))}" "free_pages s"] assms(4) by simp
  have spare: "spare_table_ok s"
  proof -
    let ?i = "Min (free_set s)"
    have "free_set s - {?i} \<noteq> {}" using fs by (auto simp: free_pages_def)
    moreover have "finite (free_set s)" using free_set_bounded [OF pmm] by (rule finite_subset) simp
    ultimately have "Min (free_set s - {?i}) \<in> free_set s" using Min_in [of "free_set s - {?i}"] by auto
    then show ?thesis using assms(5) by (auto simp: spare_table_ok_def fresh_memory_def free_pages_def)
  qed
  have four: "4 \<le> card (free_pages s)" using assms(4) by simp
  obtain d t u T s' where p: "create_process_directory s = Inr (d, s')" "fresh_dir (pmem s') d t u"
    "{d, t, u} \<union> T \<subseteq> free_pages s" "{d, t, u} \<inter> T = {}" "free_pages s' = free_pages s - ({d, t, u} \<union> T)"
    "T = {} \<longleftrightarrow> pde s PD \<noteq> 0" "card T \<le> 1" "finite T" "vm_inv s'" "vm_frames s' = T \<union> vm_frames s"
    "\<And>va. dir_index va < 1023 \<Longrightarrow> dir_index va \<noteq> 490 \<Longrightarrow> translate s' va = translate s va"
    "translate s' PD = None" "translate s' PT = None"
    "\<And>a. frame a \<notin> {0, bitmap s, d, t, u} \<union> T \<union> vm_frames s \<Longrightarrow> pmem s' a = pmem s a"
    "\<exists>c m f. s' = s\<lparr>con := c, pmem := m, first_free_index := f\<rparr>"
    by (rule process_directory [OF inv four spare]) (rule that; assumption)
  obtain c m f where rec: "s' = s\<lparr>con := c, pmem := m, first_free_index := f\<rparr>" using p(15) by blast
  have bm: "bitmap s' = bitmap s" by (simp add: rec)
  have tr: "translate s' a = translate s a" if "a \<in> A" for a using that assms(3) p(11) by blast
  have plain: "plain_mem s' q" if "plain_mem s q" "frame q \<notin> free_pages s" for q
    using that p(3,10) bm by (auto simp: plain_mem_def)
  have area': "data_area s' A"
    using area p(9) tr plain assms(2) by (fastforce simp: data_area_def off_free_def inj_on_def)
  have kmem: "pmem s' a = pmem s a" if "a \<in> km_area" for a
    using ipc_inv_pages [OF assms(1,2) that] p(3) by (intro p(14)) auto
  have idn: "\<forall>a\<in>km_area. translate s' a = Some a" and kmem': "\<forall>a\<in>km_area. pmem s' a = pmem s a"
    using tr id kmem kA by auto
  have fields: "current_address s' = current_address s" "start_address s' = start_address s"
    "last_valid_address s' = last_valid_address s" "is_initialized s' = is_initialized s"
    "dom (tnodes s') = dom (tnodes s)" "dom (mnodes s') = dom (mnodes s)"
    by (simp_all add: rec)
  note i = ipc_inv_space [OF assms(1) area' kA idn kmem' assms(7) fields]
  have inv': "ipc_inv s' A" and room: "km_room s' = km_room s" using i by simp_all
  have off': "off_free s' A" using assms(2) tr p(5) by (auto simp: off_free_def)
  have nz: "q \<noteq> bitmap s" "q \<noteq> 0" "q \<notin> vm_frames s" if "q \<in> free_pages s" for q
    using page_ne_bitmap [OF pmm that] disj that by auto
  have "new_tables d t u s' A"
    unfolding new_tables_def using p(2,3,4,5,10) nz bm assms(2) tr by (auto simp: off_free_def)
  moreover have "fresh_memory s'"
  proof (rule fresh_memory_step [OF assms(5) pmm])
    show "free_pages s' \<subseteq> free_pages s" using p(5) by auto
    fix a assume "frame a \<in> free_pages s'"
    then show "pmem s' a = pmem s a" using nz [of "frame a"] p(5) by (intro p(14)) auto
  qed
  moreover have "3 \<le> card (free_pages s')"
  proof -
    have "card {d, t, u} \<le> 3" by (simp add: card_insert_if)
    then have "card ({d, t, u} \<union> T) \<le> 4" using card_Un_le [of "{d, t, u}" T] p(7) by simp
    then show ?thesis
      using diff_card_le_card_Diff [of "{d, t, u} \<union> T" "free_pages s"] p(8) assms(4) p(5) by simp
  qed
  ultimately show ?thesis
    using p(1,15) inv' off' room tr assms(6) by (intro that [of d s' t u]) (simp_all add: create_page_directory_def)
qed

text \<open>The first pages of the process: its kernel heap and its own heap.\<close>

definition process_area :: "u32 set" where
  "process_area = km_area \<union> {a. unat a div 4096 = 0xD0000}"

lemma process_heap:
  assumes "ipc_inv s A" and "off_free s A" and "new_tables pd t u s A" and "3 \<le> card (free_pages s)"
    and "fresh_memory s" and "8 \<le> km_room s" and "h \<noteq> 0"
  obtains s' where "heap_ctor h (switch_page_directory pd s) = Inr s'" and "ipc_inv s' process_area"
    and "grow_ok s' process_area HEAP_START 0x400" and "heap_step (switch_page_directory pd s) s'"
    and "km_room s' = km_room s" and "km_used s' = km_used s"
    and "heap_ok s' h \<lparr>current_mem_addr = HEAP_START, size_array = SIZES, list_array = replicate 11 0\<rparr>"
    and "vm_frames s' \<inter> vm_frames s = {}" and "free_pages s' \<subseteq> free_pages s"
    and "\<And>a. frame a \<in> vm_frames s \<Longrightarrow> pmem s' a = pmem s a"
    and "\<And>a p. frame p \<in> vm_frames s \<Longrightarrow> a \<in> process_area \<Longrightarrow> translate s' a \<noteq> Some p"
proof -
  define x where "x = (switch_page_directory pd s)\<lparr>heap_objs := (heap_objs s)(h \<mapsto>
      \<lparr>current_mem_addr = HEAP_START, size_array = SIZES, list_array = replicate 11 0\<rparr>)\<rparr>"
  have inv: "vm_inv s" and kA: "km_area \<subseteq> A" using assms(1) by (simp_all add: ipc_inv_def data_area_def)
  have nt: "fresh_dir (pmem s) pd t u" "{pd, t, u} \<inter> insert (bitmap s) (insert 0 (free_pages s)) = {}"
    "{pd, t, u} \<inter> vm_frames s = {}" using assms(3) by (auto simp: new_tables_def)
  note sw = directory_switched [OF inv nt(1,2)]
  have sp: "same_space x (switch_page_directory pd s)" by (simp add: x_def same_space_def)
  note ag = vmm_agree [OF sp]
  have frx: "vm_frames x = {pd, t, u}"
    using fresh_dir_wf(2) [OF nt(1)] nt(1) ag(3) by (simp add: vm_frames_def switch_page_directory_def active_dir_def fresh_dir_def)
  have "free_pages (switch_page_directory pd s) = free_pages s"
    by (simp add: free_pages_def free_set_def page_of_def taken_bit switch_page_directory_def)
  then have fpx: "free_pages x = free_pages s" using ag(5) by simp
  have memx: "pmem x = pmem s" "bitmap x = bitmap s" by (simp_all add: x_def switch_page_directory_def)
  have invx: "vm_inv x" using sw(1) ag(6) by simp
  have trx: "translate x va = (if unat va < 0x400000 then Some va else None)" if "dir_index va < 1022" for va
    using sw(2) [OF that] ag(2) by simp
  have ad: "active_dir x = pd" using nt(1) by (simp add: x_def switch_page_directory_def active_dir_def fresh_dir_def)
  have hi: "dir_index HEAP_START = 832" by (simp add: HEAP_START_def dir_index_def)
  have pdex: "pde x HEAP_START = 0" using nt(1) by (simp add: pde_def ad memx hi fresh_dir_def)
  have fmx: "fresh_memory x" using assms(5) by (simp add: fresh_memory_def fpx memx)
  have two: "2 \<le> card (free_pages x)" using assms(4) by (simp add: fpx)
  obtain hp p x1 x2 where m: "pmm_alloc_page x = Inr (hp, x1)"
    "map_page HEAP_START hp (PAGE_PRESENT OR PAGE_WRITE) x1 = Inr x2" "vm_inv x2" "{hp, p} \<subseteq> free_pages x" "hp \<noteq> p"
    "free_pages x2 = free_pages x - {hp, p}" "vm_frames x2 = insert p (vm_frames x)" "pde x2 HEAP_START \<noteq> 0"
    "\<And>vb. unat vb div 4096 = 0xD0000 \<Longrightarrow> translate x2 vb = Some (hp + of_nat (unat vb mod 4096))"
    "\<And>vb. dir_index vb < 1023 \<Longrightarrow> dir_index vb \<noteq> 832 \<Longrightarrow> translate x2 vb = translate x vb"
    "\<And>a. frame a \<notin> {0, bitmap x, p} \<union> vm_frames x \<Longrightarrow> pmem x2 a = pmem x a"
    "\<exists>c m f. x2 = x\<lparr>con := c, pmem := m, first_free_index := f\<rparr>"
    by (rule map_heap_page [OF invx pdex two fmx]) (rule that; assumption)
  obtain c q f where rec: "x2 = x\<lparr>con := c, pmem := q, first_free_index := f\<rparr>" using m(12) by blast
  define s' where "s' = printlnk ''n2'' x2"
  obtain c' where s': "s' = x2\<lparr>con := c'\<rparr>" by (simp add: s'_def print_defs)
  have ag': "vm_inv s'" "free_pages s' = free_pages x2" "translate s' = translate x2" "vm_frames s' = vm_frames x2"
    "pde s' = pde x2" "pmem s' = pmem x2" "bitmap s' = bitmap s"
    using m(3) vmm_agree [of s' x2] by (simp_all add: same_space_def s') (simp add: rec memx)
  have pmm: "pmm_inv s" using inv by (simp add: vm_inv_def)
  have hpf: "hp \<in> free_pages s" "p \<in> free_pages s" "frame hp = hp" "hp \<noteq> bitmap s" "hp \<noteq> 0"
    using m(4) page_ne_bitmap [OF pmm, of hp] by (simp_all add: fpx)
  have ctor: "heap_ctor h (switch_page_directory pd s) = Inr s'"
  proof -
    have "heap_objs (switch_page_directory pd s) = heap_objs s" by (simp add: switch_page_directory_def)
    then show ?thesis using m(1,2) by (simp add: heap_ctor_def Let_def s'_def x_def)
  qed
  have kmt: "translate s' a = Some a" if "a \<in> km_area" for a
  proof -
    have d: "dir_index a = 0" by (rule ipc_inv_pages(6) [OF assms(1,2) that])
    then have "unat a < 0x400000" by (simp add: dir_index_low)
    then show ?thesis using trx [of a] m(10) [of a] d ag'(3) by simp
  qed
  have hpt: "translate s' a = Some (hp + of_nat (unat a mod 4096))" if "unat a div 4096 = 0xD0000" for a
    using m(9) [OF that] ag'(3) by simp
  have hpfr: "frame (hp + of_nat (unat a mod 4096)) = hp" for a :: u32
    using frame_in_frame [OF hpf(3), of "unat a mod 4096"] by simp
  have kmp: "frame a \<notin> {pd, t, u}" if "a \<in> km_area" for a
  proof -
    have "frame (the (translate s a)) \<notin> {pd, t, u}" using assms(3) that kA unfolding new_tables_def by blast
    then show ?thesis using ipc_inv_pages(1) [OF assms(1,2) that] by simp
  qed
  note kp = ipc_inv_pages [OF assms(1,2)]
  have kplain: "plain_mem s' a" if "a \<in> km_area" for a
    using kp [OF that] kmp [OF that] m(7) frx hpf(2) by (auto simp: plain_mem_def ag')
  have hplain: "plain_mem s' q" if "frame q = hp" for q
    using that m(5,7) frx hpf(1,4) nt(2) by (auto simp: plain_mem_def ag')
  have area: "data_area s' process_area"
    unfolding data_area_def
  proof (intro conjI ballI)
    show "inj_on (translate s') process_area"
    proof (rule inj_onI)
      fix a b assume ab: "a \<in> process_area" "b \<in> process_area" "translate s' a = translate s' b"
      have k: "frame a \<noteq> hp" if "a \<in> km_area" for a using kp(4) [OF that] hpf(1) by auto
      consider "a \<in> km_area" "b \<in> km_area" | "a \<in> km_area" "unat b div 4096 = 0xD0000"
        | "b \<in> km_area" "unat a div 4096 = 0xD0000" | "unat a div 4096 = 0xD0000" "unat b div 4096 = 0xD0000"
        using ab by (auto simp: process_area_def)
      then show "a = b"
      proof cases
        case 1 then show ?thesis using ab(3) kmt by simp
      next
        case 2 then show ?thesis using ab(3) kmt hpt k [of a] hpfr [of b] by auto
      next
        case 3 then show ?thesis using ab(3) kmt hpt k [of b] hpfr [of a] by auto
      next
        case 4
        then have e: "hp + of_nat (unat a mod 4096) = hp + (of_nat (unat b mod 4096) :: u32)" using ab(3) hpt by simp
        then have "unat (hp + of_nat (unat a mod 4096)) = unat (hp + of_nat (unat b mod 4096))" by simp
        then have "unat a mod 4096 = unat b mod 4096"
          using unat_in_frame [OF hpf(3), of "unat a mod 4096"] unat_in_frame [OF hpf(3), of "unat b mod 4096"] by simp
        then have "unat a = unat b" using 4 by (metis mult_div_mod_eq)
        then show ?thesis by (simp add: word_unat_eq_iff)
      qed
    qed
    show "\<exists>q. translate s' a = Some q \<and> plain_mem s' q" if "a \<in> process_area" for a
      using that kmt kplain hpt hplain hpfr by (auto simp: process_area_def)
  qed (rule ag')
  have kmem: "pmem s' a = pmem s a" if "a \<in> km_area" for a
    using m(11) [of a] kp [OF that] kmp [OF that] frx hpf(2) by (auto simp: ag' memx)
  have fields: "current_address s' = current_address s" "start_address s' = start_address s"
    "last_valid_address s' = last_valid_address s" "is_initialized s' = is_initialized s"
    "tnodes s' = tnodes s" "mnodes s' = mnodes s" "heap_objs s' = heap_objs x"
    by (simp_all add: s' rec x_def switch_page_directory_def)
  have kpa: "km_area \<subseteq> process_area" by (auto simp: process_area_def)
  have kmt': "\<forall>a\<in>km_area. translate s' a = Some a" and kmem': "\<forall>a\<in>km_area. pmem s' a = pmem s a"
    using kmt kmem by simp_all
  note i = ipc_inv_space [OF assms(1) area kpa kmt' kmem' assms(6) fields(1-4), unfolded fields, OF refl refl]
  have grow: "grow_ok s' process_area HEAP_START 0x400"
  proof -
    have np: "new_pages HEAP_START 0x400 = 1" "page_end HEAP_START = 0xD0001000"
      by (simp_all add: new_pages_def page_end_def HEAP_START_def)
    have "off_free s' process_area"
      using kmt hpt hpfr kp(4) hpf(1) m(6) by (auto simp: off_free_def process_area_def ag' fpx)
    moreover have "hdr_cells HEAP_START \<subseteq> process_area"
      by (simp add: hdr_cells_def cell_def process_area_def HEAP_START_def)
    moreover have "1 \<le> card (free_pages s')"
    proof -
      have "free_pages s' \<noteq> {}" using pages_left [of "{hp, p}" "free_pages s"] assms(4) m(6) ag'(2) by (simp add: fpx card_insert_if)
      moreover have "pmm_inv s'" using ag'(1) by (simp add: vm_inv_def)
      ultimately show ?thesis using pages.free_pages_finite card_gt_0_iff [of "free_pages s'"] by (simp add: Suc_le_eq)
    qed
    moreover have "b \<notin> process_area \<and> pde s' b \<noteq> 0 \<and> dir_index b < 1022" if "0xD0001000 \<le> unat b" "unat b < 0xD0002000" for b
    proof -
      have "dir_index b = 832" using that by (simp add: dir_index_def)
      moreover from this have "pde s' b = pde x2 HEAP_START" using ag'(5) hi by (simp add: pde_def)
      moreover have "unat b div 4096 \<noteq> 0xD0000" using that by simp
      ultimately show ?thesis using that m(8) by (simp add: process_area_def km_area_def)
    qed
    ultimately show ?thesis using area np by (simp add: grow_ok_def)
  qed
  have notpd: "frame a \<notin> {0, bitmap x, p} \<union> vm_frames x" if "frame a \<in> vm_frames s" for a
    using that inv nt(3) hpf(2) frx by (auto simp: vm_inv_def memx)
  show ?thesis
  proof (rule that [OF ctor i(1) grow])
    show "heap_step (switch_page_directory pd s) s'" unfolding heap_step_def
      by (rule exI [of _ c'], rule exI [of _ q], rule exI [of _ f], rule exI [of _ "heap_objs x"]) (simp add: s' rec x_def)
    show "heap_ok s' h \<lparr>current_mem_addr = HEAP_START, size_array = SIZES, list_array = replicate 11 0\<rparr>"
      using assms(7) by (simp add: heap_ok_def fields x_def)
    show "vm_frames s' \<inter> vm_frames s = {}" using ag'(4) m(7) frx nt(3) hpf(2) inv by (auto simp: vm_inv_def)
    show "free_pages s' \<subseteq> free_pages s" using ag'(2) m(6) by (auto simp: fpx)
    show "pmem s' a = pmem s a" if "frame a \<in> vm_frames s" for a
      using m(11) [OF notpd [OF that]] by (simp add: ag' memx)
    show "translate s' a \<noteq> Some q" if "frame q \<in> vm_frames s" "a \<in> process_area" for a q
    proof -
      have "hp \<notin> vm_frames s" using inv hpf(1) by (auto simp: vm_inv_def)
      then show ?thesis using that kmt hpt hpfr kp(2) by (auto simp: process_area_def)
    qed
  qed (use i in auto)
qed


lemma fresh_dir_cong:
  assumes "fresh_dir m d t u" and "\<And>a. frame a \<in> {d, t, u} \<Longrightarrow> m' a = m a"
  shows "fresh_dir m' d t u"
proof -
  have "entry m' f j = entry m f j" if "f \<in> {d, t, u}" "j < 1024" for f j
    using assms that by (intro entry_cong) (auto simp: fresh_dir_def)
  then show ?thesis using assms(1) by (simp add: fresh_dir_def)
qed

lemma new_tables_same: "same_space s' s \<Longrightarrow> new_tables pd t u s' A = new_tables pd t u s A"
  using vmm_agree [of s' s] by (simp add: new_tables_def)

lemma memory_same: "same_space s' s \<Longrightarrow> fresh_memory s' = fresh_memory s \<and> off_free s' A = off_free s A"
  using vmm_agree [of s' s] by (simp add: fresh_memory_def off_free_def)

text \<open>A block of the kernel heap changes no page outside the kernel heap.\<close>

lemma object_keeps:
  assumes "ipc_inv s A" and "off_free s A" and "fresh_memory s" and "unat bytes + 16 \<le> km_room s"
  defines "s' \<equiv> s\<lparr>pmem := taken_mem (pmem s) (current_address s) bytes, current_address := current_address s + 8 + bytes\<rparr>"
  shows "off_free s' A" and "fresh_memory s'" and "free_pages s' = free_pages s" and "translate s' = translate s"
    and "pde s' = pde s" and "vm_frames s' = vm_frames s" and "data_area s' A" and "\<And>a. a \<notin> km_area \<Longrightarrow> pmem s' a = pmem s a"
proof -
  let ?m = "taken_mem (pmem s) (current_address s) bytes"
  have km: "km_inv s" and pmm: "pmm_inv s"
    using assms(1) by (simp_all add: ipc_inv_def task_inv_def data_area_def vm_inv_def)
  have out: "\<forall>a. a \<notin> km_area \<longrightarrow> ?m a = pmem s a"
    using km assms(4) by (auto simp: km_area_def km_inv_def km_room_def intro!: taken_mem_frame)
  have sp: "same_space s' (s\<lparr>pmem := ?m\<rparr>)" by (simp add: s'_def same_space_def)
  note ag = vmm_agree [OF sp] and wr = km_write(1,2) [OF assms(1) out] and wp = km_write_pages [OF assms(1) out]
    and as = ipc_alloc_area [OF assms(1,4), of "current_address s + 8 + bytes", folded s'_def]
  show tr: "translate s' = translate s" and "data_area s' A" and "pde s' = pde s" using ag wr wp by simp_all
  show fp: "free_pages s' = free_pages s" and "vm_frames s' = vm_frames s" using ag wp as by (simp_all add: area_step_def)
  show "off_free s' A" using assms(2) tr fp by (simp add: off_free_def)
  show mem: "pmem s' a = pmem s a" if "a \<notin> km_area" for a using out that by (simp add: s'_def)
  show "fresh_memory s'"
    by (rule fresh_memory_step [OF assms(3) pmm]) (use fp mem ipc_inv_pages(4) [OF assms(1,2)] in auto)
qed

text \<open>In particular it leaves the new address space alone.\<close>

lemma process_object:
  assumes "ipc_inv s A" and "off_free s A" and "new_tables pd t u s A" and "3 \<le> card (free_pages s)"
    and "fresh_memory s" and "unat bytes + 16 \<le> km_room s"
  defines "s' \<equiv> s\<lparr>pmem := taken_mem (pmem s) (current_address s) bytes, current_address := current_address s + 8 + bytes\<rparr>"
  shows "off_free s' A" and "new_tables pd t u s' A" and "3 \<le> card (free_pages s')" and "fresh_memory s'"
    and "translate s' = translate s" and "active_dir s' = active_dir s" and "data_area s' A"
proof -
  note ok = object_keeps [OF assms(1,2,5,6), folded s'_def]
  show "off_free s' A" "3 \<le> card (free_pages s')" "fresh_memory s'" "translate s' = translate s" "data_area s' A"
    using ok assms(4) by simp_all
  show "active_dir s' = active_dir s" by (simp add: s'_def active_dir_def)
  have kA: "km_area \<subseteq> A" using assms(1) by (simp add: ipc_inv_def)
  have keep: "pmem s' a = pmem s a" if "frame a \<in> {pd, t, u}" for a
  proof -
    have "frame (the (translate s a)) \<notin> {pd, t, u}" if "a \<in> km_area"
      using assms(3) that kA unfolding new_tables_def by blast
    then have "a \<notin> km_area" using ipc_inv_pages(1) [OF assms(1,2)] that by auto
    then show ?thesis by (rule ok(8))
  qed
  have "fresh_dir (pmem s') pd t u"
    by (rule fresh_dir_cong [where m = "pmem s"]) (use assms(3) keep in \<open>auto simp: new_tables_def\<close>)
  moreover have "bitmap s' = bitmap s" by (simp add: s'_def)
  ultimately show "new_tables pd t u s' A" using assms(3) ok by (simp add: new_tables_def)
qed

lemma switch_pmm [simp]:
  "pmm_inv (switch_page_directory d s) = pmm_inv s" "free_pages (switch_page_directory d s) = free_pages s"
proof -
  have tk: "taken i (switch_page_directory d s) = taken i s" for i by (simp add: taken_bit switch_page_directory_def)
  show "pmm_inv (switch_page_directory d s) = pmm_inv s" "free_pages (switch_page_directory d s) = free_pages s"
    by (simp_all add: pmm_inv_def free_pages_def free_set_def page_of_def tk) (simp_all add: switch_page_directory_def)
qed

lemma createProcess_sched:
  assumes "sched_rep s c ts" and "ipc_inv s A" and "off_free s A" and "\<forall>a\<in>A. dir_index a < 1023 \<and> dir_index a \<noteq> 490"
    and "7 \<le> card (free_pages s)" and "fresh_memory s" and "kernel_page_directory s \<noteq> 0" and "200 \<le> km_room s"
    and "dom (threads s) \<subseteq> km_used s" and "cr3 s = t_page_directory (the (threads s c))"
  obtains s' thr pd h where "createProcess child s = Inr (0, s')" and "sched_rep s' c (ts @ [thr])" and "ipc_inv s' A"
    and "\<forall>a\<in>A. translate s' a = translate s a" and "thr \<notin> dom (threads s)"
    and "threads s' = (threads s)(thr \<mapsto> new_thread (HEAP_START + 8) pd h (tid s))" and "tid s' = tid s + 1"
    and "cr3 s' = cr3 s" and "currentHeap s' = t_heap (the (threads s c))"
    and "start_frame (vview (s'\<lparr>cr3 := pd\<rparr>)) (HEAP_START + 1004) = [addr_thread_start s, addr_thread_exit s, child]"
    and "vm_inv (s'\<lparr>cr3 := pd\<rparr>)" and "vm_frames (s'\<lparr>cr3 := pd\<rparr>) \<inter> vm_frames s' = {}"
    and "ipc_inv (s'\<lparr>cr3 := pd\<rparr>) process_area" and "mnodes s' = mnodes s" and "msgs s' = msgs s"
    and "km_room s' + 168 = km_room s" and "task_step s s'"
proof -
  define s0 where "s0 = printlnk ''++pd'' s"
  obtain c0 where s0: "s0 = s\<lparr>con := c0\<rparr>" by (simp add: s0_def print_defs)
  have sp0: "same_space s0 s" by (simp add: same_space_def s0)
  note ag0 = vmm_agree [OF sp0]
  have i0: "ipc_inv s0 A" and r0: "km_room s0 = km_room s" using assms(2) by (simp_all add: s0)
  have k0: "off_free s0 A" "7 \<le> card (free_pages s0)" "fresh_memory s0" "kernel_page_directory s0 \<noteq> 0" "8 \<le> km_room s0"
    using memory_same [OF sp0] ag0(5) assms(3,5-8) r0 by (simp_all add: s0)
  obtain pd t u s1 where s1: "create_page_directory s0 = Inr (pd, s1)" "new_tables pd t u s1 A" "ipc_inv s1 A" "off_free s1 A"
    "3 \<le> card (free_pages s1)" "fresh_memory s1" "km_room s1 = km_room s0"
    "\<exists>c m f. s1 = s0\<lparr>con := c, pmem := m, first_free_index := f\<rparr>" "\<forall>a\<in>A. translate s1 a = translate s0 a"
    by (rule process_space [OF i0 k0(1) assms(4) k0(2-5)])
  define s2 where "s2 = printlnk '''' (printhexk pd (printk ''pd: '' s1))"
  obtain c2 where s2: "s2 = s1\<lparr>con := c2\<rparr>" by (simp add: s2_def print_defs)
  have sp2: "same_space s2 s1" by (simp add: same_space_def s2)
  note ag2 = vmm_agree [OF sp2]
  have i2: "ipc_inv s2 A" "unat (92 :: u32) + 16 \<le> km_room s2" using s1(3,7) r0 assms(8) by (simp_all add: s2)
  have k2: "off_free s2 A" "new_tables pd t u s2 A" "3 \<le> card (free_pages s2)" "fresh_memory s2"
    using memory_same [OF sp2] new_tables_same [OF sp2] ag2(5) s1(2,4-6) by simp_all
  define h where "h = current_address s2 + 8"
  define s3 where "s3 = s2\<lparr>pmem := taken_mem (pmem s2) (current_address s2) 92,
      current_address := current_address s2 + 8 + 92\<rparr>"
  note a3 = ipc_alloc [OF i2, folded h_def s3_def] and k3 = process_object [OF i2(1) k2 i2(2), folded s3_def]
  have r3: "100 \<le> km_room s3" using a3(10) s1(7) r0 assms(8) by (simp add: s2)
  have eight: "8 \<le> km_room s3" using r3 by simp
  obtain s4 where s4: "heap_ctor h (switch_page_directory pd s3) = Inr s4" "ipc_inv s4 process_area"
    "grow_ok s4 process_area HEAP_START 0x400" "heap_step (switch_page_directory pd s3) s4"
    "km_room s4 = km_room s3" "km_used s4 = km_used s3"
    "heap_ok s4 h \<lparr>current_mem_addr = HEAP_START, size_array = SIZES, list_array = replicate 11 0\<rparr>"
    "vm_frames s4 \<inter> vm_frames s3 = {}" "free_pages s4 \<subseteq> free_pages s3"
    "\<And>a. frame a \<in> vm_frames s3 \<Longrightarrow> pmem s4 a = pmem s3 a"
    "\<And>a p. frame p \<in> vm_frames s3 \<Longrightarrow> a \<in> process_area \<Longrightarrow> translate s4 a \<noteq> Some p"
    by (rule process_heap [OF a3(2) k3(1-4) eight a3(3)]) (rule that; assumption)
  define s5 where "s5 = (printlnk '''' (printhexk h (printk ''Heap: '' s4)))\<lparr>currentHeap := h\<rparr>"
  obtain c5 where s5: "s5 = s4\<lparr>con := c5, currentHeap := h\<rparr>" by (simp add: s5_def print_defs)
  have sp5: "same_space s5 s4" by (simp add: same_space_def s5)
  note ag5 = vmm_agree [OF sp5]
  have u5: "km_room s5 = km_room s4" "km_used s5 = km_used s4" "km_inv s5 = km_inv s4"
    by (simp_all add: km_room_def km_used_def km_inv_def s5)
  have i5: "ipc_inv s5 process_area" using s4(2) ag5 u5 by (simp add: ipc_inv_def task_inv_def) (simp add: s5)
  have g5: "grow_ok s5 process_area HEAP_START 0x400" using s4(3) ag5 by (simp add: grow_ok_def off_free_def)
  have h5: "heap_ok s5 (currentHeap s5) \<lparr>current_mem_addr = HEAP_START, size_array = SIZES, list_array = replicate 11 0\<rparr>"
    using s4(7) by (simp add: heap_ok_def s5)
  have f4: "threads s4 = threads s" "tnodes s4 = tnodes s" "current_thread s4 = current_thread s" "ready_queue s4 = ready_queue s"
    "tid s4 = tid s" "addr_thread_start s4 = addr_thread_start s" "addr_thread_exit s4 = addr_thread_exit s"
    "mnodes s4 = mnodes s" "msgs s4 = msgs s" "cr3 s4 = pd" "cr0 s4 = cr0 s" "bitmap s4 = bitmap s" "bitmap s3 = bitmap s"
    "cr0 s3 = cr0 s" "active_dir s3 = active_dir s"
    using s4(4) s1(8) by (auto simp: heap_step_def switch_page_directory_def s3_def s2 s0 active_dir_def)
  have f5: "threads s5 = threads s" "tnodes s5 = tnodes s" "current_thread s5 = current_thread s" "ready_queue s5 = ready_queue s"
    "tid s5 = tid s" "addr_thread_start s5 = addr_thread_start s" "addr_thread_exit s5 = addr_thread_exit s"
    "mnodes s5 = mnodes s" "msgs s5 = msgs s" "cr3 s5 = pd" "cr0 s5 = cr0 s" "bitmap s5 = bitmap s" "currentHeap s5 = h"
    by (simp_all add: s5 f4)
  have rep5: "sched_rep s5 c ts" using sched_rep_work [OF _ assms(1)] by (simp add: thread_work_def f5)
  obtain xs n where q: "queue_nodes s5 (ready_queue s5) xs ts" "current_thread s5 \<noteq> 0" "current_thread s5 \<notin> set xs"
    "tnodes s5 (current_thread s5) = Some n" "tl_thread n = c" "\<forall>x\<in>set xs. \<not> tl_remove (the (tnodes s5 x))" "described s5 c"
    using rep5 by (auto simp: sched_rep_def)
  obtain tc where tc: "threads s c = Some tc" "c \<noteq> 0" using q(7) by (auto simp: described_def f5)
  have dom5: "dom (threads s5) \<subseteq> km_used s5"
  proof -
    have "km_used s2 = km_used s" using s1(8) by (auto simp: km_used_def s2 s0)
    then show ?thesis using assms(9) a3(5) u5(2) s4(6) by (auto simp: f5)
  qed
  have room5: "88 \<le> km_room s5" using r3 u5 s4(5) by simp
  have span5: "span HEAP_START 1032 \<subseteq> process_area - km_area"
    by (auto simp: span_small process_area_def km_area_def HEAP_START_def)
  define new where "new = new_thread (HEAP_START + 8) pd h (tid s)"
  obtain s6 thr y where s6: "create_thread_in child pd h s5 = Inr (0, s6)" "ipc_inv s6 process_area"
    "queue_nodes s6 (ready_queue s6) (xs @ [y]) (ts @ [thr])" "y \<notin> dom (tnodes s5)" "\<not> tl_remove (the (tnodes s6 y))"
    "\<forall>x k. tnodes s5 x = Some k \<longrightarrow> (\<exists>m. tnodes s6 x = Some m \<and> tl_thread m = tl_thread k \<and> tl_remove m = tl_remove k)"
    "thr \<noteq> 0" "thr \<notin> dom (threads s5)" "threads s6 = (threads s5)(thr \<mapsto> new)" "tid s6 = tid s5 + 1"
    "current_thread s6 = current_thread s5" "km_room s6 + 68 = km_room s5"
    "start_frame (vview s6) (t_esp new) = [addr_thread_start s5, addr_thread_exit s5, child]"
    "area_step s5 process_area s6" "same_process s5 s6" "mnodes s6 = mnodes s5" "msgs s6 = msgs s5" "task_step s5 s6"
    using create_thread_result [OF i5 room5 q(1) h5 _ _ _ _ dom5, of HEAP_START child pd h] g5 span5
    by (auto simp: new_def f5 numeral_eq_Suc)
  have rep6: "sched_rep s6 c (ts @ [thr])" by (rule created_rep [OF rep5 q(1,3) s6(3-9,11) q(6)])
  obtain m where m: "tnodes s6 (current_thread s6) = Some m" "tl_thread m = c"
    using s6(6,11) q(4,5) by fastforce
  have thc: "threads s6 c = Some tc" using s6(8,9) tc(1) by (auto simp: f5)
  define s7 where "s7 = switch_page_directory (t_page_directory tc) (s6\<lparr>currentHeap := t_heap tc\<rparr>)"
  have run: "createProcess child s = Inr (0, s7)"
    using s1(1) a3(1) s4(1) s6(1) m thc tc(2) q(2) s6(11)
    by (simp add: createProcess_def Let_def s0_def [symmetric] s2_def [symmetric] sizeof_Heap_def s5_def [symmetric]
        s7_def tnode_at_def thread_at_def deref_def)
  have pd6: "cr3 s6 = pd" "cr0 s6 = cr0 s" "bitmap s6 = bitmap s"
    using s6(14,15) f5 by (simp_all add: same_process_def area_step_def)
  have inv3: "vm_inv s3" by (rule ipc_inv_vm [OF a3(2)])
  have inv6: "vm_inv s6" by (rule ipc_inv_vm [OF s6(2)])
  have f7: "active_dir s7 = active_dir s3" "cr0 s7 = cr0 s3" "bitmap s7 = bitmap s3" "pmem s7 = pmem s6" "cr3 s7 = cr3 s"
    using assms(10) tc(1) f4 pd6 by (simp_all add: s7_def switch_page_directory_def active_dir_def)
  have sp6: "same_space (s6\<lparr>currentHeap := t_heap tc\<rparr>) s6" by (simp add: same_space_def)
  note ag6 = vmm_agree [OF sp6]
  have pmm7: "pmm_inv s7" "free_pages s7 = free_pages s6" using inv6 ag6 by (simp_all add: s7_def vm_inv_def)
  have keep: "pmem s7 a = pmem s3 a" if a: "frame a \<in> vm_frames s3" for a
  proof -
    have "plain_mem s5 a" using a s4(8) inv3 f5(12) f4(13) ag5(3) by (auto simp: plain_mem_def vm_inv_def)
    moreover have "\<forall>b\<in>process_area. translate s5 b \<noteq> Some a" using s4(11) [OF a] ag5(2) by auto
    ultimately have "pmem s6 a = pmem s5 a" using s6(14) by (simp add: area_step_def)
    also have "\<dots> = pmem s3 a" using s4(10) [OF a] ag5(1) by simp
    finally show ?thesis by (simp add: f7)
  qed
  have "free_pages s6 \<subseteq> free_pages s3" using s6(14) s4(9) ag5(5) by (auto simp: area_step_def)
  then have fp7: "free_pages s7 \<subseteq> free_pages s3" using pmm7(2) by simp
  note bk = space_back [OF inv3 f7(1-3) keep pmm7(1) fp7]
  have area7: "data_area s7 A" using k3(7) bk f7(3) by (simp add: data_area_def plain_mem_def)
  have tr: "\<forall>a\<in>A. translate s7 a = translate s a"
    using bk(2) k3(5) ag2(2) s1(9) ag0(2) by simp
  have kA: "km_area \<subseteq> A" "\<forall>a\<in>km_area. translate s a = Some a" using assms(2) by (simp_all add: ipc_inv_def)
  have f7': "current_address s7 = current_address s6" "start_address s7 = start_address s6"
    "last_valid_address s7 = last_valid_address s6" "is_initialized s7 = is_initialized s6"
    "dom (tnodes s7) = dom (tnodes s6)" "dom (mnodes s7) = dom (mnodes s6)" "threads s7 = threads s6" "tid s7 = tid s6"
    "currentHeap s7 = t_heap tc" "mnodes s7 = mnodes s6" "msgs s7 = msgs s6"
    by (simp_all add: s7_def switch_page_directory_def)
  have room6: "8 \<le> km_room s6" using s6(12) room5 by simp
  have kt7: "\<forall>a\<in>km_area. translate s7 a = Some a" using tr kA by auto
  have "\<forall>a\<in>km_area. pmem s7 a = pmem s6 a" by (simp add: f7)
  note i7 = ipc_inv_space [OF s6(2) area7 kA(1) kt7 this room6 f7'(1-6)]
  have rep7: "sched_rep s7 c (ts @ [thr])"
    by (rule sched_rep_work [OF _ rep6]) (simp add: thread_work_def s7_def switch_page_directory_def)
  have sp7: "same_space (s7\<lparr>cr3 := pd\<rparr>) s6" using pd6 by (simp add: same_space_def s7_def switch_page_directory_def)
  note ag7 = vmm_agree [OF sp7]
  have u7: "km_used (s7\<lparr>cr3 := pd\<rparr>) = km_used s6" "km_inv (s7\<lparr>cr3 := pd\<rparr>) = km_inv s6"
    by (simp_all add: km_used_def km_inv_def s7_def switch_page_directory_def)
  have ip: "ipc_inv (s7\<lparr>cr3 := pd\<rparr>) process_area"
    using s6(2) ag7 u7 by (simp add: ipc_inv_def task_inv_def) (simp add: s7_def switch_page_directory_def)
  have "vm_frames s6 = vm_frames s4" using s6(14) ag5(3) by (simp add: area_step_def)
  then have apart: "vm_frames (s7\<lparr>cr3 := pd\<rparr>) \<inter> vm_frames s7 = {}" using ag7(3) bk(3) s4(8) by simp
  have esp: "t_esp new = HEAP_START + 1004" by (simp add: new_def new_thread_def)
  have frame: "start_frame (vview (s7\<lparr>cr3 := pd\<rparr>)) (HEAP_START + 1004) = [addr_thread_start s, addr_thread_exit s, child]"
    using s6(13) esp ag7(9) by (simp add: f5)
  show ?thesis
  proof (rule that [OF run rep7 i7(1) tr _ _ _ f7(5) _ frame _ apart ip])
    show "thr \<notin> dom (threads s)" using s6(8) by (simp add: f5)
    show "threads s7 = (threads s)(thr \<mapsto> new_thread (HEAP_START + 8) pd h (tid s))"
      using s6(9) by (simp add: f7' f5 new_def)
    show "tid s7 = tid s + 1" "currentHeap s7 = t_heap (the (threads s c))" "mnodes s7 = mnodes s" "msgs s7 = msgs s"
      using s6(10,16,17) tc(1) by (simp_all add: f7' f5)
    show "vm_inv (s7\<lparr>cr3 := pd\<rparr>)" by (rule ipc_inv_vm [OF ip])
    show "km_room s7 + 168 = km_room s" using i7(3) s6(12) u5(1) s4(5) a3(10) s1(7) r0 assms(8) by (simp add: s2)
    have "task_step s s1" using s1(8) task_step_trans [OF task_stepI(1,6)] by (auto simp: s0)
    moreover have "task_step s1 s3" unfolding s3_def s2 by (rule task_step_trans [OF task_stepI(1,4)])
    moreover have "task_step s3 s4" by (rule task_step_trans [OF task_stepI(7) heap_step_task [OF s4(4)]])
    moreover have "task_step s4 s5" unfolding s5 by (rule task_step_trans [OF task_stepI(1,5)])
    moreover have "task_step s6 s7" unfolding s7_def by (rule task_step_trans [OF task_stepI(5,7)])
    ultimately show "task_step s s7" using s6(18) by (meson task_step_trans)
  qed
qed


subsection \<open>Properties\<close>


lemma demo_process:
  "off_free demo_creation creation_area" "\<forall>a\<in>creation_area. dir_index a < 1023 \<and> dir_index a \<noteq> 490"
  "7 \<le> card (free_pages demo_creation)" "fresh_memory demo_creation" "kernel_page_directory demo_creation \<noteq> 0"
  "cr3 demo_creation = t_page_directory (the (threads demo_creation 0x00200100))"
proof -
  have sp: "same_space demo_creation demo_ipc" by (simp add: demo_creation_def same_space_def ipc.defs)
  note ag = vmm_agree [OF sp] and bs = boot_space [OF demo_ipc_space demo_mem_high]
  show "off_free demo_creation creation_area" using demo_creation_inv(3) by (simp add: grow_ok_def)
  have "dir_index a = 0" if "a \<in> creation_area" for a
    using that by (simp add: creation_area_def low_mem_def dir_index_low)
  then show "\<forall>a\<in>creation_area. dir_index a < 1023 \<and> dir_index a \<noteq> 490" by simp
  have fp: "free_pages demo_creation = free_pages vm_boot" using ag(5) bs(4) by simp
  then show "7 \<le> card (free_pages demo_creation)" by (simp add: boot_free_pages(2))
  have pmm: "pmm_inv vm_boot" using vm_boot_facts(1) by (simp add: vm_inv_def)
  have mem: "pmem demo_creation = demo_mem" using ag(1) demo_ipc_space by (simp add: same_space_def)
  have z: "pmem demo_creation a = 0" if "frame a \<in> free_pages vm_boot" for a
  proof -
    have "unat (frame a) \<le> unat a" by (simp add: unat_frame)
    then have hi: "0x00305000 \<le> unat a" using boot_free_pages(1) [OF that] by simp
    then have "a \<notin> low_mem" by (simp add: low_mem_def)
    then show ?thesis using hi demo_mem_high vm_boot_facts(7) [of a] km_boot_zero [of a] by (simp add: mem)
  qed
  show "fresh_memory demo_creation" unfolding fresh_memory_def fp
  proof
    fix p assume p: "p \<in> free_pages vm_boot"
    then have "frame p = p" by (rule page_ne_bitmap(3) [OF pmm])
    then have "entry (pmem demo_creation) p 0 = entry (\<lambda>_. 0) p 0" using z p by (intro entry_cong) auto
    then show "entry (pmem demo_creation) p 0 = 0" by (simp add: entry_def load32_def)
  qed
  obtain s' where s': "init_vmm vm_start = Inr s'" "cr3 s' = bitmap vm_start + 0x1000" "kernel_page_directory s' = bitmap vm_start + 0x1000"
    using init_vmm_steps [OF vm_start_pre] by fastforce
  have "cr3 demo_creation = cr3 vm_boot" "kernel_page_directory demo_creation = kernel_page_directory vm_boot"
    by (simp_all add: demo_creation_def demo_ipc_def ipc.defs tasks.defs kheap.defs vmm.defs)
  then show "kernel_page_directory demo_creation \<noteq> 0"
    "cr3 demo_creation = t_page_directory (the (threads demo_creation 0x00200100))"
    using s' by (simp_all add: vm_boot_def demo_creation_fields) (simp add: demo_tasks_def demo_thread_def)
qed




end
