(* ===== verification/Boot.thy ===== *)
theory Boot
  imports KernelLoop NewProcess
begin

text \<open>
  The start of the kernel as a whole: \<^verbatim>\<open>kmain\<close> from the hand-over by the boot loader to its endless loop, through the
  set-up of interrupts, physical and virtual memory, the kernel heap, the first thread and the first
  process. What it leaves is what the theorems on threads and messages ask for.
\<close>

subsection \<open>The kernel heap comes up\<close>

lemma kernel_malloc_first: "\<not> is_initialized s \<Longrightarrow> kernel_malloc b s = kernel_malloc b (init_kernel_malloc s)"
proof -
  assume "\<not> is_initialized s"
  then have "ensure_init s = ensure_init (init_kernel_malloc s)"
    using ensure_init_id [OF init_km_inv [of s]] by (simp add: ensure_init_def)
  then show ?thesis by (simp add: kernel_malloc_def)
qed

lemma init_kernel_malloc_fields:
  obtains m where "init_kernel_malloc s = s\<lparr>pmem := m, is_initialized := True, start_address := 0x00200000,
      last_valid_address := 0x00300000, current_address := 0x00200000\<rparr>"
    and "\<And>a. a \<notin> km_area \<Longrightarrow> m a = pmem s a"
proof
  let ?m = "store32 (store32 (pmem s) 0x00200000 1) 0x00200004 0x00100000"
  show "init_kernel_malloc s = s\<lparr>pmem := ?m, is_initialized := True, start_address := 0x00200000,
      last_valid_address := 0x00300000, current_address := 0x00200000\<rparr>"
    by (simp add: init_kernel_malloc_def Let_def set_is_available_def set_size_def)
  show "?m a = pmem s a" if "a \<notin> km_area" for a
  proof -
    have "a \<noteq> 0x00200000 + of_nat k" if "k < 8" for k
    proof
      assume "a = 0x00200000 + of_nat k"
      then have "unat a = 0x00200000 + k" using \<open>k < 8\<close> by (simp add: unat_add_small unat_of_nat_u32)
      then show False using \<open>a \<notin> km_area\<close> \<open>k < 8\<close> by (simp add: km_area_def)
    qed
    from this [of 0] this [of 1] this [of 2] this [of 3] this [of 4] this [of 5] this [of 6] this [of 7]
    have "a \<notin> cell 0x00200000" "a \<notin> cell 0x00200004" by (auto simp: cell_def)
    then show ?thesis by (simp add: store32_notin)
  qed
qed

lemma heap_up:
  assumes "data_area s A" and "km_area \<subseteq> A" and "\<forall>a\<in>km_area. translate s a = Some a" and "off_free s A"
    and "fresh_memory s" and "tnodes s = Map.empty" and "mnodes s = Map.empty"
  defines "s' \<equiv> init_kernel_malloc s"
  shows "ipc_inv s' A" and "off_free s' A" and "fresh_memory s'" and "km_room s' = 0x00100000"
    and "translate s' = translate s" and "free_pages s' = free_pages s" and "pde s' = pde s"
proof -
  obtain m where m: "s' = s\<lparr>pmem := m, is_initialized := True, start_address := 0x00200000,
      last_valid_address := 0x00300000, current_address := 0x00200000\<rparr>"
    "\<And>a. a \<notin> km_area \<Longrightarrow> m a = pmem s a"
    unfolding s'_def by (rule init_kernel_malloc_fields [of s]) blast
  have inv: "vm_inv s" by (rule vm_inv_of [OF assms(1)])
  have "plain_mem s a" if "a \<in> km_area" for a
    using that assms(1-3) by (fastforce simp: data_area_def)
  then have keep: "m a = pmem s a" if "\<not> plain_mem s a" for a using that m(2) by blast
  note up = plain_update [OF inv keep]
  have sp: "same_space s' (s\<lparr>pmem := m\<rparr>)" by (simp add: m(1) same_space_def)
  note ag = vmm_agree [OF sp]
  show tr: "translate s' = translate s" and fp: "free_pages s' = free_pages s" and "pde s' = pde s" using ag up by simp_all
  have area: "data_area s' A" using assms(1) ag up by (simp add: data_area_def)
  show "off_free s' A" using assms(4) tr fp by (simp add: off_free_def)
  show "km_room s' = 0x00100000" by (simp add: km_room_def m(1))
  have "km_inv s'" unfolding s'_def by (rule init_km_inv)
  then show "ipc_inv s' A" using area assms(2,3,6,7) tr by (simp add: ipc_inv_def task_inv_def m(1))
  have pmm: "pmm_inv s" using inv by (simp add: vm_inv_def)
  show "fresh_memory s'"
  proof (rule fresh_memory_step [OF assms(5) pmm])
    fix a assume a: "frame a \<in> free_pages s'"
    have "a \<notin> km_area" using a assms(2-4) fp by (fastforce simp: off_free_def)
    then show "pmem s' a = pmem s a" using m by simp
  qed (simp add: fp)
qed

text \<open>A heap in the running address space.\<close>

lemma ctor_step:
  assumes "ipc_inv s A" and "off_free s A" and "\<forall>a\<in>A. dir_index a < 1023 \<and> dir_index a \<noteq> 832"
    and "pde s HEAP_START = 0" and "2 \<le> card (free_pages s)" and "fresh_memory s" and "8 \<le> km_room s"
  obtains s' where "heap_ctor h s = Inr s'" and "ipc_inv s' A" and "off_free s' A" and "fresh_memory s'"
    and "card (free_pages s) \<le> card (free_pages s') + 2" and "heap_step s s'"
    and "km_room s' = km_room s" and "km_used s' = km_used s" and "\<forall>a\<in>A. translate s' a = translate s a"
proof -
  define x where "x = s\<lparr>heap_objs := (heap_objs s)(h \<mapsto>
      \<lparr>current_mem_addr = HEAP_START, size_array = SIZES, list_array = replicate 11 0\<rparr>)\<rparr>"
  have inv: "vm_inv s" by (rule ipc_inv_vm [OF assms(1)])
  have pmm: "pmm_inv s" using inv by (simp add: vm_inv_def)
  have sp: "same_space x s" by (simp add: x_def same_space_def)
  note ag = vmm_agree [OF sp]
  have x: "vm_inv x" "pde x HEAP_START = 0" "2 \<le> card (free_pages x)" "fresh_memory x"
    using inv ag assms(4,5,6) memory_same [OF sp] by simp_all
  obtain hp p x1 x2 where m: "pmm_alloc_page x = Inr (hp, x1)"
    "map_page HEAP_START hp (PAGE_PRESENT OR PAGE_WRITE) x1 = Inr x2" "vm_inv x2" "{hp, p} \<subseteq> free_pages x" "hp \<noteq> p"
    "free_pages x2 = free_pages x - {hp, p}" "vm_frames x2 = insert p (vm_frames x)" "pde x2 HEAP_START \<noteq> 0"
    "\<And>vb. unat vb div 4096 = 0xD0000 \<Longrightarrow> translate x2 vb = Some (hp + of_nat (unat vb mod 4096))"
    "\<And>vb. dir_index vb < 1023 \<Longrightarrow> dir_index vb \<noteq> 832 \<Longrightarrow> translate x2 vb = translate x vb"
    "\<And>a. frame a \<notin> {0, bitmap x, p} \<union> vm_frames x \<Longrightarrow> pmem x2 a = pmem x a"
    "\<exists>c m f. x2 = x\<lparr>con := c, pmem := m, first_free_index := f\<rparr>"
    by (rule map_heap_page [OF x]) (rule that; assumption)
  obtain c q f where rec: "x2 = x\<lparr>con := c, pmem := q, first_free_index := f\<rparr>" using m(12) by blast
  define s' where "s' = printlnk ''n2'' x2"
  obtain c' where s': "s' = x2\<lparr>con := c'\<rparr>" by (simp add: s'_def print_defs)
  have sp': "same_space s' x2" by (simp add: s' same_space_def)
  note ag' = vmm_agree [OF sp']
  have ctor: "heap_ctor h s = Inr s'" using m(1,2) by (simp add: heap_ctor_def Let_def s'_def x_def)
  have tr: "\<forall>a\<in>A. translate s' a = translate s a" using m(10) assms(3) ag ag' by simp
  have fp: "free_pages s' = free_pages s - {hp, p}" "p \<in> free_pages s" using m(4,6) ag(5) ag'(5) by auto
  have vf: "vm_frames s' = insert p (vm_frames s)" "bitmap s' = bitmap s" using m(7) ag(3) ag'(3) by (auto simp: s' rec x_def)
  have area0: "data_area s A" and kA: "km_area \<subseteq> A" using assms(1) by (simp_all add: ipc_inv_def)
  have "plain_mem s' q" if "plain_mem s q" "frame q \<notin> free_pages s" for q
    using that fp(2) vf by (auto simp: plain_mem_def)
  then have area: "data_area s' A"
    using area0 m(3) ag'(6) tr assms(2) by (fastforce simp: data_area_def off_free_def inj_on_def)
  have mem: "pmem s' a = pmem s a" if "frame a \<notin> {0, bitmap s, p} \<union> vm_frames s" for a
    using m(11) [of a] that ag ag' by simp
  have kmem: "\<forall>a\<in>km_area. pmem s' a = pmem s a"
    using ipc_inv_pages [OF assms(1,2)] fp(2) by (intro ballI mem) auto
  have kt: "\<forall>a\<in>km_area. translate s' a = Some a" using tr kA ipc_inv_pages(1) [OF assms(1,2)] by auto
  have fields: "current_address s' = current_address s" "start_address s' = start_address s"
    "last_valid_address s' = last_valid_address s" "is_initialized s' = is_initialized s"
    "dom (tnodes s') = dom (tnodes s)" "dom (mnodes s') = dom (mnodes s)"
    by (simp_all add: s' rec x_def)
  note i = ipc_inv_space [OF assms(1) area kA kt kmem assms(7) fields]
  have off: "off_free s' A" using assms(2) tr fp(1) by (auto simp: off_free_def)
  have fresh: "fresh_memory s'"
  proof (rule fresh_memory_step [OF assms(6) pmm])
    fix a assume "frame a \<in> free_pages s'"
    then have "frame a \<in> free_pages s" "frame a \<noteq> p" using fp by auto
    then show "pmem s' a = pmem s a"
      using page_ne_bitmap [OF pmm, of "frame a"] inv by (intro mem) (auto simp: vm_inv_def)
  qed (use fp in auto)
  have "card (free_pages s) \<le> card (free_pages s') + 2"
    using diff_card_le_card_Diff [of "{hp, p}" "free_pages s"] fp(1) by (simp add: card_insert_if split: if_splits)
  moreover have "heap_step s s'" unfolding heap_step_def
    by (rule exI [of _ c'], rule exI [of _ q], rule exI [of _ f], rule exI [of _ "heap_objs x"]) (simp add: s' rec x_def)
  ultimately show ?thesis using ctor i off fresh tr by (intro that [of s'])
qed


subsection \<open>The first thread\<close>

lemma ipc_inv_same:
  assumes "same_space s' s" and "current_address s' = current_address s" and "start_address s' = start_address s"
    and "last_valid_address s' = last_valid_address s" and "is_initialized s' = is_initialized s"
    and "dom (tnodes s') \<subseteq> km_used s'" and "dom (mnodes s') \<subseteq> km_used s'"
  shows "ipc_inv s A \<Longrightarrow> ipc_inv s' A"
proof -
  note ag = vmm_agree [OF assms(1)]
  have "km_inv s' = km_inv s" using assms(2-5) ag(1) by (simp add: km_inv_def)
  then show "ipc_inv s A \<Longrightarrow> ipc_inv s' A" using assms(6,7) ag by (simp add: ipc_inv_def task_inv_def)
qed

lemma tasks_init_result:
  assumes "data_area s A" and "km_area \<subseteq> A" and "\<forall>a\<in>km_area. translate s a = Some a" and "off_free s A"
    and "\<forall>a\<in>A. dir_index a < 1023 \<and> dir_index a \<noteq> 832" and "fresh_memory s" and "9 \<le> card (free_pages s)"
    and "pde s HEAP_START = 0" and "\<not> is_initialized s" and "threads s = Map.empty" and "tnodes s = Map.empty" and "mnodes s = Map.empty"
    and "cr3 s = current_page_directory s" and "tid s = 0"
  obtains s' t0 where "tasks_init s = Inr s'" and "sched_rep s' t0 []" and "t_id (the (threads s' t0)) = 0"
    and "ipc_inv s' A" and "off_free s' A" and "7 \<le> card (free_pages s')" and "fresh_memory s'"
    and "kernel_page_directory s' = kernel_page_directory s" and "km_room s' = 0x00100000 - 168" and "dom (threads s') \<subseteq> km_used s'"
    and "cr3 s' = t_page_directory (the (threads s' t0))" and "mnodes s' = mnodes s" and "msgs s' = msgs s" and "tid s' = 1"
    and "\<forall>a\<in>A. translate s' a = translate s a" and "task_step s s'"
proof -
  define e where "e = init_kernel_malloc s"
  note up = heap_up [OF assms(1-4,6,11,12), folded e_def]
  obtain q where e: "e = s\<lparr>pmem := q, is_initialized := True, start_address := 0x00200000,
      last_valid_address := 0x00300000, current_address := 0x00200000\<rparr>"
    unfolding e_def by (rule init_kernel_malloc_fields [of s]) blast
  have r0: "unat (40 :: u32) + 16 \<le> km_room e" by (simp add: up(4))
  define p0 where "p0 = current_address e + 8"
  define s1 where "s1 = e\<lparr>pmem := taken_mem (pmem e) (current_address e) 40, current_address := current_address e + 8 + 40\<rparr>"
  note a1 = ipc_alloc [OF up(1) r0, folded p0_def s1_def] and k1 = object_keeps [OF up(1-3) r0, folded s1_def]
  have m1: "kernel_malloc sizeof_thread s = Inr (p0, s1)"
    using a1(1) kernel_malloc_first [OF assms(9)] by (simp add: sizeof_thread_def e_def)
  define th where "th = (raw_thread (pmem s1) p0)\<lparr>t_id := tid s1, t_stack := 0\<rparr>"
  define s2 where "s2 = (put_thread p0 th s1)\<lparr>tid := tid s1 + 1\<rparr>"
  have sp2: "same_space s2 s1" by (simp add: s2_def put_thread_def same_space_def)
  note ag2 = vmm_agree [OF sp2]
  have i2: "ipc_inv s2 A" using a1(2) by (simp add: s2_def)
  have r2: "unat (92 :: u32) + 16 \<le> km_room s2" using a1(10) up(4) by (simp add: s2_def)
  have k2: "off_free s2 A" "fresh_memory s2" using memory_same [OF sp2] k1(1,2) by simp_all
  define h where "h = current_address s2 + 8"
  define s3 where "s3 = s2\<lparr>pmem := taken_mem (pmem s2) (current_address s2) 92, current_address := current_address s2 + 8 + 92\<rparr>"
  note a3 = ipc_alloc [OF i2 r2, folded h_def s3_def] and k3 = object_keeps [OF i2 k2 r2, folded s3_def]
  have r3: "km_room s3 = 0x00100000 - 148" using a1(10) a3(10) up(4) by (simp add: s2_def)
  have c3: "pde s3 HEAP_START = 0" "2 \<le> card (free_pages s3)" "8 \<le> km_room s3" "free_pages s3 = free_pages s"
    using k3 k1 ag2 up assms(7,8) r3 by simp_all
  obtain s4 where s4: "heap_ctor h s3 = Inr s4" "ipc_inv s4 A" "off_free s4 A" "fresh_memory s4"
    "card (free_pages s3) \<le> card (free_pages s4) + 2" "heap_step s3 s4" "km_room s4 = km_room s3" "km_used s4 = km_used s3"
    "\<forall>a\<in>A. translate s4 a = translate s3 a"
    by (rule ctor_step [OF a3(2) k3(1) assms(5) c3(1,2) k3(2) c3(3)])
  obtain c4 q4 f4 o4 where s4': "s4 = s3\<lparr>con := c4, pmem := q4, first_free_index := f4, heap_objs := o4\<rparr>"
    using s4(6) by (auto simp: heap_step_def)
  define s5 where "s5 = s4\<lparr>currentHeap := h\<rparr>"
  have th5: "thread_at p0 s5 = Inr th" using a1(3) by (simp add: thread_at_def deref_def s5_def s4' s3_def s2_def put_thread_def)
  define s6 where "s6 = put_thread p0 (th\<lparr>t_heap := h, t_page_directory := current_page_directory s5\<rparr>) s5"
  have sp6: "same_space s6 s4" by (simp add: s6_def s5_def put_thread_def same_space_def)
  have u6: "km_used s6 = km_used s4" "km_room s6 = km_room s4" by (simp_all add: s6_def s5_def put_thread_def km_used_def km_room_def)
  have i6: "ipc_inv s6 A"
    by (rule ipc_inv_same [OF sp6 _ _ _ _ _ _ s4(2)])
      (use s4(2) u6 in \<open>auto simp: ipc_inv_def task_inv_def s6_def s5_def put_thread_def\<close>)
  have r6: "unat (12 :: u32) + 16 \<le> km_room s6" using u6 s4(7) r3 by simp
  have k6: "off_free s6 A" "fresh_memory s6" using memory_same [OF sp6] s4(3,4) by simp_all
  define cur where "cur = current_address s6 + 8"
  define s7 where "s7 = s6\<lparr>pmem := taken_mem (pmem s6) (current_address s6) 12, current_address := current_address s6 + 8 + 12\<rparr>"
  note a7 = ipc_alloc [OF i6 r6, folded cur_def s7_def] and k7 = object_keeps [OF i6 k6 r6, folded s7_def]
  define n where "n = \<lparr>tl_thread = p0, tl_next = 0, tl_remove = False\<rparr>"
  define s8 where "s8 = printlnk ''init--'' ((put_tnode cur n (s7\<lparr>current_thread := cur\<rparr>))\<lparr>ready_queue := 0\<rparr>)"
  obtain c8 where s8: "s8 = (put_tnode cur n (s7\<lparr>current_thread := cur\<rparr>))\<lparr>ready_queue := 0, con := c8\<rparr>"
    by (simp add: s8_def print_defs)
  have fold: "(put_thread p0 th s1)\<lparr>tid := tid (put_thread p0 th s1) + 1\<rparr> = s2" "s4\<lparr>currentHeap := h\<rparr> = s5"
    "put_thread p0 (th\<lparr>t_heap := h, t_page_directory := current_page_directory s4\<rparr>) s5 = s6"
    "printlnk ''init--'' ((put_tnode cur n (s7\<lparr>current_thread := cur\<rparr>))\<lparr>ready_queue := 0\<rparr>) = s8"
    by (simp_all add: s2_def s5_def s6_def s8_def put_thread_def)
  have run: "tasks_init s = Inr s8"
    using m1 a1(3) a3(1) s4(1) th5 a7(1,3)
    by (simp add: tasks_init_def init_thread_def init_tnode_def Let_def th_def [symmetric] sizeof_Heap_def sizeof_thread_list_def
        n_def [symmetric] fold)
  have sp8: "same_space s8 s7" by (simp add: s8 put_tnode_def same_space_def)
  have u8: "km_used s8 = km_used s7" "km_room s8 = km_room s7" by (simp_all add: s8 put_tnode_def km_used_def km_room_def)
  have f1: "tid s1 = 0" "threads s1 = Map.empty" "tnodes s1 = Map.empty" "mnodes s1 = mnodes s" "msgs s1 = msgs s"
    "current_page_directory s1 = current_page_directory s" "cr3 s1 = cr3 s" "kernel_page_directory s1 = kernel_page_directory s"
    using assms(10,11,14) by (simp_all add: s1_def e)
  have t8: "threads s8 = [p0 \<mapsto> th\<lparr>t_heap := h, t_page_directory := current_page_directory s\<rparr>]"
    and n8: "tnodes s8 = [cur \<mapsto> n]"
    by (simp_all add: s8 put_tnode_def s7_def s6_def s5_def s4' s3_def s2_def put_thread_def f1)
  have f8: "mnodes s8 = mnodes s" "msgs s8 = msgs s" "cr3 s8 = cr3 s" "kernel_page_directory s8 = kernel_page_directory s"
    "tid s8 = 1" "ready_queue s8 = 0" "current_thread s8 = cur"
    by (simp_all add: s8 put_tnode_def s7_def s6_def s5_def s4' s3_def s2_def put_thread_def f1)
  have mono: "km_used s1 \<subseteq> km_used s8" using a3(5) a7(5) u6 u8 s4(8) by (simp add: s2_def put_thread_def km_used_def)
  have p0: "p0 \<noteq> 0" "p0 \<in> km_used s8" and cur: "cur \<noteq> 0" "cur \<in> km_used s8"
    using a1(3,11) a7(3,11) mono u8 by auto
  have i8: "ipc_inv s8 A"
    by (rule ipc_inv_same [OF sp8 _ _ _ _ _ _ a7(2)])
      (use a7(2) u8 cur n8 in \<open>auto simp: ipc_inv_def s8 put_tnode_def\<close>)
  have rep: "sched_rep s8 p0 []"
    unfolding sched_rep_def using p0 cur by (simp add: described_def t8 n8 f8 n_def)
  have tr: "\<forall>a\<in>A. translate s8 a = translate s a"
    using vmm_agree(2) [OF sp8] k7(4) vmm_agree(2) [OF sp6] s4(9) k3(4) ag2(2) k1(4) up(5) by simp
  have fr8: "off_free s8 A" "fresh_memory s8" "7 \<le> card (free_pages s8)"
    using memory_same [OF sp8] k7(1-3) vmm_agree(5) [OF sp8] vmm_agree(5) [OF sp6] s4(5) c3(4) assms(7) by simp_all
  have room8: "km_room s8 = 0x00100000 - 168" using u8 a7(10) u6 s4(7) r3 by simp
  have step: "task_step s s8"
  proof -
    have "task_step s e" unfolding e by (simp add: task_step_def put_tasks_def)
    moreover have "task_step e s1" unfolding s1_def by (rule task_stepI(4))
    moreover have "task_step s1 s2" unfolding s2_def by (rule task_step_trans [OF task_stepI(3,2)])
    moreover have "task_step s2 s3" unfolding s3_def by (rule task_stepI(4))
    moreover have "task_step s4 s6" unfolding s6_def s5_def by (rule task_step_trans [OF task_stepI(5,3)])
    moreover have "task_step s6 s7" unfolding s7_def by (rule task_stepI(4))
    moreover have "task_step s7 s8" unfolding s8 by (simp add: task_step_def put_tasks_def put_tnode_def)
    ultimately show ?thesis using heap_step_task [OF s4(6)] by (meson task_step_trans)
  qed
  show ?thesis
    by (rule that [OF run rep _ i8 fr8(1,3,2) f8(4) room8 _ _ f8(1,2,5) tr step])
      (use p0 assms(13) in \<open>simp_all add: t8 th_def f1 f8\<close>)
qed


subsection \<open>From the boot loader to the loop\<close>

text \<open>What \<^verbatim>\<open>kmain\<close> finds: paging off, no object made yet, a place for the process object below 3 MB and outside the
  kernel heap, and the pages that the page allocator will hand out start with a zero word.\<close>

definition power_on :: "'a kernel_scheme \<Rightarrow> bool" where
  "power_on s \<longleftrightarrow> magic s = 0x2BADB002 \<and> \<not> paging s \<and> \<not> pmm_paging_active s \<and> kernel_page_directory s = 0
     \<and> \<not> is_initialized s \<and> threads s = Map.empty \<and> tnodes s = Map.empty \<and> mnodes s = Map.empty \<and> msgs s = 0
     \<and> cell (addr_pg1 s + 4) \<subseteq> low_mem - km_area
     \<and> (\<forall>p. frame p = p \<and> 0x00305000 \<le> unat p \<longrightarrow> load32 (pmem s) p = 0)"

definition same_memory :: "'a kernel_scheme \<Rightarrow> 'a kernel_scheme \<Rightarrow> bool" where
  "same_memory s s' \<longleftrightarrow> pmem s' = pmem s \<and> cr0 s' = cr0 s \<and> pmm_paging_active s' = pmm_paging_active s
     \<and> kernel_page_directory s' = kernel_page_directory s \<and> is_initialized s' = is_initialized s \<and> threads s' = threads s
     \<and> tnodes s' = tnodes s \<and> mnodes s' = mnodes s \<and> msgs s' = msgs s \<and> magic s' = magic s \<and> addr_pg1 s' = addr_pg1 s
     \<and> addr_ms s' = addr_ms s \<and> addr_thread_start s' = addr_thread_start s \<and> addr_thread_exit s' = addr_thread_exit s"

lemma same_memory_trans: "same_memory s s1 \<Longrightarrow> same_memory s1 s2 \<Longrightarrow> same_memory s s2"
  by (simp add: same_memory_def)

lemma same_memory_setup:
  "same_memory s (clear_screen s)" "same_memory s (remap i j s)" "same_memory s (idt_load s)"
  "same_memory s (keyboard_setup s)" "same_memory s (printlnk x s)" "same_memory s (sti s)"
  by (simp_all add: same_memory_def clear_screen_def remap_def port_defs idt_load_def keyboard_setup_def setupKeyMap_def
      print_defs sti_def Let_def)

lemma same_memory_handlers: "same_memory s (setupHandlers s)"
proof -
  have sh: "same_memory s s' \<Longrightarrow> same_memory s (setHandler i a r s')" for i a r s'
    by (simp add: same_memory_def setHandler_def Let_def)
  have sa: "same_memory s s' \<Longrightarrow> same_memory s (set_a_Handler i f s')" for i f s'
    by (simp add: same_memory_def set_a_Handler_def)
  have loop: "same_memory s (for_upt a b (\<lambda>i s. setHandler i (f s i) 0 s) s')" if "same_memory s s'" for a b f s'
  proof (cases "a \<le> b")
    case True
    show ?thesis by (rule for_upt_rule [where P = "\<lambda>_ s'. same_memory s s'"]) (use True that sh in auto)
  next
    case False
    then show ?thesis using that by (simp add: for_upt_def)
  qed
  have clr: "same_memory s (for_upt 0 256 (\<lambda>i s. s\<lparr>a_Handlers := (a_Handlers s)(i := None)\<rparr>) s)"
    by (rule for_upt_rule [where P = "\<lambda>_ s'. same_memory s s'"]) (simp_all add: same_memory_def)
  have tm: "same_memory s s' \<Longrightarrow> same_memory s (init_timer x s')" for x s'
    by (simp add: same_memory_def init_timer_def port_defs Let_def)
  show ?thesis
    unfolding setupHandlers_def Let_def
    by (intro tm sh sa loop clr) 
qed


lemma vm_up:
  assumes "pre_paging s" and "bitmap s = 0x00301000" and "\<forall>p. frame p = p \<and> 0x00305000 \<le> unat p \<longrightarrow> load32 (pmem s) p = 0"
  obtains s' where "init_vmm s = Inr s'" and "data_area s' low_mem" and "\<forall>a\<in>low_mem. translate s' a = Some a"
    and "off_free s' low_mem" and "fresh_memory s'" and "9 \<le> card (free_pages s')" and "pde s' HEAP_START = 0"
    and "cr3 s' = current_page_directory s'" and "kernel_page_directory s' \<noteq> 0"
    and "\<exists>c m i l k. s' = s\<lparr>con := c, pmem := m, pmm_location := l, kernel_page_directory := k, current_page_directory := k,
      cr3 := k, cr0 := i, first_free_index := 4, last_available_index := PAGES, pmm_paging_active := True\<rparr>"
proof -
  obtain c m where v: "init_vmm s = Inr (s\<lparr>con := c, pmem := m, pmm_location := bitmap s + 0x3000,
      kernel_page_directory := bitmap s + 0x1000, current_page_directory := bitmap s + 0x1000,
      cr3 := bitmap s + 0x1000, cr0 := cr0 s OR 0x80000000, first_free_index := 4,
      last_available_index := PAGES, pmm_paging_active := True\<rparr>)"
    "fresh_dir m (bitmap s + 0x1000) (bitmap s + 0x2000) (bitmap s + 0x3000)"
    using init_vmm_steps [OF assms(1)] by blast
  define s' where "s' = s\<lparr>con := c, pmem := m, pmm_location := bitmap s + 0x3000,
      kernel_page_directory := bitmap s + 0x1000, current_page_directory := bitmap s + 0x1000,
      cr3 := bitmap s + 0x1000, cr0 := cr0 s OR 0x80000000, first_free_index := 4,
      last_available_index := PAGES, pmm_paging_active := True\<rparr>"
  have run: "init_vmm s = Inr s'" using v(1) by (simp add: s'_def)
  have fr: "fresh_dir (pmem s') 0x00302000 0x00303000 0x00304000" using v(2) by (simp add: s'_def assms(2))
  have sp: "vm_inv s'" "free_set s' = {4..<PAGES}"
    "\<forall>va. dir_index va < 1022 \<longrightarrow> translate s' va = (if unat va < 0x400000 then Some va else None)"
    "\<forall>a. unat a < 0x00301000 \<or> 0x00305000 \<le> unat a \<longrightarrow> pmem s' a = pmem s a"
    using init_vmm_space [OF assms(1)] run assms(2) by auto
  have ad: "active_dir s' = 0x00302000" using assms(2) by (simp add: s'_def active_dir_def frame_fix)
  have vf: "vm_frames s' = {0x00302000, 0x00303000, 0x00304000}"
    using fresh_dir_wf(2) [OF fr] ad by (simp add: vm_frames_def)
  have bm: "bitmap s' = 0x00301000" by (simp add: s'_def assms(2))
  have low: "unat (frame a) < 0x00300000" if "a \<in> low_mem" for a using that by (simp add: low_mem_def unat_frame)
  have tr: "translate s' a = Some a" if "a \<in> low_mem" for a
    using that sp(3) dir_index_low [of a] by (simp add: low_mem_def)
  have pl: "plain_mem s' a" if "a \<in> low_mem" for a
    using low [OF that] by (auto simp: plain_mem_def vf bm)
  have pmm: "pmm_inv s'" using sp(1) by (simp add: vm_inv_def)
  have hi: "frame p = p \<and> 0x00305000 \<le> unat p" if pf: "p \<in> free_pages s'" for p
  proof -
    obtain i where "i \<in> free_set s'" "unat p = unat (bitmap s') + 4096 * i"
      by (rule free_pages_range [OF pmm pf]) blast
    then show ?thesis using page_ne_bitmap(3) [OF pmm pf] by (simp add: sp(2) bm)
  qed
  show ?thesis
  proof (rule that [OF run])
    show "data_area s' low_mem" using sp(1) tr pl by (auto simp: data_area_def inj_on_def)
    show "\<forall>a\<in>low_mem. translate s' a = Some a" using tr by simp
    show "off_free s' low_mem"
      unfolding off_free_def
    proof
      fix a assume a: "a \<in> low_mem"
      then have "frame a \<notin> free_pages s'" using low [OF a] hi [of "frame a"] by auto
      then show "frame (the (translate s' a)) \<notin> free_pages s'" using tr [OF a] by simp
    qed
    show "fresh_memory s'"
      unfolding fresh_memory_def
    proof
      fix p assume p: "p \<in> free_pages s'"
      have "entry (pmem s') p 0 = entry (pmem s) p 0"
      proof (rule entry_cong)
        fix a assume "frame a = p"
        then have "unat p \<le> unat a" by (auto simp: unat_frame)
        then show "pmem s' a = pmem s a" using hi [OF p] sp(4) by simp
      qed (use hi [OF p] in simp_all)
      then show "entry (pmem s') p 0 = 0" using assms(3) hi [OF p] by (simp add: entry_def)
    qed
    have "inj_on (page_of s') {4..<PAGES}" by (rule inj_on_subset [OF page_of_inj_on [OF pmm]]) auto
    then have "card (free_pages s') = card {4..<PAGES}"
      unfolding free_pages_def sp(2) by (rule card_image)
    then show "9 \<le> card (free_pages s')" by (simp add: PAGES_def)
    have "dir_index HEAP_START = 832" by (simp add: HEAP_START_def dir_index_def)
    then show "pde s' HEAP_START = 0" using fr by (simp add: pde_def ad fresh_dir_def)
    show "cr3 s' = current_page_directory s'" "kernel_page_directory s' \<noteq> 0" by (simp_all add: s'_def assms(2))
    show "\<exists>c m i l k. s' = s\<lparr>con := c, pmem := m, pmm_location := l, kernel_page_directory := k, current_page_directory := k,
      cr3 := k, cr0 := i, first_free_index := 4, last_available_index := PAGES, pmm_paging_active := True\<rparr>"
      unfolding s'_def by blast
  qed
qed

lemma low_mem_index: "\<forall>a\<in>low_mem. dir_index a = 0"
  by (auto simp: low_mem_def dir_index_low)

text \<open>The constructor of the process object writes outside the kernel heap and the free pages.\<close>

lemma program1_ctor_result:
  fixes s :: "'a ipc_scheme"
  assumes "ipc_inv s A" and "off_free s A" and "fresh_memory s" and "8 \<le> km_room s" and "cell (p + 4) \<subseteq> A - km_area"
  obtains c m where "program1_ctor p s = Inr (s\<lparr>con := c, pmem := m\<rparr>)" and "ipc_inv (s\<lparr>con := c, pmem := m\<rparr>) A"
    and "off_free (s\<lparr>con := c, pmem := m\<rparr>) A" and "fresh_memory (s\<lparr>con := c, pmem := m\<rparr>)"
    and "free_pages (s\<lparr>con := c, pmem := m\<rparr>) = free_pages s"
proof -
  have area: "data_area s A" and km: "km_inv s" and kA: "km_area \<subseteq> A" and pmm: "pmm_inv s"
    using assms(1) by (simp_all add: ipc_inv_def task_inv_def data_area_def vm_inv_def)
  obtain s' where s': "program1_ctor p s = Inr s'" "wrote s A (store32 (vview s) (p + 4) 0) s'"
    using vwrite32_area [OF area, of "p + 4" 0] assms(5) by (auto simp: program1_ctor_def)
  obtain c m where cm: "s' = s\<lparr>con := c, pmem := m\<rparr>" using s'(2) by (auto simp: wrote_def)
  have keep: "store32 (vview s) (p + 4) 0 a = vview s a" if "a \<in> km_area" for a
    using that assms(5) by (auto simp: store32_def cell_def)
  have inv: "ipc_inv s' A"
    by (rule ipc_inv_wrote [OF assms(1) s'(2) assms(4)]) (use keep hdr_current(1) [OF km assms(4)] in blast)
  note d = wroteD [OF s'(2)]
  have "pmem s' a = pmem s a" if "frame a \<in> free_pages s" for a
  proof -
    have "\<forall>b\<in>A. translate s b \<noteq> Some a" using that assms(2) by (auto simp: off_free_def)
    then show ?thesis using s'(2) by (simp add: wrote_def)
  qed
  then have "fresh_memory s'" by (intro fresh_memory_step [OF assms(3) pmm]) (use d in auto)
  moreover have "off_free s' A" using assms(2) d by (simp add: off_free_def)
  ultimately show ?thesis using s'(1) inv d(5) unfolding cm by (intro that [of m c])
qed

lemma kmain_start_result:
  assumes "power_on s"
  obtains s' t0 t1 pd where "kmain_start s = Inr (True, s')" and "sched_rep s' t0 [t1]" and "ipc_inv s' low_mem"
    and "thread_ident s' t0 = 0" and "thread_ident s' t1 = 1" and "tid s' = 2" and "msg_rep s' [] []" and "iflag s'"
    and "km_room s' = 0x00100000 - 336" and "addr_ms s' = addr_ms s"
    and "t_page_directory (the (threads s' t1)) = pd" and "vm_frames (s'\<lparr>cr3 := pd\<rparr>) \<inter> vm_frames s' = {}"
    and "start_frame (vview (s'\<lparr>cr3 := pd\<rparr>)) (HEAP_START + 1004) = [addr_thread_start s, addr_thread_exit s, addr_pg1 s]"
    and "t_esp (the (threads s' t1)) = HEAP_START + 1004"
proof -
  define s1 where "s1 = keyboard_setup (idt_load (setupHandlers (remap 0x20 0x28 (clear_screen s))))"
  have sm1: "same_memory s s1"
    unfolding s1_def
    by (rule same_memory_trans [OF same_memory_trans [OF same_memory_trans [OF same_memory_trans
        [OF same_memory_setup(1,2)] same_memory_handlers] same_memory_setup(3)] same_memory_setup(4)])
  have on: "magic s = 0x2BADB002" "\<not> paging s" "\<not> pmm_paging_active s" "kernel_page_directory s = 0" "\<not> is_initialized s"
    "threads s = Map.empty" "tnodes s = Map.empty" "mnodes s = Map.empty" "msgs s = 0"
    "\<forall>p. frame p = p \<and> 0x00305000 \<le> unat p \<longrightarrow> load32 (pmem s) p = 0" "cell (addr_pg1 s + 4) \<subseteq> low_mem - km_area"
    using assms by (simp_all add: power_on_def)
  have np1: "\<not> paging s1" using sm1 on(2) by (simp add: same_memory_def paging_def)
  obtain a b where ab: "vload32 0 s1 = Inr a" "vload32 0x00100000 s1 = Inr b" using vload32_off [OF np1] by blast
  define s2 where "s2 = printlnk (if a = b then ''L20 off'' else ''L20 on'') s1"
  define s3 where "s3 = init_pmm 0x00300000 s2"
  have sm2: "same_memory s s2" unfolding s2_def by (rule same_memory_trans [OF sm1 same_memory_setup(5)])
  have f3: "pmem s3 = pmem s" "bitmap s3 = 0x00301000" "pmm_location s3 = 0x00301000" "cr0 s3 = cr0 s"
    "pmm_paging_active s3 = pmm_paging_active s" "kernel_page_directory s3 = 0" "is_initialized s3 = is_initialized s"
    "threads s3 = Map.empty" "tnodes s3 = Map.empty" "mnodes s3 = Map.empty" "msgs s3 = 0" "addr_pg1 s3 = addr_pg1 s"
    "addr_ms s3 = addr_ms s" "addr_thread_start s3 = addr_thread_start s" "addr_thread_exit s3 = addr_thread_exit s"
    using sm2 on by (simp_all add: same_memory_def s3_def init_pmm_def PAGE_MASK_def)
  have "pre_paging s3" using f3 on(2,3) by (simp add: pre_paging_def paging_def frame_fix)
  moreover have "\<forall>p. frame p = p \<and> 0x00305000 \<le> unat p \<longrightarrow> load32 (pmem s3) p = 0" using on(10) f3(1) by simp
  ultimately obtain s4 where s4: "init_vmm s3 = Inr s4" "data_area s4 low_mem" "\<forall>a\<in>low_mem. translate s4 a = Some a"
    "off_free s4 low_mem" "fresh_memory s4" "9 \<le> card (free_pages s4)" "pde s4 HEAP_START = 0"
    "cr3 s4 = current_page_directory s4" "kernel_page_directory s4 \<noteq> 0"
    "\<exists>c m i l k. s4 = s3\<lparr>con := c, pmem := m, pmm_location := l, kernel_page_directory := k, current_page_directory := k,
      cr3 := k, cr0 := i, first_free_index := 4, last_available_index := PAGES, pmm_paging_active := True\<rparr>"
    using vm_up [of s3] f3(2) by blast
  define s5 where "s5 = task_manager_ctor (printlnk ''main alloc end'' (printlnk ''heap'' s4))"
  obtain c5 where s5: "s5 = s4\<lparr>con := c5, ready_queue := 0, tid := 0\<rparr>" by (simp add: s5_def task_manager_ctor_def print_defs)
  have sp5: "same_space s5 s4" by (simp add: s5 same_space_def)
  note ag5 = vmm_agree [OF sp5]
  have f5: "is_initialized s5 = is_initialized s" "threads s5 = Map.empty" "tnodes s5 = Map.empty" "mnodes s5 = Map.empty"
    "msgs s5 = 0" "addr_pg1 s5 = addr_pg1 s" "addr_ms s5 = addr_ms s" "addr_thread_start s5 = addr_thread_start s"
    "addr_thread_exit s5 = addr_thread_exit s" "tid s5 = 0" "cr3 s5 = current_page_directory s5" "kernel_page_directory s5 \<noteq> 0"
    using s4(8-10) f3 by (auto simp: s5)
  have d5: "data_area s5 low_mem" "km_area \<subseteq> low_mem" "\<forall>a\<in>km_area. translate s5 a = Some a" "off_free s5 low_mem"
    "\<forall>a\<in>low_mem. dir_index a < 1023 \<and> dir_index a \<noteq> 832" "fresh_memory s5" "9 \<le> card (free_pages s5)" "pde s5 HEAP_START = 0"
    using s4(2-7) ag5 memory_same [OF sp5] low_mem_index by (auto simp: low_mem_def km_area_def)
  obtain s6 t0 where s6: "tasks_init s5 = Inr s6" "sched_rep s6 t0 []" "t_id (the (threads s6 t0)) = 0"
    "ipc_inv s6 low_mem" "off_free s6 low_mem" "7 \<le> card (free_pages s6)" "fresh_memory s6"
    "kernel_page_directory s6 = kernel_page_directory s5" "km_room s6 = 0x00100000 - 168" "dom (threads s6) \<subseteq> km_used s6"
    "cr3 s6 = t_page_directory (the (threads s6 t0))" "mnodes s6 = mnodes s5" "msgs s6 = msgs s5" "tid s6 = 1"
    "\<forall>a\<in>low_mem. translate s6 a = translate s5 a" "task_step s5 s6"
    by (rule tasks_init_result [OF d5 _ f5(2,3,4,11,10)]) (use f5(1) on(5) in \<open>simp_all\<close>)
  define s7a where "s7a = sti s6"
  have s7a: "s7a = s6\<lparr>iflag := True\<rparr>" by (simp add: s7a_def sti_def)
  have sp7a: "same_space s7a s6" by (simp add: s7a same_space_def)
  have u7a: "km_used s7a = km_used s6" "km_room s7a = km_room s6" by (simp_all add: s7a km_used_def km_room_def)
  have i7a: "ipc_inv s7a low_mem"
    by (rule ipc_inv_same [OF sp7a _ _ _ _ _ _ s6(4)]) (use s6(4) u7a in \<open>auto simp: ipc_inv_def task_inv_def s7a\<close>)
  have e6: "s6 = put_tasks s6 s5" using s6(16) by (simp add: task_step_def)
  have a6: "addr_ms s6 = addr_ms s" "addr_pg1 s6 = addr_pg1 s"
    by (subst e6, simp add: put_tasks_def f5)+
  have k7a: "off_free s7a low_mem" "fresh_memory s7a" "8 \<le> km_room s7a" "cell (addr_pg1 s + 4) \<subseteq> low_mem - km_area"
    using memory_same [OF sp7a] s6(5,7,9) u7a(2) on(11) by simp_all
  obtain c7 m7 where ctor: "program1_ctor (addr_pg1 s) s7a = Inr (s7a\<lparr>con := c7, pmem := m7\<rparr>)"
    "ipc_inv (s7a\<lparr>con := c7, pmem := m7\<rparr>) low_mem" "off_free (s7a\<lparr>con := c7, pmem := m7\<rparr>) low_mem"
    "fresh_memory (s7a\<lparr>con := c7, pmem := m7\<rparr>)" "free_pages (s7a\<lparr>con := c7, pmem := m7\<rparr>) = free_pages s7a"
    by (rule program1_ctor_result [OF i7a k7a]) (rule that; assumption)
  define s7 where "s7 = s7a\<lparr>con := c7, pmem := m7\<rparr>"
  have s7: "s7 = s6\<lparr>con := c7, pmem := m7, iflag := True\<rparr>" by (simp add: s7_def s7a)
  have u7: "km_used s7 = km_used s6" "km_room s7 = km_room s6" by (simp_all add: s7 km_used_def km_room_def)
  have i7: "ipc_inv s7 low_mem" and k7: "off_free s7 low_mem" "7 \<le> card (free_pages s7)" "fresh_memory s7"
    using ctor(2-5) vmm_agree(5) [OF sp7a] s6(6) by (simp_all add: s7_def)
  have rep7: "sched_rep s7 t0 []" by (rule sched_rep_work [OF _ s6(2)]) (simp add: thread_work_def s7)
  have idx: "\<forall>a\<in>low_mem. dir_index a < 1023 \<and> dir_index a \<noteq> 490" using low_mem_index by simp
  have f7: "kernel_page_directory s7 \<noteq> 0" "200 \<le> km_room s7" "dom (threads s7) \<subseteq> km_used s7"
    "cr3 s7 = t_page_directory (the (threads s7 t0))"
    using s6(8-11) f5(12) u7 by (simp_all add: s7)
  have keep7: "iflag s7" "addr_ms s7 = addr_ms s" "addr_pg1 s7 = addr_pg1 s" "addr_thread_start s7 = addr_thread_start s"
    "addr_thread_exit s7 = addr_thread_exit s"
    using f5 a6 task_step_fields(5,6) [OF s6(16)] by (simp_all add: s7)
  obtain s8 t1 pd h where s8: "createProcess (addr_pg1 s7) s7 = Inr (0, s8)" "sched_rep s8 t0 ([] @ [t1])" "ipc_inv s8 low_mem"
    "\<forall>a\<in>low_mem. translate s8 a = translate s7 a" "t1 \<notin> dom (threads s7)"
    "threads s8 = (threads s7)(t1 \<mapsto> new_thread (HEAP_START + 8) pd h (tid s7))" "tid s8 = tid s7 + 1"
    "cr3 s8 = cr3 s7" "currentHeap s8 = t_heap (the (threads s7 t0))"
    "start_frame (vview (s8\<lparr>cr3 := pd\<rparr>)) (HEAP_START + 1004) = [addr_thread_start s7, addr_thread_exit s7, addr_pg1 s7]"
    "vm_inv (s8\<lparr>cr3 := pd\<rparr>)" "vm_frames (s8\<lparr>cr3 := pd\<rparr>) \<inter> vm_frames s8 = {}"
    "ipc_inv (s8\<lparr>cr3 := pd\<rparr>) process_area" "mnodes s8 = mnodes s7" "msgs s8 = msgs s7" "km_room s8 + 168 = km_room s7" "task_step s7 s8"
    by (rule createProcess_sched [OF rep7 i7 k7(1) idx k7(2,3) f7]) (rule that; assumption)
  have run: "kmain_start s = Inr (True, s8)"
  proof -
    have a7: "addr_pg1 s7a = addr_pg1 s" "addr_pg1 s7 = addr_pg1 s" by (simp_all add: s7a s7 a6)
    have "magic (clear_screen s) = 0x2BADB002" using on(1) by (simp add: clear_screen_def)
    then show ?thesis
      using ab s4(1) s6(1) s8(1) ctor(1) a7
      by (simp add: kmain_start_def Let_def s1_def [symmetric] s2_def [symmetric] s3_def [symmetric] s5_def [symmetric]
          s7a_def [symmetric] s7_def [symmetric])
  qed
  have t1: "threads s8 t1 = Some (new_thread (HEAP_START + 8) pd h 1)" using s8(6) s6(14) by (simp add: s7)
  have "t0 \<in> dom (threads s7)" using rep7 by (simp add: sched_rep_def described_def)
  then have t0: "threads s8 t0 = threads s7 t0" using s8(5,6) by auto
  have ids: "thread_ident s8 t0 = 0" "thread_ident s8 t1 = 1" "tid s8 = 2"
    using t0 t1 s6(3,14) s8(7) by (simp_all add: s7 new_thread_def blank_thread_def)
  have q: "msg_rep s8 [] []"
    using s8(14,15) s6(12,13) f5(4,5) by (simp add: msg_rep_def mq.members_def mq_links_def s7)
  have keep8: "iflag s8" "addr_ms s8 = addr_ms s"
  proof -
    have e: "s8 = put_tasks s8 s7" using s8(17) by (simp add: task_step_def)
    have "addr_ms s8 = addr_ms s7" by (subst e) (simp add: put_tasks_def)
    then show "iflag s8" "addr_ms s8 = addr_ms s" using task_step_fields(1) [OF s8(17)] keep7 by simp_all
  qed
  show ?thesis
    by (rule that [OF run _ s8(3) ids q keep8(1) _ keep8(2) _ s8(12)])
      (use s8(2,10,16) s6(9) u7(2) keep7 t1 in \<open>simp_all add: new_thread_def blank_thread_def\<close>)
qed


text \<open>The first process exists for the sender of the main loop.\<close>

lemma isRunning_two:
  assumes "sched_rep s t0 [t1]" and "thread_ident s t1 = 1"
  shows "isRunning 1 s = Inr True"
proof -
  have "queue_rep s [t1]" "is_current s t0" "\<forall>t\<in>set [t0, t1]. described s t"
    using assms(1) by (auto simp: sched_rep_def queue_rep_def is_current_def)
  then show ?thesis using isRunning_spec [of s "[t1]" t0 1] assms(2) by auto
qed

subsection \<open>Properties\<close>

text \<open>C2: The kernel comes up. Started by the boot loader with paging off and fresh memory, kmain reaches its
  loop with interrupts on, the code that started it running as thread 0 and one thread, number 1, waiting; the
  message queue is empty, the kernel heap is in order and 336 bytes of it are in use. The waiting thread has an address
  space that shares no table with the kernel's, in which its stack holds thread_start, thread_exit and Program1,
  and the first timer interrupt starts it there.\<close>

theorem kmain_boots:
  assumes "power_on s"
  shows "\<exists>s' t0 t1 pd. kmain_start s = Inr (True, s') \<and> sched_rep s' t0 [t1] \<and> thread_ident s' t0 = 0
    \<and> thread_ident s' t1 = 1 \<and> tid s' = 2 \<and> iflag s' \<and> ipc_inv s' low_mem \<and> msg_rep s' [] []
    \<and> km_room s' + 336 = 0x00100000 \<and> vm_frames (s'\<lparr>cr3 := pd\<rparr>) \<inter> vm_frames s' = {}
    \<and> start_frame (vview (s'\<lparr>cr3 := pd\<rparr>)) (HEAP_START + 1004) = [addr_thread_start s, addr_thread_exit s, addr_pg1 s]
    \<and> (\<exists>s''. sched_run 1 s' s'') \<and> (\<forall>s''. sched_run 1 s' s'' \<longrightarrow> sched_rep s'' t1 [t0] \<and> cr3 s'' = pd
         \<and> cpu_esp s'' = HEAP_START + 1004)"
proof -
  obtain s' t0 t1 pd where b: "kmain_start s = Inr (True, s')" "sched_rep s' t0 [t1]" "ipc_inv s' low_mem"
    "thread_ident s' t0 = 0" "thread_ident s' t1 = 1" "tid s' = 2" "msg_rep s' [] []" "iflag s'"
    "km_room s' = 0x00100000 - 336" "addr_ms s' = addr_ms s"
    "t_page_directory (the (threads s' t1)) = pd" "vm_frames (s'\<lparr>cr3 := pd\<rparr>) \<inter> vm_frames s' = {}"
    "start_frame (vview (s'\<lparr>cr3 := pd\<rparr>)) (HEAP_START + 1004) = [addr_thread_start s, addr_thread_exit s, addr_pg1 s]"
    "t_esp (the (threads s' t1)) = HEAP_START + 1004"
    by (rule kmain_start_result [OF assms])
  have runs: "\<forall>s''. sched_run 1 s' s'' \<longrightarrow> sched_rep s'' t1 [t0] \<and> cr3 s'' = pd \<and> cpu_esp s'' = HEAP_START + 1004"
    using sched_run_resumes [of "[]" s' _ t0 t1 "[]"] b(2,11,14) by (simp add: cpu_regs_def saved_regs_def)
  show ?thesis
    by (rule exI [of _ s'], rule exI [of _ t0], rule exI [of _ t1], rule exI [of _ pd])
      (use b(1-9,12,13) runs sched_run_exists [OF b(2), of 1] in simp)
qed

text \<open>A machine as the boot loader leaves it, with empty memory.\<close>

definition demo_power_on :: kernel where
  "demo_power_on = demo_kernel\<lparr>magic := 0x2BADB002, cr0 := 0x11, pmem := (\<lambda>_. 0), pmm_paging_active := False,
     kernel_page_directory := 0, is_initialized := False, threads := Map.empty, tnodes := Map.empty, mnodes := Map.empty, msgs := 0\<rparr>"

lemma demo_power_on: "power_on demo_power_on" "addr_ms demo_power_on = 0x90000"
proof -
  have "addr_pg1 demo_kernel = 0x9F000" by (simp add: demo_kernel_def kernel.defs idt.defs)
  then have "cell (addr_pg1 demo_kernel + 4) \<subseteq> low_mem - km_area" by (simp add: cell_def low_mem_def km_area_def)
  then show "power_on demo_power_on" "addr_ms demo_power_on = 0x90000"
    using demo_kernel_queue(3) by (simp_all add: power_on_def demo_power_on_def paging_def load32_def)
qed

lemma kmain_boots_witness:
  "\<exists>s'. kmain_start demo_power_on = Inr (True, s') \<and> iflag s' \<and> tid s' = 2"
  using kmain_boots [OF demo_power_on(1)] by blast



end
