(* ===== verification/Loader.thy ===== *)
theory Loader
  imports Boot
begin

text \<open>
  \<^verbatim>\<open>loader.S\<close> and \<^verbatim>\<open>GDT.inc\<close>: from the entry of the kernel, with the machine as a Multiboot loader leaves it
  (protected mode, paging off, the magic number in \<^verbatim>\<open>eax\<close>), to the call of \<^verbatim>\<open>kmain\<close> and behind it. The table of
  segment descriptors is in memory; a segment register takes a selector only if the descriptor it names allows it.
  Addresses that \<^verbatim>\<open>linker.ld\<close> gives are a record \<open>linkage\<close>; the functions in the tables of constructors and
  destructors are a parameter \<open>run\<close>, by their address. The words that \<^verbatim>\<open>push\<close>, \<^verbatim>\<open>pusha\<close> and \<^verbatim>\<open>call\<close> leave on the
  stack are not modelled.
\<close>

subsection \<open>The segment descriptors\<close>

text \<open>\<^verbatim>\<open>gdt_data\<close> to \<^verbatim>\<open>end_of_gdt\<close>: null, kernel code, kernel data, user code, user data, and the empty \<^verbatim>\<open>TSS_data\<close>.\<close>

definition gdt_data :: "u8 list" where
  "gdt_data =
    [0, 0, 0, 0, 0, 0, 0, 0,
     0xFF, 0xFF, 0, 0, 0, 0x9A, 0xCF, 0,
     0xFF, 0xFF, 0, 0, 0, 0x92, 0xCF, 0,
     0xFF, 0xFF, 0, 0, 0, 0xFA, 0xDF, 0,
     0xFF, 0xFF, 0, 0, 0, 0xF2, 0xDF, 0,
     0, 0, 0, 0, 0, 0, 0, 0]"

definition CODE_DESC :: u16 where "CODE_DESC = 0x8"
definition DATA_DESC :: u16 where "DATA_DESC = 0x10"

record linkage =
  addr_gdt :: u32
  addr_tss :: u32
  addr_stack :: u32
  start_ctors :: u32
  end_ctors :: u32
  start_dtors :: u32
  end_dtors :: u32

record boot_state = kernel +
  mbd :: u32
  gdtr :: "u16 \<times> u32"
  task_register :: u16
  seg_ds :: u16
  seg_es :: u16
  seg_ss :: u16

definition load64 :: "mem \<Rightarrow> u32 \<Rightarrow> 64 word" where
  "load64 m a = ucast (load32 m a) OR push_bit 32 (ucast (load32 m (a + 4)))"

definition store64 :: "mem \<Rightarrow> u32 \<Rightarrow> 64 word \<Rightarrow> mem" where
  "store64 m a d = store32 (store32 m a (ucast d)) (a + 4) (ucast (drop_bit 32 d))"

text \<open>The bit fields of a descriptor in memory.\<close>

definition gdt_unpack :: "64 word \<Rightarrow> gdt_entry_bits" where
  "gdt_unpack d =
     \<lparr>limit_low = ucast d, base_low = ucast (drop_bit 16 d), accessed = bit d 40, read_write = bit d 41,
      conforming_expand_down = bit d 42, code_bit = bit d 43, always_1 = bit d 44, DPL = ucast (drop_bit 45 d),
      present = bit d 47, limit_high = ucast (drop_bit 48 d), available = bit d 52, always_0 = bit d 53,
      big = bit d 54, gran = bit d 55, base_high = ucast (drop_bit 56 d)\<rparr>"

subsection \<open>What the processor does with a selector\<close>

text \<open>A selector that is null, names the local table or lies outside the table is a general protection fault.\<close>

definition descriptor_at :: "u16 \<Rightarrow> 'a boot_state_scheme \<Rightarrow> kerror + 64 word" where
  "descriptor_at sel s =
     (let i = 8 * unat (drop_bit 3 sel)
      in if i = 0 \<or> bit sel 2 \<or> unat (fst (gdtr s)) < i + 7 then Inl (Exception 13)
         else Inr (load64 (pmem s) (snd (gdtr s) + of_nat i)))"

definition load_cs :: "u16 \<Rightarrow> 'a boot_state_scheme \<Rightarrow> kerror + 'a boot_state_scheme" where
  "load_cs sel s =
     bindR (descriptor_at sel s) (\<lambda>d.
     let g = gdt_unpack d
     in if always_1 g \<and> code_bit g \<and> DPL g = 0
        then if present g then Inr (s\<lparr>cpu_cs := sel\<rparr>) else Inl (Exception 11)
        else Inl (Exception 13))"

text \<open>The checks of the stack segment, the strictest of the data segments.\<close>

definition load_data :: "(u16 \<Rightarrow> 'a boot_state_scheme \<Rightarrow> 'a boot_state_scheme) \<Rightarrow> u16 \<Rightarrow> 'a boot_state_scheme \<Rightarrow> kerror + 'a boot_state_scheme"
where
  "load_data set_reg sel s =
     bindR (descriptor_at sel s) (\<lambda>d.
     let g = gdt_unpack d
     in if always_1 g \<and> \<not> code_bit g \<and> read_write g \<and> DPL g = 0
        then if present g then Inr (set_reg sel s) else Inl (Exception 11)
        else Inl (Exception 13))"

text \<open>\<^verbatim>\<open>ltr\<close> takes the descriptor of an available 32-bit task state segment and marks it busy.\<close>

definition ltr :: "u16 \<Rightarrow> 'a boot_state_scheme \<Rightarrow> kerror + 'a boot_state_scheme" where
  "ltr sel s =
     (if \<not> bit (cr0 s) 0 then Inl (Exception 6)
      else bindR (descriptor_at sel s) (\<lambda>d.
           let g = gdt_unpack d
           in if \<not> always_1 g \<and> code_bit g \<and> \<not> conforming_expand_down g \<and> \<not> read_write g \<and> accessed g
              then if present g
                   then Inr (s\<lparr>pmem := store64 (pmem s) (snd (gdtr s) + of_nat (8 * unat (drop_bit 3 sel))) (d OR push_bit 41 1),
                               task_register := sel\<rparr>)
                   else Inl (Exception 11)
              else Inl (Exception 13)))"

subsection \<open>The loader\<close>

text \<open>The call of \<^verbatim>\<open>writeTss\<close> with the address of a descriptor: the descriptor is written first, then the segment.\<close>

definition call_writeTss :: "linkage \<Rightarrow> u32 \<Rightarrow> 'a boot_state_scheme \<Rightarrow> 'a boot_state_scheme" where
  "call_writeTss L p s =
     (let g = gdt_unpack (load64 (pmem s) p);
          m = store64 (pmem s) p (gdt_pack (fst (writeTss (addr_tss L) g (pmem s))))
      in s\<lparr>pmem := snd (writeTss (addr_tss L) g m)\<rparr>)"

definition InstallGDT :: "linkage \<Rightarrow> 'a boot_state_scheme \<Rightarrow> kerror + 'a boot_state_scheme" where
  "InstallGDT L s =
     (let s = call_writeTss L (addr_gdt L + 40) s;
          s = s\<lparr>gdtr := (of_nat (length gdt_data - 1), addr_gdt L)\<rparr>
      in ltr 0x2B s)"

fun ctor_loop :: "nat \<Rightarrow> linkage \<Rightarrow> (u32 \<Rightarrow> 'a boot_state_scheme \<Rightarrow> kerror + 'a boot_state_scheme) \<Rightarrow> u32 \<Rightarrow> 'a boot_state_scheme
  \<Rightarrow> kerror + 'a boot_state_scheme" where
  "ctor_loop 0 L run ebx s = Inl Hang"
| "ctor_loop (Suc k) L run ebx s =
     (if ebx < end_ctors L then bindR (run (load32 (pmem s) ebx) s) (ctor_loop k L run (ebx + 4)) else Inr s)"

fun dtor_loop :: "nat \<Rightarrow> linkage \<Rightarrow> (u32 \<Rightarrow> 'a boot_state_scheme \<Rightarrow> kerror + 'a boot_state_scheme) \<Rightarrow> u32 \<Rightarrow> 'a boot_state_scheme
  \<Rightarrow> kerror + 'a boot_state_scheme" where
  "dtor_loop 0 L run ebx s = Inl Hang"
| "dtor_loop (Suc k) L run ebx s =
     (if start_dtors L < ebx
      then let ebx = ebx - 4 in bindR (run (load32 (pmem s) ebx) s) (dtor_loop k L run ebx)
      else Inr s)"

definition STACKSIZE :: u32 where "STACKSIZE = 0x4000"

text \<open>The flag tells whether \<^verbatim>\<open>kmain\<close> is in its endless loop, or has returned and the processor is halted.\<close>

definition loader :: "linkage \<Rightarrow> (u32 \<Rightarrow> 'a boot_state_scheme \<Rightarrow> kerror + 'a boot_state_scheme) \<Rightarrow> u32 \<Rightarrow> u32 \<Rightarrow> 'a boot_state_scheme
  \<Rightarrow> kerror + (bool \<times> 'a boot_state_scheme)" where
  "loader L run eax ebx s =
     (let s = s\<lparr>magic := eax, mbd := ebx\<rparr>;
          s = cli s
      in bindR (InstallGDT L s) (\<lambda>s.
         bindR (load_cs CODE_DESC (s\<lparr>cr0 := cr0 s OR 1\<rparr>)) (\<lambda>s.
         bindR (load_data (\<lambda>v. seg_ds_update (\<lambda>_. v)) DATA_DESC s) (\<lambda>s.
         bindR (load_data (\<lambda>v. seg_ss_update (\<lambda>_. v)) DATA_DESC s) (\<lambda>s.
         bindR (load_data (\<lambda>v. seg_es_update (\<lambda>_. v)) DATA_DESC s) (\<lambda>s.
         let s = s\<lparr>cpu_esp := addr_stack L + STACKSIZE\<rparr>
         in bindR (ctor_loop loop_fuel L run (start_ctors L) s) (\<lambda>s.
            bindR (kmain_start s) (\<lambda>(looping, s).
            if looping then Inr (True, s)
            else bindR (dtor_loop loop_fuel L run (end_dtors L) s) (\<lambda>s. Inr (False, cli s))))))))))"

subsection \<open>Words of 64 bits in memory\<close>

lemma load64_store64: "load64 (store64 m a d) a = d"
proof -
  have "apart32 (a + 4) a" by (simp add: apart32_def)
  then have "load32 (store64 m a d) a = ucast d"
    by (simp add: store64_def load32_store32_apart load32_store32_same)
  moreover have "load32 (store64 m a d) (a + 4) = ucast (drop_bit 32 d)"
    by (simp add: store64_def load32_store32_same)
  moreover have "ucast (ucast d :: u32) OR push_bit 32 (ucast (ucast (drop_bit 32 d) :: u32)) = d"
  proof (rule bit_eqI)
    fix n :: nat
    show "bit (ucast (ucast d :: u32) OR push_bit 32 (ucast (ucast (drop_bit 32 d) :: u32)) :: 64 word) n = bit d n"
      by (cases "n < 32") (auto simp: bit_simps dest: bit_imp_le_length)
  qed
  ultimately show ?thesis by (simp add: load64_def)
qed

lemma store64_outside:
  assumes "unat x < unat a \<or> unat a + 8 \<le> unat x" and "unat a + 8 \<le> 2 ^ 32"
  shows "store64 m a d x = m x"
proof -
  have "unat (a + 4) = unat a + 4" using assms(2) by (subst unat_add_small) simp_all
  then have "store32 (store32 m a (ucast d)) (a + 4) (ucast (drop_bit 32 d)) x = store32 m a (ucast d) x"
    by (intro store32_outside) (use assms in auto)
  also have "\<dots> = m x" by (rule store32_outside) (use assms in auto)
  finally show ?thesis by (simp add: store64_def)
qed

lemma load64_cong:
  assumes "\<And>x. unat a \<le> unat x \<Longrightarrow> unat x < unat a + 8 \<Longrightarrow> m' x = m x" and "unat a + 8 \<le> 2 ^ 32"
  shows "load64 m' a = load64 m a"
proof -
  have "m' (a + of_nat i) = m (a + of_nat i)" if "i < 8" for i
  proof -
    have "unat (a + of_nat i) = unat a + i"
      using that assms(2) by (subst unat_add_small) (simp_all add: unat_of_nat_u32)
    then show ?thesis using that by (intro assms(1)) simp_all
  qed
  note b = this
  have "load32 m' a = load32 m a" by (rule load32_cong) (use b in simp)
  moreover have "load32 m' (a + 4) = load32 m (a + 4)"
    by (rule load32_cong) (use b [of 4] b [of 5] b [of 6] b [of 7] in \<open>auto simp: less_Suc_eq numeral_eq_Suc add.assoc\<close>)
  ultimately show ?thesis by (simp add: load64_def)
qed

subsection \<open>The task state segment\<close>

lemma writeTss_outside:
  assumes "unat x < unat b \<or> unat b + 104 \<le> unat x" and "unat b + 104 < 2 ^ 32"
  shows "snd (writeTss b g m) x = m x"
proof -
  have "for_upt 0 n (\<lambda>i m. m(b + of_nat i := 0)) m x = m x" if "n \<le> 104" for n
    using that
  proof (induction n)
    case (Suc n)
    then have "unat (b + of_nat n) = unat b + n"
      using assms(2) by (subst unat_add_small) (simp_all add: unat_of_nat_u32)
    then have "x \<noteq> b + of_nat n" using assms(1) Suc.prems by auto
    then show ?case using Suc by simp
  qed simp
  moreover have "unat (b + 4) = unat b + 4" "unat (b + 8) = unat b + 8"
    using assms(2) by (subst unat_add_small; simp)+
  ultimately show ?thesis
    using assms by (subst writeTss_def, simp only: Let_def sizeof_tss_def snd_conv)
      (subst store32_outside; auto)+
qed

lemma writeTss_fst: "fst (writeTss b g m) = fst (writeTss b g m')"
  by (simp add: writeTss_def Let_def)

lemma gdt_pack_busy: "\<not> read_write g \<Longrightarrow> gdt_pack g OR push_bit 41 1 = gdt_pack (g\<lparr>read_write := True\<rparr>)"
  unfolding gdt_pack_def by (simp add: flag64_def or.assoc or.commute or.left_commute)

lemma descriptor_access_busy:
  assumes "accessed g" and "read_write g" and "\<not> conforming_expand_down g" and "code_bit g"
    and "\<not> always_1 g" and "DPL g = 3" and "present g"
  shows "descriptor_access (gdt_pack g) = 0xEB"
proof (rule bit_eqI)
  fix n :: nat
  assume "possible_bit TYPE(u8) n"
  then have "n < 8" by simp
  then consider "n = 0" | "n = 1" | "n = 2" | "n = 3" | "n = 4" | "n = 5" | "n = 6" | "n = 7" by linarith
  then show "bit (descriptor_access (gdt_pack g)) n = bit (0xEB :: u8) n"
    by cases (simp_all add: descriptor_access_def bit_unsigned_iff bit_drop_bit_eq bit_gdt_access assms)
qed

lemma bit_gdt_gran: "bit (gdt_pack g) 55 = gran g"
  by (auto simp: gdt_pack_def bit_simps bit_flag64 dest: bit_imp_le_length)

lemma unpack_pack [simp]:
  "accessed (gdt_unpack (gdt_pack g)) = accessed g" "read_write (gdt_unpack (gdt_pack g)) = read_write g"
  "conforming_expand_down (gdt_unpack (gdt_pack g)) = conforming_expand_down g" "code_bit (gdt_unpack (gdt_pack g)) = code_bit g"
  "always_1 (gdt_unpack (gdt_pack g)) = always_1 g" "present (gdt_unpack (gdt_pack g)) = present g"
  by (simp_all add: gdt_unpack_def bit_gdt_access)

subsection \<open>The table in memory\<close>

definition table_at :: "mem \<Rightarrow> u32 \<Rightarrow> u8 list \<Rightarrow> bool" where
  "table_at m p bs \<longleftrightarrow> (\<forall>i<length bs. m (p + of_nat i) = bs ! i)"

lemma table_bytes:
  "table_at m p bs \<Longrightarrow> length bs = 48 \<Longrightarrow> map (\<lambda>i. m (p + of_nat i)) [0..<48] = bs"
  by (auto simp: table_at_def intro!: nth_equalityI)

definition flat_table :: "64 word list" where
  "flat_table = [0, 0x00CF9A000000FFFF, 0x00CF92000000FFFF, 0x00DFFA000000FFFF, 0x00DFF2000000FFFF]"

lemma gdt_entries:
  assumes "table_at m p gdt_data"
  shows "map (\<lambda>i. load64 m (p + 8 * of_nat i)) [0..<5] = flat_table" and "load64 m (p + 40) = 0"
proof -
  have b: "m (p + of_nat i) = gdt_data ! i" if "i < 48" for i
    using assms that by (simp add: table_at_def gdt_data_def)
  have e: "load32 m (p + of_nat i) = ucast (gdt_data ! i) OR push_bit 8 (ucast (gdt_data ! (i + 1)))
     OR push_bit 16 (ucast (gdt_data ! (i + 2))) OR push_bit 24 (ucast (gdt_data ! (i + 3)))" if "i + 3 < 48" for i
  proof -
    have "m (p + of_nat i + 1) = gdt_data ! (i + 1)" "m (p + of_nat i + 2) = gdt_data ! (i + 2)"
      "m (p + of_nat i + 3) = gdt_data ! (i + 3)" "m (p + of_nat i) = gdt_data ! i"
      using that b [of "i + 1"] b [of "i + 2"] b [of "i + 3"] b [of i] by (simp_all add: ac_simps)
    then show ?thesis by (simp only: load32_def)
  qed
  show "load64 m (p + 40) = 0" using e [of 40] e [of 44] by (simp add: load64_def gdt_data_def add.commute [of p])
  have "load64 m (p + 8) = 0x00CF9A000000FFFF" using e [of 8] e [of 12] by (simp add: load64_def gdt_data_def add.commute [of p])
  moreover have "load64 m p = 0" using e [of 0] e [of 4] by (simp add: load64_def gdt_data_def add.commute [of p])
  moreover have "load64 m (p + 16) = 0x00CF92000000FFFF" using e [of 16] e [of 20] by (simp add: load64_def gdt_data_def add.commute [of p])
  moreover have "load64 m (p + 24) = 0x00DFFA000000FFFF" using e [of 24] e [of 28] by (simp add: load64_def gdt_data_def add.commute [of p])
  moreover have "load64 m (p + 32) = 0x00DFF2000000FFFF" using e [of 32] e [of 36] by (simp add: load64_def gdt_data_def add.commute [of p])
  ultimately show "map (\<lambda>i. load64 m (p + 8 * of_nat i)) [0..<5] = flat_table"
    by (simp add: flat_table_def upt_rec)
qed


lemma offset_unat: "unat (p :: u32) + k < 2 ^ 32 \<Longrightarrow> unat (p + of_nat k) = unat p + k"
  by (subst unat_add_small) (simp_all add: unat_of_nat_u32)

definition segment :: "64 word \<Rightarrow> u32 \<times> u32 \<times> u8 \<times> bool" where
  "segment d = (descriptor_base d, descriptor_limit d, descriptor_access d, bit d 55)"

lemma flat_segments:
  "map segment (tl flat_table) = [(0, 0xFFFFF, 0x9A, True), (0, 0xFFFFF, 0x92, True), (0, 0xFFFFF, 0xFA, True), (0, 0xFFFFF, 0xF2, True)]"
  by (simp add: flat_table_def segment_def descriptor_base_def descriptor_limit_def descriptor_access_def)

text \<open>
  Where \<^verbatim>\<open>linker.ld\<close> puts the two tables: in the image, which starts at 1 MB and here ends below the kernel heap,
  apart from each other.
\<close>

definition linked :: "linkage \<Rightarrow> bool" where
  "linked L \<longleftrightarrow> 0x00100000 \<le> unat (addr_gdt L) \<and> unat (addr_gdt L) + 48 \<le> 0x00200000
     \<and> 0x00100000 \<le> unat (addr_tss L) \<and> unat (addr_tss L) + 104 \<le> 0x00200000
     \<and> (unat (addr_gdt L) + 48 \<le> unat (addr_tss L) \<or> unat (addr_tss L) + 104 \<le> unat (addr_gdt L))"

lemma tss_limit_zero:
  assumes "0x00100000 \<le> unat b" and "unat b + 104 < 0x00110000"
  shows "(b + 104) AND 0xF0000 = (0 :: u32)"
proof -
  have u: "unat (b + 104) = unat b + 104" using offset_unat [of b 104] assms by simp
  have k: "(0xF0000 :: u32) = push_bit 16 (mask 4)" by (simp add: mask_eq_exp_minus_1 push_bit_eq_mult)
  have "(b + 104) AND 0xF0000 = push_bit 16 (take_bit 4 (drop_bit 16 (b + 104)))"
  proof (rule bit_eqI)
    fix n
    show "bit ((b + 104) AND 0xF0000) n = bit (push_bit 16 (take_bit 4 (drop_bit 16 (b + 104)))) n"
      unfolding k by (auto simp: bit_simps dest: bit_imp_le_length)
  qed
  moreover have "drop_bit 16 (b + 104) = (16 :: u32)"
  proof (rule u32_eqI)
    have "(unat b + 104) div 65536 = 16" using assms by (intro div_nat_eqI) auto
    then show "unat (drop_bit 16 (b + 104)) = unat (16 :: u32)" using u by (simp add: drop_bit_eq_div unat_div)
  qed
  ultimately show ?thesis by simp
qed

lemma InstallGDT_result:
  assumes "table_at (pmem s) (addr_gdt L) gdt_data" and "bit (cr0 s) 0" and "linked L"
  obtains m where "InstallGDT L s = Inr (s\<lparr>pmem := m, gdtr := (47, addr_gdt L), task_register := 0x2B\<rparr>)"
    and "map (\<lambda>i. load64 m (addr_gdt L + 8 * of_nat i)) [0..<5] = flat_table"
    and "segment (load64 m (addr_gdt L + 40)) = (addr_tss L, (addr_tss L + 104) AND 0xF0000, 0xEB, False)"
    and "load32 m (addr_tss L + 8) = 0x10"
    and "\<And>x. \<not> (unat (addr_gdt L) \<le> unat x \<and> unat x < unat (addr_gdt L) + 48) \<Longrightarrow>
         \<not> (unat (addr_tss L) \<le> unat x \<and> unat x < unat (addr_tss L) + 104) \<Longrightarrow> m x = pmem s x"
proof -
  let ?G = "addr_gdt L" and ?T = "addr_tss L"
  have lk: "unat ?G + 48 < 2 ^ 32" "unat ?T + 104 < 2 ^ 32" "unat ?G + 48 \<le> unat ?T \<or> unat ?T + 104 \<le> unat ?G"
    using assms(3) by (auto simp: linked_def)
  have G40: "unat (?G + 40) = unat ?G + 40" using offset_unat [of ?G 40] lk(1) by simp
  define g0 where "g0 = gdt_unpack (load64 (pmem s) (?G + 40))"
  define g where "g = fst (writeTss ?T g0 (pmem s))"
  define m1 where "m1 = store64 (pmem s) (?G + 40) (gdt_pack g)"
  define m2 where "m2 = snd (writeTss ?T g0 m1)"
  define g' where "g' = g\<lparr>read_write := True\<rparr>"
  define m3 where "m3 = store64 m2 (?G + 40) (gdt_pack g')"
  have gf: "accessed g" "\<not> read_write g" "\<not> conforming_expand_down g" "code_bit g" "\<not> always_1 g" "DPL g = 3" "present g" "\<not> gran g"
    by (simp_all add: g_def writeTss_def Let_def)
  have "limit_low g0 = 0" using gdt_entries(2) [OF assms(1)] by (simp add: g0_def gdt_unpack_def)
  moreover obtain h m where w: "writeTss ?T g0 m1 = (h, m)" "descriptor_base (gdt_pack h) = ?T"
    "descriptor_limit (gdt_pack h) = ucast (limit_low g0) OR ((?T + 104) AND 0xF0000)" "load32 m (?T + 8) = 0x10"
    using writeTss_descriptor [of ?T g0 m1] lk(2) by blast
  moreover have "h = g" using w(1) writeTss_fst [of ?T g0 m1 "pmem s"] by (simp add: g_def)
  ultimately have d: "descriptor_base (gdt_pack g) = ?T" "descriptor_limit (gdt_pack g) = (?T + 104) AND 0xF0000"
    and ss0: "load32 m2 (?T + 8) = 0x10" by (simp_all add: m2_def)
  have out2: "m2 x = m1 x" if "unat x < unat ?T \<or> unat ?T + 104 \<le> unat x" for x
    unfolding m2_def by (rule writeTss_outside [OF that lk(2)])
  have out13: "store64 m (?G + 40) v x = m x" if "unat x < unat ?G + 40 \<or> unat ?G + 48 \<le> unat x" for m v x
    by (rule store64_outside) (use that G40 lk(1) in auto)
  have "load64 m2 (?G + 40) = load64 m1 (?G + 40)"
    by (rule load64_cong) (use out2 G40 lk in auto)
  then have d2: "load64 m2 (?G + 40) = gdt_pack g" by (simp add: m1_def load64_store64)
  have len: "length gdt_data = 48" by (simp add: gdt_data_def)
  have cw: "call_writeTss L (?G + 40) s = s\<lparr>pmem := m2\<rparr>"
    by (simp only: call_writeTss_def Let_def g0_def [symmetric] g_def [symmetric] m1_def [symmetric] m2_def [symmetric])
  have "ltr 0x2B (s\<lparr>pmem := m2, gdtr := (47, ?G)\<rparr>) = Inr (s\<lparr>pmem := m3, gdtr := (47, ?G), task_register := 0x2B\<rparr>)"
    using gf assms(2) d2 by (simp add: ltr_def descriptor_at_def gdt_pack_busy [simplified] g'_def [symmetric] m3_def [symmetric])
  then have run: "InstallGDT L s = Inr (s\<lparr>pmem := m3, gdtr := (47, ?G), task_register := 0x2B\<rparr>)"
    by (simp add: InstallGDT_def cw len)
  have keep: "m3 x = pmem s x" if "\<not> (unat ?G + 40 \<le> unat x \<and> unat x < unat ?G + 48)"
    "\<not> (unat ?T \<le> unat x \<and> unat x < unat ?T + 104)" for x
    using that out13 [of x] out2 [of x] by (simp add: m3_def m1_def not_le not_less)
  have "load64 m3 (?G + 8 * of_nat i) = load64 (pmem s) (?G + 8 * of_nat i)" if "i < 5" for i
  proof -
    have "unat (?G + 8 * of_nat i) = unat ?G + 8 * i" using offset_unat [of ?G "8 * i"] that lk(1) by simp
    then show ?thesis by (intro load64_cong keep) (use that lk in auto)
  qed
  then have "map (\<lambda>i. load64 m3 (?G + 8 * of_nat i)) [0..<5] = map (\<lambda>i. load64 (pmem s) (?G + 8 * of_nat i)) [0..<5]"
    by (intro map_cong) auto
  with gdt_entries(1) [OF assms(1)] have flat: "map (\<lambda>i. load64 m3 (?G + 8 * of_nat i)) [0..<5] = flat_table" by (rule trans [rotated])
  have tss: "segment (load64 m3 (?G + 40)) = (?T, (?T + 104) AND 0xF0000, 0xEB, False)"
    using d gf descriptor_access_busy [of g']
    by (simp add: m3_def load64_store64 segment_def g'_def descriptor_base_pack descriptor_limit_pack bit_gdt_gran)
  have "load32 m3 (?T + 8) = load32 m2 (?T + 8)"
  proof (rule load32_cong)
    fix i :: nat assume i: "i < 4"
    have "unat (?T + 8 + of_nat i) = unat ?T + 8 + i" using offset_unat [of ?T "8 + i"] i lk(2) by (simp add: ac_simps)
    then show "m3 (?T + 8 + of_nat i) = m2 (?T + 8 + of_nat i)" unfolding m3_def by (intro out13) (use i lk(3) in auto)
  qed
  with ss0 have ss: "load32 m3 (?T + 8) = 0x10" by simp
  show ?thesis by (rule that [OF run flat tss ss]) (use keep in auto)
qed


subsection \<open>From the entry to kmain\<close>

lemma load_segments:
  assumes "gdtr s = (47, p)" and "map (\<lambda>i. load64 (pmem s) (p + 8 * of_nat i)) [0..<5] = flat_table"
  shows "load_cs CODE_DESC s = Inr (s\<lparr>cpu_cs := CODE_DESC\<rparr>)" and "load_data f DATA_DESC s = Inr (f DATA_DESC s)"
proof -
  have "load64 (pmem s) (p + 8 * of_nat i) = flat_table ! i" if "i < 5" for i
    using that assms(2) nth_map_upt [of i 5 0 "\<lambda>i. load64 (pmem s) (p + 8 * of_nat i)"] by simp
  from this [of 1] this [of 2] have "load64 (pmem s) (p + 8) = 0x00CF9A000000FFFF" "load64 (pmem s) (p + 16) = 0x00CF92000000FFFF"
    by (simp_all add: flat_table_def)
  then have d: "descriptor_at CODE_DESC s = Inr 0x00CF9A000000FFFF" "descriptor_at DATA_DESC s = Inr 0x00CF92000000FFFF"
    using assms(1) by (simp_all add: descriptor_at_def CODE_DESC_def DATA_DESC_def)
  show "load_cs CODE_DESC s = Inr (s\<lparr>cpu_cs := CODE_DESC\<rparr>)"
    unfolding load_cs_def d by (simp add: gdt_unpack_def)
  show "load_data f DATA_DESC s = Inr (f DATA_DESC s)"
    unfolding load_data_def d by (simp add: gdt_unpack_def)
qed

text \<open>
  What a Multiboot loader promises, with the image in memory: protected mode, paging off, the variables of the kernel
  not yet used (\<open>power_on\<close>, but for the magic number, which is in \<^verbatim>\<open>eax\<close>), the table of descriptors in its place.
\<close>

definition multiboot_entry :: "linkage \<Rightarrow> 'a boot_state_scheme \<Rightarrow> bool" where
  "multiboot_entry L s \<longleftrightarrow> power_on (s\<lparr>magic := 0x2BADB002\<rparr>) \<and> table_at (pmem s) (addr_gdt L) gdt_data \<and> bit (cr0 s) 0"

text \<open>The state in which the constructors and then \<^verbatim>\<open>kmain\<close> start.\<close>

definition entered :: "linkage \<Rightarrow> u32 \<Rightarrow> u32 \<Rightarrow> mem \<Rightarrow> 'a boot_state_scheme \<Rightarrow> 'a boot_state_scheme" where
  "entered L eax ebx m s = s\<lparr>magic := eax, mbd := ebx, iflag := False, pmem := m, gdtr := (47, addr_gdt L), task_register := 0x2B,
     cr0 := cr0 s OR 1, cpu_cs := CODE_DESC, seg_ds := DATA_DESC, seg_ss := DATA_DESC, seg_es := DATA_DESC,
     cpu_esp := addr_stack L + STACKSIZE\<rparr>"

lemma loader_enters:
  assumes "multiboot_entry L s" and "linked L"
  obtains m where "loader L run eax ebx s = bindR (ctor_loop loop_fuel L run (start_ctors L) (entered L eax ebx m s)) (\<lambda>s.
        bindR (kmain_start s) (\<lambda>(looping, s).
        if looping then Inr (True, s)
        else bindR (dtor_loop loop_fuel L run (end_dtors L) s) (\<lambda>s. Inr (False, cli s))))"
    and "power_on (entered L 0x2BADB002 ebx m s)"
proof -
  let ?s = "cli (s\<lparr>magic := eax, mbd := ebx\<rparr>)"
  have tab: "table_at (pmem ?s) (addr_gdt L) gdt_data" "bit (cr0 ?s) 0" using assms(1) by (simp_all add: multiboot_entry_def cli_def)
  obtain m where m: "InstallGDT L ?s = Inr (?s\<lparr>pmem := m, gdtr := (47, addr_gdt L), task_register := 0x2B\<rparr>)"
    "map (\<lambda>i. load64 m (addr_gdt L + 8 * of_nat i)) [0..<5] = flat_table"
    "\<And>x. \<not> (unat (addr_gdt L) \<le> unat x \<and> unat x < unat (addr_gdt L) + 48) \<Longrightarrow>
         \<not> (unat (addr_tss L) \<le> unat x \<and> unat x < unat (addr_tss L) + 104) \<Longrightarrow> m x = pmem ?s x"
    by (rule InstallGDT_result [OF tab assms(2)]) (rule that; assumption)
  have "load32 m p = load32 (pmem s) p" if "frame p = p" "0x00305000 \<le> unat p" for p
  proof (rule load32_cong)
    fix i :: nat assume "i < 4"
    have "unat (p + of_nat i) = unat p + i" 
      using frame_le [of p] that(1) \<open>i < 4\<close> by (intro offset_unat) simp
    then show "m (p + of_nat i) = pmem s (p + of_nat i)"
      using m(3) [of "p + of_nat i"] that(2) assms(2) by (simp add: linked_def cli_def)
  qed
  then have "power_on (entered L 0x2BADB002 ebx m s)"
    using assms(1) by (simp add: multiboot_entry_def power_on_def entered_def paging_def bit_or_iff)
  moreover have "load_cs CODE_DESC s = Inr (s\<lparr>cpu_cs := CODE_DESC\<rparr>)" "load_data f DATA_DESC s = Inr (f DATA_DESC s)"
    if "gdtr s = (47, addr_gdt L)" "pmem s = m" for f and s :: "'a boot_state_scheme"
    using load_segments [OF that(1)] m(2) that(2) by simp_all
  ultimately show ?thesis
    using m(1) by (intro that [of m]) (simp_all add: loader_def Let_def entered_def cli_def)
qed


subsection \<open>The tables of constructors and destructors\<close>

definition words_at :: "mem \<Rightarrow> u32 \<Rightarrow> u32 list \<Rightarrow> bool" where
  "words_at m p fs \<longleftrightarrow> (\<forall>i<length fs. load32 m (p + 4 * of_nat i) = fs ! i)"

text \<open>The constructors are called in the order of their table, the destructors in the reverse order.\<close>

lemma ctor_loop_calls:
  assumes "end_ctors L = p + 4 * of_nat (length fs)" and "unat p + 4 * length fs < 2 ^ 32" and "words_at (pmem s) p fs"
    and "\<And>f s s'. f \<in> set fs \<Longrightarrow> words_at (pmem s) p fs \<Longrightarrow> run f s = Inr s' \<Longrightarrow> words_at (pmem s') p fs"
    and "length fs < k"
  shows "ctor_loop k L run p s = forR run fs s"
proof -
  have "ctor_loop k L run (p + 4 * of_nat i) s = forR run (drop i fs) s"
    if "i \<le> length fs" "length fs - i < k" "words_at (pmem s) p fs" for i k s
    using that
  proof (induction k arbitrary: i s)
    case (Suc k)
    have u: "unat (p + 4 * of_nat j) = unat p + 4 * j" if "j \<le> length fs" for j
      using offset_unat [of p "4 * j"] that assms(2) by simp
    have less: "p + 4 * of_nat i < end_ctors L \<longleftrightarrow> i < length fs"
      unfolding assms(1) word_less_nat_alt using u [of i] u [of "length fs"] Suc.prems(1) by simp
    show ?case
    proof (cases "i < length fs")
      case True
      then have f: "load32 (pmem s) (p + 4 * of_nat i) = fs ! i" "drop i fs = fs ! i # drop (Suc i) fs" "fs ! i \<in> set fs"
        using Suc.prems(3) by (simp_all add: words_at_def Cons_nth_drop_Suc)
      have "ctor_loop k L run (p + 4 * of_nat i + 4) s' = forR run (drop (Suc i) fs) s'" if "run (fs ! i) s = Inr s'" for s'
        using Suc.IH [of "Suc i" s'] assms(4) [OF f(3) Suc.prems(3) that] Suc.prems(2) True by (simp add: ac_simps)
      then show ?thesis using less True f(1,2) by (cases "run (fs ! i) s") simp_all
    next
      case False
      then show ?thesis using less by simp
    qed
  qed simp
  from this [of 0 k s] assms(3,5) show ?thesis by simp
qed

lemma dtor_loop_calls:
  assumes "start_dtors L = p" and "unat p + 4 * length fs < 2 ^ 32" and "words_at (pmem s) p fs"
    and "\<And>f s s'. f \<in> set fs \<Longrightarrow> words_at (pmem s) p fs \<Longrightarrow> run f s = Inr s' \<Longrightarrow> words_at (pmem s') p fs"
    and "length fs < k"
  shows "dtor_loop k L run (p + 4 * of_nat (length fs)) s = forR run (rev fs) s"
proof -
  have "dtor_loop k L run (p + 4 * of_nat i) s = forR run (rev (take i fs)) s"
    if "i \<le> length fs" "i < k" "words_at (pmem s) p fs" for i k s
    using that
  proof (induction k arbitrary: i s)
    case (Suc k)
    have "unat (p + 4 * of_nat i) = unat p + 4 * i"
      using offset_unat [of p "4 * i"] Suc.prems(1) assms(2) by simp
    then have less: "start_dtors L < p + 4 * of_nat i \<longleftrightarrow> 0 < i"
      unfolding assms(1) word_less_nat_alt by simp
    show ?case
    proof (cases i)
      case (Suc j)
      then have f: "load32 (pmem s) (p + 4 * of_nat j) = fs ! j" "rev (take i fs) = fs ! j # rev (take j fs)" "fs ! j \<in> set fs"
        using Suc.prems(1,3) by (simp_all add: words_at_def take_Suc_conv_app_nth)
      have "p + 4 * of_nat i - 4 = p + 4 * of_nat j" by (simp add: Suc algebra_simps)
      moreover have "dtor_loop k L run (p + 4 * of_nat j) s' = forR run (rev (take j fs)) s'" if "run (fs ! j) s = Inr s'" for s'
        using Suc.IH [of j s'] assms(4) [OF f(3) Suc.prems(3) that] Suc.prems(1,2) Suc by simp
      ultimately show ?thesis using less Suc f(1,2) by (cases "run (fs ! j) s") simp_all
    next
      case 0
      then show ?thesis using less by simp
    qed
  qed simp
  from this [of "length fs" k s] assms(3,5) show ?thesis by simp
qed

subsection \<open>Properties\<close>

text \<open>A machine at the entry of the kernel: the image from 1 MB on, and nothing else in memory.\<close>

definition demo_linkage :: linkage where
  "demo_linkage = \<lparr>addr_gdt = 0x00101000, addr_tss = 0x00104000, addr_stack = 0x00105000, start_ctors = 0x00103000,
     end_ctors = 0x00103000, start_dtors = 0x00103000, end_dtors = 0x00103000\<rparr>"

definition demo_image :: mem where
  "demo_image a = (if 0x00101000 \<le> unat a \<and> unat a < 0x00101030 then gdt_data ! (unat a - 0x00101000) else 0)"

definition demo_loader :: boot_state where
  "demo_loader = kernel.extend (demo_power_on\<lparr>pmem := demo_image\<rparr>) (boot_state.fields 0 (0, 0) 0 0x18 0x18 0x18)"

lemma demo_loader_fields:
  "pmem demo_loader = demo_image" "cr0 demo_loader = 0x11" "\<not> pmm_paging_active demo_loader" "kernel_page_directory demo_loader = 0"
  "\<not> is_initialized demo_loader" "threads demo_loader = Map.empty" "tnodes demo_loader = Map.empty" "mnodes demo_loader = Map.empty"
  "msgs demo_loader = 0" "addr_pg1 demo_loader = 0x9F000"
  by (simp_all add: demo_loader_def demo_power_on_def demo_kernel_def kernel.defs idt.defs boot_state.defs)

lemma demo_loader_entry:
  "table_at (pmem demo_loader) (addr_gdt demo_linkage) gdt_data" "bit (cr0 demo_loader) 0" "linked demo_linkage"
  "multiboot_entry demo_linkage demo_loader"
proof -
  show tab: "table_at (pmem demo_loader) (addr_gdt demo_linkage) gdt_data"
    unfolding table_at_def
  proof (intro allI impI)
    fix i assume "i < length gdt_data"
    then have "i < 48" by (simp add: gdt_data_def)
    then have "unat (0x00101000 + of_nat i :: u32) = 0x00101000 + i" using offset_unat [of "0x00101000" i] by simp
    then show "pmem demo_loader (addr_gdt demo_linkage + of_nat i) = gdt_data ! i"
      using \<open>i < 48\<close> by (simp add: demo_loader_fields demo_linkage_def demo_image_def)
  qed
  show pe: "bit (cr0 demo_loader) 0" by (simp add: demo_loader_fields)
  show "linked demo_linkage" by (simp add: linked_def demo_linkage_def)
  have "load32 demo_image p = 0" if "frame p = p" "0x00305000 \<le> unat p" for p
  proof -
    have "demo_image (p + of_nat i) = 0" if "i < 4" for i
      using offset_unat [of p i] frame_le [of p] that \<open>frame p = p\<close> \<open>0x00305000 \<le> unat p\<close> by (simp add: demo_image_def)
    from this [of 0] this [of 1] this [of 2] this [of 3] show ?thesis by (simp add: load32_def)
  qed
  then have "power_on (demo_loader\<lparr>magic := 0x2BADB002\<rparr>)"
    by (simp add: power_on_def demo_loader_fields paging_def cell_def low_mem_def km_area_def)
  with tab pe show "multiboot_entry demo_linkage demo_loader" by (simp add: multiboot_entry_def)
qed

text \<open>C27: InstallGDT leaves a table with flat 4 GB segments for code and data, kernel and user, and the descriptor of the
  task state segment, which is accepted and marked busy; the segment names the kernel's stack segment. The limit of this descriptor is not
  the size of the segment but bits 16 to 19 of its end address: with an image within 64 KB of 1 MB it is 0, so that a
  change of privilege could not read the segment.\<close>

theorem InstallGDT_segments:
  assumes "table_at (pmem s) (addr_gdt L) gdt_data" and "bit (cr0 s) 0" and "linked L"
  shows "\<exists>m. InstallGDT L s = Inr (s\<lparr>pmem := m, gdtr := (47, addr_gdt L), task_register := 0x2B\<rparr>)
    \<and> map (\<lambda>i. segment (load64 m (addr_gdt L + 8 * of_nat i))) [1..<6] =
        [(0, 0xFFFFF, 0x9A, True), (0, 0xFFFFF, 0x92, True), (0, 0xFFFFF, 0xFA, True), (0, 0xFFFFF, 0xF2, True),
         (addr_tss L, (addr_tss L + 104) AND 0xF0000, 0xEB, False)]
    \<and> load32 m (addr_tss L + 8) = 0x10
    \<and> (unat (addr_tss L) + 104 < 0x00110000 \<longrightarrow> descriptor_limit (load64 m (addr_gdt L + 40)) = 0)"
proof -
  obtain m where m: "InstallGDT L s = Inr (s\<lparr>pmem := m, gdtr := (47, addr_gdt L), task_register := 0x2B\<rparr>)"
    "map (\<lambda>i. load64 m (addr_gdt L + 8 * of_nat i)) [0..<5] = flat_table"
    "segment (load64 m (addr_gdt L + 40)) = (addr_tss L, (addr_tss L + 104) AND 0xF0000, 0xEB, False)"
    "load32 m (addr_tss L + 8) = 0x10"
    by (rule InstallGDT_result [OF assms]) (rule that; assumption)
  have "[0..<5] = 0 # [1..<5]" by (simp add: upt_rec)
  then have "map (\<lambda>i. load64 m (addr_gdt L + 8 * of_nat i)) [1..<5] = tl flat_table" using arg_cong [OF m(2), of tl] by simp
  then have "map (\<lambda>i. segment (load64 m (addr_gdt L + 8 * of_nat i))) [1..<5] = map segment (tl flat_table)"
    using map_map [of segment "\<lambda>i. load64 m (addr_gdt L + 8 * of_nat i)" "[1..<5]"] unfolding comp_def by (rule trans [OF sym arg_cong, rotated])
  moreover have "[1..<6] = [1..<5] @ [5]" by (simp add: upt_rec)
  moreover have "descriptor_limit (load64 m (addr_gdt L + 40)) = 0" if "unat (addr_tss L) + 104 < 0x00110000"
    using tss_limit_zero [OF _ that] m(3) assms(3) by (simp add: segment_def linked_def)
  ultimately show ?thesis using m(1,3,4) flat_segments by (intro exI [of _ m]) simp
qed

lemma InstallGDT_segments_witness:
  "\<exists>m. InstallGDT demo_linkage demo_loader = Inr (demo_loader\<lparr>pmem := m, gdtr := (47, 0x00101000), task_register := 0x2B\<rparr>)
    \<and> descriptor_limit (load64 m 0x00101028) = 0 \<and> load32 m 0x00104008 = 0x10"
  using InstallGDT_segments [OF demo_loader_entry(1-3)] by (auto simp: demo_linkage_def)



end
