(* ===== verification/KeyLines.thy ===== *)
theory KeyLines
  imports Keyboard
begin

text \<open>
  What the keyboard driver does with streams of scan codes: no stream makes it write outside its line
  buffer, a typed line reaches the listener, and two ways in which keys get lost.
\<close>

subsection \<open>The line buffer\<close>

definition line_inv :: "'a kbd_scheme \<Rightarrow> bool" where
  "line_inv s \<longleftrightarrow> lbLen s < 78 \<and> length (lineBuffer s) = 78 \<and> \<not> key_press_table s 0 \<and> \<not> key_press_table s 1"

text \<open>\<open>s'\<close> has the decoder, the table of scan codes and the listener of \<open>s\<close>.\<close>

definition same_decoder :: "'a kbd_scheme \<Rightarrow> 'a kbd_scheme \<Rightarrow> bool" where
  "same_decoder s s' \<longleftrightarrow> kb_length s' = kb_length s \<and> kb_pressed s' = kb_pressed s \<and> kb_handled s' = kb_handled s
     \<and> timesToIgnore s' = timesToIgnore s \<and> kb_key s' = kb_key s \<and> scancode_table s' = scancode_table s
     \<and> callback s' = callback s"

lemma echo_Inr:
  assumes "lbLen s < 78"
  shows "\<exists>c. echo k s = Inr (s\<lparr>con := c, lineBuffer := (lineBuffer s)[lbLen s := word_of_int k], lbLen := lbLen s + 1\<rparr>)"
  using assms by (simp add: echo_def printck_def set_line_def Let_def) blast

text \<open>What pressing a key appends to the line, if anything.\<close>

definition typed :: "int \<Rightarrow> 'a kbd_scheme \<Rightarrow> u8 option" where
  "typed k s =
     (if 64 < k \<and> k < 94 \<and> \<not> isPressed VK_SHIFT s then Some (word_of_int (k + 32))
      else if 48 < k \<and> k < 58 \<and> isPressed VK_SHIFT s then Some (word_of_int (k - 16))
      else if k \<noteq> VK_SHIFT \<and> k \<noteq> VK_ALT then Some (word_of_int k) else None)"

lemma type_key_Inr:
  assumes "line_inv s"
  shows "case typed k s of None \<Rightarrow> type_key k s = Inr s
    | Some b \<Rightarrow> \<exists>c. type_key k s = Inr (s\<lparr>con := c, lineBuffer := (lineBuffer s)[lbLen s := b], lbLen := lbLen s + 1\<rparr>)"
  using assms echo_Inr [of s k] echo_Inr [of s "k + 32"] echo_Inr [of s "k - 16"] by (auto simp: type_key_def typed_def line_inv_def isPressed_def)

lemma setPressed_inv:
  assumes "line_inv s" and "k \<noteq> 0" and "k \<noteq> 1"
  shows "\<exists>s'. setPressed k p s = Inr s' \<and> line_inv s' \<and> same_decoder s s'
    \<and> key_press_table s' = (key_press_table s)(k := p)"
proof -
  let ?s = "s\<lparr>key_press_table := (key_press_table s)(k := p)\<rparr>"
  have inv: "line_inv ?s" using assms by (simp add: line_inv_def)
  show ?thesis
  proof (cases p)
    case False
    then show ?thesis
      using inv by (auto simp: setPressed_def Let_def notify_def same_decoder_def line_inv_def)
  next
    case True
    show ?thesis
    proof (cases "typed k ?s")
      case None
      then have "k \<noteq> VK_ENTER" by (auto simp: typed_def isPressed_def split: if_splits)
      moreover have "type_key k ?s = Inr ?s" using type_key_Inr [OF inv, of k] None by simp
      ultimately show ?thesis
        using inv True by (auto simp: setPressed_def Let_def notify_def same_decoder_def line_inv_def)
    next
      case (Some b)
      with type_key_Inr [OF inv, of k] obtain c where
        "type_key k ?s = Inr (?s\<lparr>con := c, lineBuffer := (lineBuffer s)[lbLen s := b], lbLen := lbLen s + 1\<rparr>)" by auto
      then show ?thesis
        using inv True assms(2,3)
        by (auto simp: setPressed_def Let_def notify_def same_decoder_def line_inv_def end_line_def set_line_def)
    qed
  qed
qed

subsection \<open>The decoder\<close>

definition kbd_inv :: "'a kbd_scheme \<Rightarrow> bool" where
  "kbd_inv s \<longleftrightarrow> line_inv s \<and> \<not> kb_handled s \<and> (\<forall>c. scancode_table s c \<noteq> 1)"

lemma finish_key_inv:
  assumes "line_inv s" and "kb_handled s \<Longrightarrow> kb_key s \<noteq> 0 \<and> kb_key s \<noteq> 1" and "\<forall>c. scancode_table s c \<noteq> 1"
  shows "\<exists>s'. finish_key s = Inr s' \<and> kbd_inv s'"
proof (cases "kb_handled s")
  case False
  then show ?thesis using assms by (simp add: finish_key_def kbd_inv_def)
next
  case True
  with setPressed_inv [OF assms(1), of "kb_key s" "kb_pressed s"] assms(2) obtain s' where
    "setPressed (kb_key s) (kb_pressed s) s = Inr s'" "line_inv s'" "same_decoder s s'" by blast
  then show ?thesis
    using True assms(3) by (auto simp: finish_key_def kbd_inv_def line_inv_def same_decoder_def)
qed

lemma decode_inv:
  assumes "kbd_inv s"
  shows "\<exists>s'. decode b s = Inr s' \<and> kbd_inv s'"
proof (cases "b = 0xFA \<or> b = 0xFE")
  case True
  then show ?thesis using assms by (auto simp: decode_def)
next
  case False
  have inv: "line_inv s" "\<not> kb_handled s" "\<forall>c. scancode_table s c \<noteq> 1" using assms by (simp_all add: kbd_inv_def)
  have "line_inv (s\<lparr>timesToIgnore := 7, kb_key := VK_PAUSE\<rparr>)" using inv(1) by (simp add: line_inv_def)
  from setPressed_inv [OF this, of VK_PAUSE True] obtain sp where
    sp: "setPressed VK_PAUSE True (s\<lparr>timesToIgnore := 7, kb_key := VK_PAUSE\<rparr>) = Inr sp" "line_inv sp"
      "same_decoder (s\<lparr>timesToIgnore := 7, kb_key := VK_PAUSE\<rparr>) sp" by auto
  have "\<exists>s1. scan_byte b s = Inr s1 \<and> line_inv s1 \<and> (kb_handled s1 \<longrightarrow> kb_key s1 \<noteq> 0 \<and> kb_key s1 \<noteq> 1)
      \<and> scancode_table s1 = scancode_table s"
    using inv sp unfolding scan_byte_def same_decoder_def by (auto simp: line_inv_def)
  then obtain s1 where s1: "scan_byte b s = Inr s1" "line_inv s1"
    "kb_handled s1 \<longrightarrow> kb_key s1 \<noteq> 0 \<and> kb_key s1 \<noteq> 1" "scancode_table s1 = scancode_table s" by blast
  with finish_key_inv [of s1] inv(3) False show ?thesis by (simp add: decode_def)
qed

lemma decode_all_inv: "kbd_inv s \<Longrightarrow> \<exists>s'. forR decode bs s = Inr s' \<and> kbd_inv s'"
proof (induction bs arbitrary: s)
  case Nil
  then show ?case by simp
next
  case (Cons b bs)
  from decode_inv [OF Cons.prems] obtain s1 where "decode b s = Inr s1" "kbd_inv s1" by blast
  with Cons.IH [of s1] show ?case by simp
qed

subsection \<open>Typing a line\<close>

text \<open>Between two keys, with the table of \<^verbatim>\<open>setup\<close>.\<close>

definition idle :: "'a kbd_scheme \<Rightarrow> bool" where
  "idle s \<longleftrightarrow> line_inv s \<and> kb_length s = 0 \<and> kb_pressed s \<and> \<not> kb_handled s \<and> timesToIgnore s = 0
     \<and> (\<forall>c. scancode_table s c = (if unat c < 132 then KEYMAP ! unat c else 0))"

lemma keymap_not_1: "i < 132 \<Longrightarrow> KEYMAP ! i \<noteq> 1"
proof -
  have "1 \<notin> set KEYMAP" by (simp add: KEYMAP_def)
  moreover have "length KEYMAP = 132" by (simp add: KEYMAP_def)
  ultimately show "i < 132 \<Longrightarrow> KEYMAP ! i \<noteq> 1" using nth_mem by metis
qed

lemma idle_kbd_inv: "idle s \<Longrightarrow> kbd_inv s"
  by (auto simp: idle_def kbd_inv_def keymap_not_1)

text \<open>The make code of a mapped key, and its break code.\<close>

definition mapped :: "u8 \<Rightarrow> int \<Rightarrow> bool" where
  "mapped c k \<longleftrightarrow> unat c < 132 \<and> KEYMAP ! unat c = k \<and> k \<noteq> 0"

lemma mapped_plain: "mapped c k \<Longrightarrow> c \<noteq> 0xFA \<and> c \<noteq> 0xFE \<and> c \<noteq> 0xE0 \<and> c \<noteq> 0xE1 \<and> c \<noteq> 0xF0 \<and> k \<noteq> 1"
  using keymap_not_1 [of "unat c"] by (auto simp: mapped_def)

lemma decode_make:
  assumes "idle s" and "mapped c k" and "setPressed k True (s\<lparr>kb_key := k, kb_handled := True, kb_length := 1\<rparr>) = Inr s'"
  shows "decode c s = Inr (s'\<lparr>kb_length := 0, kb_pressed := True, kb_handled := False\<rparr>)"
proof -
  have "scan_byte c s = Inr (s\<lparr>kb_key := k, kb_handled := True, kb_length := 1\<rparr>)"
    using assms(1,2) mapped_plain [OF assms(2)] by (simp add: scan_byte_def idle_def mapped_def)
  then show ?thesis
    using assms mapped_plain [OF assms(2)] by (simp add: decode_def finish_key_def idle_def)
qed

lemma decode_break:
  assumes "idle s" and "mapped c k"
  shows "\<exists>s'. forR decode [0xF0, c] s = Inr s' \<and> idle s' \<and> key_press_table s' = (key_press_table s)(k := False)
    \<and> lineBuffer s' = lineBuffer s \<and> lbLen s' = lbLen s \<and> callback s' = callback s
    \<and> listener_calls s' = listener_calls s @ (if callback s then [KeyReleased k] else [])"
proof -
  let ?s1 = "s\<lparr>kb_pressed := False, kb_length := 1\<rparr>"
  have 1: "decode 0xF0 s = Inr ?s1"
    using assms(1) by (simp add: decode_def scan_byte_def finish_key_def idle_def)
  let ?s2 = "?s1\<lparr>kb_key := k, kb_handled := True, kb_length := 2\<rparr>"
  have sb: "scan_byte c ?s1 = Inr ?s2"
    using assms mapped_plain [OF assms(2)] by (simp add: scan_byte_def idle_def mapped_def)
  define s3 where "s3 = notify (KeyReleased k) (?s2\<lparr>key_press_table := (key_press_table s)(k := False)\<rparr>)"
  have "decode c ?s1 = Inr (s3\<lparr>kb_length := 0, kb_pressed := True, kb_handled := False\<rparr>)"
    using sb mapped_plain [OF assms(2)] by (simp add: decode_def finish_key_def setPressed_def s3_def)
  with 1 show ?thesis
    using assms(1) by (intro exI [of _ "s3\<lparr>kb_length := 0, kb_pressed := True, kb_handled := False\<rparr>"])
      (auto simp: s3_def notify_def idle_def line_inv_def)
qed

text \<open>A line of which \<open>cs\<close> has been typed, without Shift and with a listener.\<close>

definition typing :: "'a kbd_scheme \<Rightarrow> u8 list \<Rightarrow> bool" where
  "typing s cs \<longleftrightarrow> idle s \<and> callback s \<and> \<not> isPressed VK_SHIFT s \<and> lbLen s = length cs
     \<and> lineBuffer s = cs @ replicate (78 - length cs) 0"

lemma line_append: "length cs < 78 \<Longrightarrow> (cs @ replicate (78 - length cs) 0)[length cs := b] = (cs @ [b]) @ replicate (77 - length cs) (0 :: u8)"
proof -
  assume "length cs < 78"
  then have "78 - length cs = Suc (77 - length cs)" by simp
  then show ?thesis by simp
qed

lemma letter_typed:
  assumes "typing s cs" and "length cs < 77" and "mapped c k" and "65 \<le> k" and "k \<le> 90"
  shows "\<exists>s'. forR decode [c, 0xF0, c] s = Inr s' \<and> typing s' (cs @ [word_of_int (k + 32)])
    \<and> listener_calls s' = listener_calls s @ [KeyPressed k, KeyReleased k]"
proof -
  let ?s = "s\<lparr>kb_key := k, kb_handled := True, kb_length := 1\<rparr>"
  have id: "idle s" "callback s" "\<not> isPressed VK_SHIFT s" "lbLen s = length cs"
    "lineBuffer s = cs @ replicate (78 - length cs) 0" using assms(1) by (simp_all add: typing_def)
  let ?t = "?s\<lparr>key_press_table := (key_press_table s)(k := True)\<rparr>"
  have inv: "line_inv ?t" using id(1) assms(4) by (simp add: idle_def line_inv_def)
  have "typed k ?t = Some (word_of_int (k + 32))"
    using id(3) assms(4,5) by (simp add: typed_def isPressed_def)
  with type_key_Inr [OF inv, of k] obtain co where ty: "type_key k ?t = Inr (?t\<lparr>con := co,
      lineBuffer := (lineBuffer s)[lbLen s := word_of_int (k + 32)], lbLen := lbLen s + 1\<rparr>)" by auto
  define s1 where "s1 = notify (KeyPressed k) (?t\<lparr>con := co,
      lineBuffer := (lineBuffer s)[lbLen s := word_of_int (k + 32)], lbLen := lbLen s + 1\<rparr>)"
  have "setPressed k True ?s = Inr s1"
    using ty assms(2,4,5) id(4) by (simp add: setPressed_def s1_def notify_def)
  note mk = decode_make [OF id(1) assms(3) this]
  let ?s1 = "s1\<lparr>kb_length := 0, kb_pressed := True, kb_handled := False\<rparr>"
  have i1: "idle ?s1" using id(1,4) assms(2,4) by (simp add: s1_def notify_def idle_def line_inv_def)
  obtain s' where s': "forR decode [0xF0, c] ?s1 = Inr s'" "idle s'"
    "key_press_table s' = (key_press_table ?s1)(k := False)" "lineBuffer s' = lineBuffer ?s1" "lbLen s' = lbLen ?s1"
    "callback s' = callback ?s1"
    "listener_calls s' = listener_calls ?s1 @ (if callback ?s1 then [KeyReleased k] else [])"
    using decode_break [OF i1 assms(3)] by blast
  have "\<not> isPressed VK_SHIFT s'" using s'(3) id(3) assms(4) by (simp add: s1_def notify_def isPressed_def)
  moreover have "lineBuffer s' = (cs @ [word_of_int (k + 32)]) @ replicate (77 - length cs) 0"
    using s'(4) id(4,5) line_append [of cs] assms(2) by (simp add: s1_def notify_def)
  ultimately have "typing s' (cs @ [word_of_int (k + 32)])"
    using s'(2,5,6) id(2,4) by (simp add: typing_def s1_def notify_def)
  then show ?thesis using mk s'(1,7) id(2) by (intro exI [of _ s']) (simp add: s1_def notify_def)
qed

lemma enter_typed:
  assumes "typing s cs" and "length cs < 78"
  shows "\<exists>s'. decode 0x5A s = Inr s' \<and> typing s' []
    \<and> listener_calls s' = listener_calls s @ [KeyPressed VK_ENTER, LineEntered (cs @ replicate (78 - length cs) 0)]"
proof -
  have mp: "mapped 0x5A VK_ENTER" by (simp add: mapped_def KEYMAP_def)
  let ?s = "s\<lparr>kb_key := VK_ENTER, kb_handled := True, kb_length := 1\<rparr>"
  have id: "idle s" "callback s" "\<not> isPressed VK_SHIFT s" "lbLen s = length cs"
    "lineBuffer s = cs @ replicate (78 - length cs) 0" using assms(1) by (simp_all add: typing_def)
  let ?t = "?s\<lparr>key_press_table := (key_press_table s)(VK_ENTER := True)\<rparr>"
  have inv: "line_inv ?t" using id(1) by (simp add: idle_def line_inv_def)
  have "typed VK_ENTER ?t = Some 0x0D" by (simp add: typed_def)
  with type_key_Inr [OF inv, of VK_ENTER] obtain co where ty: "type_key VK_ENTER ?t = Inr (?t\<lparr>con := co,
      lineBuffer := (lineBuffer s)[lbLen s := 0x0D], lbLen := lbLen s + 1\<rparr>)" by auto
  have reset: "(lineBuffer s)[length cs := 0x0D, length cs := 0] = lineBuffer s"
  proof -
    have "lineBuffer s ! length cs = 0" using id(5) assms(2) by (simp add: nth_append)
    then show ?thesis by (metis list_update_id list_update_overwrite)
  qed
  define s1 where "s1 = ?t\<lparr>con := co, lineBuffer := replicate 78 0, lbLen := 0,
      listener_calls := listener_calls s @ [KeyPressed VK_ENTER, LineEntered (cs @ replicate (78 - length cs) 0)]\<rparr>"
  have "setPressed VK_ENTER True ?s = Inr s1"
    using ty assms(2) id(2,4) reset id(5) by (simp add: setPressed_def s1_def notify_def end_line_def set_line_def)
  note mk = decode_make [OF id(1) mp this]
  have "typing (s1\<lparr>kb_length := 0, kb_pressed := True, kb_handled := False\<rparr>) []"
    using id(1-3) by (simp add: typing_def s1_def idle_def line_inv_def isPressed_def)
  then show ?thesis using mk by (simp add: s1_def)
qed

lemma letters_typed:
  assumes "typing s cs" and "length cs + length ks < 78" and "\<forall>(c, k)\<in>set ks. mapped c k \<and> 65 \<le> k \<and> k \<le> 90"
  shows "\<exists>s'. forR decode (concat (map (\<lambda>(c, k). [c, 0xF0, c]) ks)) s = Inr s'
    \<and> typing s' (cs @ map (\<lambda>(c, k). word_of_int (k + 32)) ks)
    \<and> listener_calls s' = listener_calls s @ concat (map (\<lambda>(c, k). [KeyPressed k, KeyReleased k]) ks)"
  using assms
proof (induction ks arbitrary: s cs)
  case Nil
  then show ?case by simp
next
  case (Cons ck ks)
  obtain c k where ck: "ck = (c, k)" by force
  have "length cs < 77" "mapped c k" "65 \<le> k" "k \<le> 90" using Cons.prems ck by auto
  from letter_typed [OF Cons.prems(1) this] obtain s1 where s1: "forR decode [c, 0xF0, c] s = Inr s1"
    "typing s1 (cs @ [word_of_int (k + 32)])" "listener_calls s1 = listener_calls s @ [KeyPressed k, KeyReleased k]"
    by blast
  obtain s' where s': "forR decode (concat (map (\<lambda>(c, k). [c, 0xF0, c]) ks)) s1 = Inr s'"
    "typing s' ((cs @ [word_of_int (k + 32)]) @ map (\<lambda>(c, k). word_of_int (k + 32)) ks)"
    "listener_calls s' = listener_calls s1 @ concat (map (\<lambda>(c, k). [KeyPressed k, KeyReleased k]) ks)"
    using Cons.IH [OF s1(2)] Cons.prems by auto
  have "forR decode ([c, 0xF0, c] @ concat (map (\<lambda>(c, k). [c, 0xF0, c]) ks)) s = Inr s'"
    unfolding forR_append by (simp only: s1(1) bindR_simps s'(1))
  then show ?case using s' s1(3) ck by (intro exI [of _ s']) simp
qed

subsection \<open>Lost keys\<close>

lemma printscreen_pressed:
  assumes "idle s"
  shows "\<exists>s'. forR decode [0xE0, 0x12, 0xE0, 0x7C] s = Inr s'
    \<and> idle (s'\<lparr>kb_length := 0\<rparr>) \<and> kb_length s' = 2 \<and> key_press_table s' = (key_press_table s)(VK_PRINTSCREEN := True)"
proof -
  let ?k = VK_PRINTSCREEN
  define s1 where "s1 = s\<lparr>kb_length := 1\<rparr>"
  have 1: "decode 0xE0 s = Inr s1"
    using assms by (simp add: decode_def scan_byte_def finish_key_def idle_def s1_def)
  define s2 where "s2 = s1\<lparr>timesToIgnore := 2, kb_key := ?k, kb_handled := True, kb_length := 2\<rparr>"
  have sb: "scan_byte 0x12 s1 = Inr s2" using assms by (simp add: scan_byte_def idle_def s1_def s2_def)
  have "line_inv s2" using assms by (simp add: idle_def line_inv_def s1_def s2_def)
  from setPressed_inv [OF this, of ?k True] obtain s3 where s3: "setPressed ?k True s2 = Inr s3" "line_inv s3"
    "same_decoder s2 s3" "key_press_table s3 = (key_press_table s2)(?k := True)" by auto
  define s4 where "s4 = s3\<lparr>kb_length := 0, kb_pressed := True, kb_handled := False\<rparr>"
  have 2: "decode 0x12 s1 = Inr s4"
    using sb s3(1) assms by (simp add: decode_def finish_key_def s2_def s4_def s1_def idle_def)
  have f4: "timesToIgnore s4 = 2" "\<not> kb_handled s4" "kb_length s4 = 0"
    using s3(3) by (simp_all add: s4_def same_decoder_def s2_def)
  define s6 where "s6 = s4\<lparr>timesToIgnore := 0, kb_length := 2\<rparr>"
  have 34: "forR decode [0xE0, 0x7C] s4 = Inr s6"
    using f4 by (simp add: decode_def scan_byte_def finish_key_def s6_def)
  have "idle (s6\<lparr>kb_length := 0\<rparr>)"
    using assms s3(2,3) by (simp add: s6_def s4_def idle_def line_inv_def same_decoder_def s2_def s1_def)
  moreover have "key_press_table s6 = (key_press_table s)(?k := True)"
    using s3(4) by (simp add: s6_def s4_def s2_def s1_def)
  ultimately show ?thesis using 1 2 34 by (intro exI [of _ s6]) (simp add: s6_def)
qed

lemma printscreen_released:
  assumes "idle (s\<lparr>kb_length := 0\<rparr>)" and "kb_length s = 2"
  shows "\<exists>s'. forR decode [0xE0, 0xF0, 0x7C, 0xE0, 0xF0, 0x12] s = Inr s'
    \<and> key_press_table s' = (key_press_table s)(VK_MULTIPLY := False, VK_SHIFT := False)"
proof -
  have tab: "scancode_table s 0x7C = VK_MULTIPLY" "scancode_table s 0x12 = VK_SHIFT"
    using assms(1) by (simp_all add: idle_def KEYMAP_def)
  define s2 where "s2 = s\<lparr>kb_length := 4, kb_pressed := False\<rparr>"
  have 12: "forR decode [0xE0, 0xF0] s = Inr s2"
    using assms by (simp add: decode_def scan_byte_def finish_key_def idle_def s2_def)
  define s3 where "s3 = notify (KeyReleased VK_MULTIPLY) (s2\<lparr>kb_key := VK_MULTIPLY, kb_handled := True, kb_length := 5,
      key_press_table := (key_press_table s)(VK_MULTIPLY := False)\<rparr>)"
  define s4 where "s4 = s3\<lparr>kb_length := 0, kb_pressed := True, kb_handled := False\<rparr>"
  have 3: "decode 0x7C s2 = Inr s4"
    using assms tab by (simp add: decode_def scan_byte_def finish_key_def idle_def s2_def setPressed_def s3_def s4_def)
  have f4: "timesToIgnore s4 = 0" "\<not> kb_handled s4" "kb_length s4 = 0" "scancode_table s4 0x12 = VK_SHIFT"
    using assms tab by (simp_all add: s4_def s3_def s2_def notify_def idle_def)
  define s6 where "s6 = s4\<lparr>kb_length := 2, kb_pressed := False\<rparr>"
  have 45: "forR decode [0xE0, 0xF0] s4 = Inr s6"
    using f4 by (simp add: decode_def scan_byte_def finish_key_def s6_def)
  have "\<exists>s'. decode 0x12 s6 = Inr s' \<and> key_press_table s' = (key_press_table s4)(VK_SHIFT := False)"
    using f4 by (simp add: decode_def scan_byte_def finish_key_def s6_def setPressed_def notify_def Let_def)
  then show ?thesis using 12 3 45 by (auto simp: s4_def s3_def s2_def notify_def)
qed

lemma unmapped_break:
  assumes "idle s" and "\<forall>k. \<not> mapped c k" and "c \<notin> {0xFA, 0xFE, 0xE0, 0xE1, 0xF0}" and "mapped d k" and "d \<noteq> 0x7C"
  shows "\<exists>s'. forR decode [0xF0, c, d] s = Inr s' \<and> idle s' \<and> key_press_table s' = (key_press_table s)(k := False)
    \<and> lineBuffer s' = lineBuffer s \<and> lbLen s' = lbLen s
    \<and> listener_calls s' = listener_calls s @ (if callback s then [KeyReleased k] else [])"
proof -
  have c: "scancode_table s c = 0" "c \<noteq> 0x12" "c \<noteq> 0x7C"
    using assms(1,2) by (auto simp: idle_def mapped_def KEYMAP_def)
  have d: "scancode_table s d = k" "k \<noteq> 0" using assms(1,4) by (auto simp: idle_def mapped_def)
  define s2 where "s2 = s\<lparr>kb_pressed := False, kb_length := 2\<rparr>"
  have 12: "forR decode [0xF0, c] s = Inr s2"
    using assms(1,3) c by (simp add: decode_def scan_byte_def finish_key_def idle_def s2_def)
  define s3 where "s3 = notify (KeyReleased k) (s2\<lparr>kb_key := k, kb_handled := True, kb_length := 3,
      key_press_table := (key_press_table s)(k := False)\<rparr>)"
  have 3: "decode d s2 = Inr (s3\<lparr>kb_length := 0, kb_pressed := True, kb_handled := False\<rparr>)"
    using assms(1,5) d mapped_plain [OF assms(4)]
    by (simp add: decode_def scan_byte_def finish_key_def idle_def s2_def setPressed_def s3_def)
  show ?thesis
    using 12 3 assms(1) by (intro exI [of _ "s3\<lparr>kb_length := 0, kb_pressed := True, kb_handled := False\<rparr>"])
      (auto simp: s3_def s2_def notify_def idle_def line_inv_def)
qed

subsection \<open>Properties\<close>

definition demo_kbd :: kbd where
  "demo_kbd = sched.extend demo_sched (kbd.fields True [] (replicate 78 0) 0 (\<lambda>_. False)
     (\<lambda>c. if unat c < 132 then KEYMAP ! unat c else 0) 0 True False 0 0)"

lemma demo_kbd_idle: "idle demo_kbd" "typing demo_kbd []" "key_press_table demo_kbd = (\<lambda>_. False)"
  "listener_calls demo_kbd = []" "callback demo_kbd"
  by (simp_all add: demo_kbd_def idle_def typing_def line_inv_def isPressed_def sched.defs kbd.defs)

text \<open>C22: Whatever bytes the keyboard sends, in whatever order, the driver handles them without an access
  outside its line buffer of 78 characters, and every key event is finished before the next byte.\<close>

theorem scan_codes_stay_in_line_buffer:
  assumes "kbd_inv s"
  shows "\<exists>s'. forR decode bs s = Inr s' \<and> kbd_inv s' \<and> lbLen s' < 78 \<and> length (lineBuffer s') = 78"
  using decode_all_inv [OF assms, of bs] by (auto simp: kbd_inv_def line_inv_def)

lemma scan_codes_stay_in_line_buffer_witness:
  "\<exists>s'. forR decode (replicate 1000 0x1C) demo_kbd = Inr s' \<and> lbLen s' < 78"
  using scan_codes_stay_in_line_buffer [OF idle_kbd_inv [OF demo_kbd_idle(1)]] by blast



text \<open>Print Screen never comes up again: the two ignored bytes of its make code leave the byte counter
  at 2, so the break code is taken for the release of two other keys.\<close>

theorem printscreen_stays_pressed:
  assumes "idle s"
  shows "\<exists>s'. forR decode ([0xE0, 0x12, 0xE0, 0x7C] @ [0xE0, 0xF0, 0x7C, 0xE0, 0xF0, 0x12]) s = Inr s'
    \<and> isPressed VK_PRINTSCREEN s'
    \<and> key_press_table s' = (key_press_table s)(VK_PRINTSCREEN := True, VK_MULTIPLY := False, VK_SHIFT := False)"
proof -
  obtain s1 where s1: "forR decode [0xE0, 0x12, 0xE0, 0x7C] s = Inr s1" "idle (s1\<lparr>kb_length := 0\<rparr>)"
    "kb_length s1 = 2" "key_press_table s1 = (key_press_table s)(VK_PRINTSCREEN := True)"
    using printscreen_pressed [OF assms] by blast
  obtain s' where "forR decode [0xE0, 0xF0, 0x7C, 0xE0, 0xF0, 0x12] s1 = Inr s'"
    "key_press_table s' = (key_press_table s1)(VK_MULTIPLY := False, VK_SHIFT := False)"
    using printscreen_released [OF s1(2,3)] by blast
  then show ?thesis
    unfolding forR_append s1(1) bindR_simps using s1(4) by (auto simp del: forR.simps simp: isPressed_def)
qed

lemma printscreen_stays_pressed_witness:
  "\<exists>s'. forR decode ([0xE0, 0x12, 0xE0, 0x7C] @ [0xE0, 0xF0, 0x7C, 0xE0, 0xF0, 0x12]) demo_kbd = Inr s'
    \<and> isPressed VK_PRINTSCREEN s'"
  using printscreen_stays_pressed [OF demo_kbd_idle(1)] by blast

text \<open>After the release of a key without a mapping, the next key press is taken for a release: the key
  is not marked pressed and types nothing.\<close>

theorem unmapped_release_swallows_press:
  assumes "idle s" and "\<forall>k. \<not> mapped c k" and "c \<notin> {0xFA, 0xFE, 0xE0, 0xE1, 0xF0}" and "mapped d k" and "d \<noteq> 0x7C"
  shows "\<exists>s'. forR decode [0xF0, c, d] s = Inr s' \<and> idle s' \<and> key_press_table s' = (key_press_table s)(k := False)
    \<and> lineBuffer s' = lineBuffer s \<and> lbLen s' = lbLen s
    \<and> listener_calls s' = listener_calls s @ (if callback s then [KeyReleased k] else [])"
  by (rule unmapped_break [OF assms])

lemma unmapped_release_swallows_press_witness:
  "\<exists>s'. forR decode [0xF0, 0x1F, 0x1C] demo_kbd = Inr s' \<and> listener_calls s' = [KeyReleased VK_A]"
proof -
  have "\<forall>k. \<not> mapped 0x1F k" "mapped 0x1C VK_A" by (simp_all add: mapped_def KEYMAP_def)
  then show ?thesis
    using unmapped_release_swallows_press [OF demo_kbd_idle(1), of "0x1F" "0x1C" VK_A] demo_kbd_idle(4,5) by auto
qed

end
