(* ===== verification/IntStubs.thy ===== *)
theory IntStubs
  imports Isr
begin

text \<open>
  The assembly around the handlers: the interrupt stubs of \<^verbatim>\<open>code/Interrupts.s\<close>, as lists of
  instructions over the registers of the processor and a byte-addressed stack, and
  \<^verbatim>\<open>switch_to_user_mode\<close> of \<^verbatim>\<open>kmain.cpp\<close>. A handler is a parameter: it is called with the record
  \<^verbatim>\<open>registers_t\<close> at the top of the stack. The return address of the call lies below that record only
  while the handler runs and is not modelled. Proved here: what the handler is told, and that a handler that
  leaves the record alone is transparent to the interrupted code but for the extra segment registers.
\<close>

subsection \<open>The processor\<close>

record cpu =
  r_eax :: u32
  r_ebx :: u32
  r_ecx :: u32
  r_edx :: u32
  r_esi :: u32
  r_edi :: u32
  r_ebp :: u32
  r_esp :: u32
  r_ds :: u16
  r_es :: u16
  r_fs :: u16
  r_gs :: u16
  r_ss :: u16
  r_cs :: u16
  r_eip :: u32
  r_eflags :: u32
  ram :: mem

text \<open>\<^verbatim>\<open>struct registers\<close>.\<close>

record registers =
  g_ds :: u32
  g_edi :: u32
  g_esi :: u32
  g_ebp :: u32
  g_esp :: u32
  g_ebx :: u32
  g_edx :: u32
  g_ecx :: u32
  g_eax :: u32
  int_no :: u32
  err_code :: u32
  g_eip :: u32
  g_cs :: u32
  g_eflags :: u32
  useresp :: u32
  g_ss :: u32

definition regs_at :: "mem \<Rightarrow> u32 \<Rightarrow> registers" where
  "regs_at m p =
     \<lparr>g_ds = load32 m p, g_edi = load32 m (p + 4), g_esi = load32 m (p + 8), g_ebp = load32 m (p + 12),
      g_esp = load32 m (p + 16), g_ebx = load32 m (p + 20), g_edx = load32 m (p + 24), g_ecx = load32 m (p + 28),
      g_eax = load32 m (p + 32), int_no = load32 m (p + 36), err_code = load32 m (p + 40),
      g_eip = load32 m (p + 44), g_cs = load32 m (p + 48), g_eflags = load32 m (p + 52),
      useresp = load32 m (p + 56), g_ss = load32 m (p + 60)\<rparr>"

subsection \<open>Instructions\<close>

datatype seg = DS | ES | FS | GS

datatype instr =
    CLI
  | STI
  | PUSH u32
  | PUSH_EAX
  | PUSHF
  | POP_EAX
  | POP_EBX
  | PUSHA
  | POPA
  | MOV_AX u16
  | MOV_AX_DS
  | MOV_EAX_ESP
  | MOV_SEG_AX seg
  | MOV_SEG_BX seg
  | ADD_ESP u32
  | CALL_HANDLER
  | IRET
  | RET

definition push :: "u32 \<Rightarrow> cpu \<Rightarrow> cpu" where
  "push v c = c\<lparr>r_esp := r_esp c - 4, ram := store32 (ram c) (r_esp c - 4) v\<rparr>"

definition top :: "cpu \<Rightarrow> u32" where "top c = load32 (ram c) (r_esp c)"
definition drop_top :: "cpu \<Rightarrow> cpu" where "drop_top c = c\<lparr>r_esp := r_esp c + 4\<rparr>"

definition pusha :: "cpu \<Rightarrow> cpu" where
  "pusha c =
     (let sp = r_esp c
      in push (r_edi c) (push (r_esi c) (push (r_ebp c) (push sp
           (push (r_ebx c) (push (r_edx c) (push (r_ecx c) (push (r_eax c) c))))))))"

definition popa :: "cpu \<Rightarrow> cpu" where
  "popa c =
     (let c = drop_top (c\<lparr>r_edi := top c\<rparr>);
          c = drop_top (c\<lparr>r_esi := top c\<rparr>);
          c = drop_top (c\<lparr>r_ebp := top c\<rparr>);
          c = drop_top c;
          c = drop_top (c\<lparr>r_ebx := top c\<rparr>);
          c = drop_top (c\<lparr>r_edx := top c\<rparr>);
          c = drop_top (c\<lparr>r_ecx := top c\<rparr>)
      in drop_top (c\<lparr>r_eax := top c\<rparr>))"

definition set_ax :: "u16 \<Rightarrow> u32 \<Rightarrow> u32" where
  "set_ax v e = (e AND 0xFFFF0000) OR ucast v"

fun set_seg :: "seg \<Rightarrow> u16 \<Rightarrow> cpu \<Rightarrow> cpu" where
  "set_seg DS v c = c\<lparr>r_ds := v\<rparr>"
| "set_seg ES v c = c\<lparr>r_es := v\<rparr>"
| "set_seg FS v c = c\<lparr>r_fs := v\<rparr>"
| "set_seg GS v c = c\<lparr>r_gs := v\<rparr>"

text \<open>\<^verbatim>\<open>iret\<close>: three words, and two more when the privilege level of the code segment drops.\<close>

definition iret :: "cpu \<Rightarrow> cpu" where
  "iret c =
     (let cpl = r_cs c AND 3;
          c = drop_top (c\<lparr>r_eip := top c\<rparr>);
          c = drop_top (c\<lparr>r_cs := ucast (top c)\<rparr>);
          c = drop_top (c\<lparr>r_eflags := top c\<rparr>)
      in if cpl < r_cs c AND 3
         then let sp = top c in c\<lparr>r_esp := sp, r_ss := ucast (top (drop_top c))\<rparr>
         else c)"

fun exec :: "(registers \<Rightarrow> cpu \<Rightarrow> kerror + cpu) \<Rightarrow> instr \<Rightarrow> cpu \<Rightarrow> kerror + cpu" where
  "exec h CLI c = Inr (c\<lparr>r_eflags := r_eflags c AND NOT 0x200\<rparr>)"
| "exec h STI c = Inr (c\<lparr>r_eflags := r_eflags c OR 0x200\<rparr>)"
| "exec h (PUSH v) c = Inr (push v c)"
| "exec h PUSH_EAX c = Inr (push (r_eax c) c)"
| "exec h PUSHF c = Inr (push (r_eflags c) c)"
| "exec h POP_EAX c = Inr (drop_top (c\<lparr>r_eax := top c\<rparr>))"
| "exec h POP_EBX c = Inr (drop_top (c\<lparr>r_ebx := top c\<rparr>))"
| "exec h PUSHA c = Inr (pusha c)"
| "exec h POPA c = Inr (popa c)"
| "exec h (MOV_AX v) c = Inr (c\<lparr>r_eax := set_ax v (r_eax c)\<rparr>)"
| "exec h MOV_AX_DS c = Inr (c\<lparr>r_eax := set_ax (r_ds c) (r_eax c)\<rparr>)"
| "exec h MOV_EAX_ESP c = Inr (c\<lparr>r_eax := r_esp c\<rparr>)"
| "exec h (MOV_SEG_AX g) c = Inr (set_seg g (ucast (r_eax c)) c)"
| "exec h (MOV_SEG_BX g) c = Inr (set_seg g (ucast (r_ebx c)) c)"
| "exec h (ADD_ESP v) c = Inr (c\<lparr>r_esp := r_esp c + v\<rparr>)"
| "exec h CALL_HANDLER c = h (regs_at (ram c) (r_esp c)) c"
| "exec h IRET c = Inr (iret c)"
| "exec h RET c = Inr (drop_top (c\<lparr>r_eip := top c\<rparr>))"

subsection \<open>The stubs\<close>

definition save_context :: "instr list" where
  "save_context = [PUSHA, MOV_AX_DS, PUSH_EAX, MOV_AX 0x10, MOV_SEG_AX DS, MOV_SEG_AX ES, MOV_SEG_AX FS, MOV_SEG_AX GS]"

definition irq_common_stub :: "instr list" where
  "irq_common_stub = save_context @ [CALL_HANDLER,
     POP_EBX, MOV_SEG_BX DS, MOV_SEG_BX ES, MOV_SEG_BX FS, MOV_SEG_BX GS, POPA, ADD_ESP 8, STI, IRET]"

definition isr_common_stub :: "instr list" where
  "isr_common_stub = save_context @ [CALL_HANDLER,
     POP_EAX, MOV_SEG_AX DS, MOV_SEG_AX ES, MOV_SEG_AX FS, MOV_SEG_AX GS, POPA, ADD_ESP 8, STI, IRET]"

definition irq_stub :: "nat \<Rightarrow> instr list" where
  "irq_stub n = [CLI, PUSH 0, PUSH (of_nat (n + 32))] @ irq_common_stub"

text \<open>The vectors for which the processor pushes an error code itself.\<close>

definition has_errcode :: "nat \<Rightarrow> bool" where "has_errcode n \<longleftrightarrow> n \<in> {8, 10, 11, 12, 13, 14}"

definition isr_stub :: "nat \<Rightarrow> instr list" where
  "isr_stub n = (if has_errcode n then [CLI, PUSH (of_nat n)] else [CLI, PUSH 0, PUSH (of_nat n)]) @ isr_common_stub"

definition read_eip :: "instr list" where "read_eip = [POP_EAX, PUSH_EAX, RET]"

text \<open>What the processor does through an interrupt gate without a change of privilege.\<close>

definition deliver :: "u32 \<Rightarrow> u32 option \<Rightarrow> cpu \<Rightarrow> cpu" where
  "deliver gate err c =
     (let c' = push (r_eip c) (push (ucast (r_cs c)) (push (r_eflags c) c));
          c' = (case err of None \<Rightarrow> c' | Some e \<Rightarrow> push e c')
      in c'\<lparr>r_eip := gate, r_eflags := r_eflags c AND NOT 0x200\<rparr>)"

text \<open>\<^verbatim>\<open>switch_to_user_mode\<close>; \<open>label\<close> is the address of its local label.\<close>

definition switch_to_user_mode :: "u32 \<Rightarrow> instr list" where
  "switch_to_user_mode label =
     [MOV_AX 0x23, MOV_SEG_AX DS, MOV_SEG_AX ES, MOV_SEG_AX FS, MOV_SEG_AX GS,
      MOV_EAX_ESP, PUSH 0x23, PUSH_EAX, PUSHF, PUSH 0x1B, PUSH label, IRET]"

subsection \<open>The stack as a list of words\<close>

definition stack_at :: "mem \<Rightarrow> u32 \<Rightarrow> u32 list \<Rightarrow> bool" where
  "stack_at m p ws \<longleftrightarrow> length ws < 1000 \<and> (\<forall>i<length ws. load32 m (p + 4 * of_nat i) = ws ! i)"

lemma stack_push:
  assumes "stack_at m p ws" and "length ws < 999"
  shows "stack_at (store32 m (p - 4) v) (p - 4) (v # ws)"
  unfolding stack_at_def
proof (intro conjI allI impI)
  show "length (v # ws) < 1000" using assms(2) by simp
  fix i assume i: "i < length (v # ws)"
  show "load32 (store32 m (p - 4) v) (p - 4 + 4 * of_nat i) = (v # ws) ! i"
  proof (cases i)
    case 0
    then show ?thesis by (simp add: load32_store32_same)
  next
    case (Suc j)
    have "apart32 (p - 4 + 4 * of_nat 0) (p - 4 + 4 * of_nat (Suc j))"
      by (rule cells_apart) (use i Suc assms(2) in simp_all)
    then have "load32 (store32 m (p - 4) v) (p - 4 + 4 * of_nat (Suc j)) = load32 m (p - 4 + 4 * of_nat (Suc j))"
      by (intro load32_store32_apart) simp
    also have "p - 4 + 4 * of_nat (Suc j) = p + 4 * of_nat j" by simp
    finally show ?thesis using assms(1) i Suc by (simp add: stack_at_def)
  qed
qed

lemma stack_pop:
  assumes "stack_at m p (v # ws)"
  shows "load32 m p = v" and "stack_at m (p + 4) ws"
proof -
  show "load32 m p = v" using assms by (auto simp: stack_at_def dest: spec [of _ 0])
  have "load32 m (p + 4 + 4 * of_nat j) = ws ! j" if "j < length ws" for j
    using that assms by (auto simp: stack_at_def add.assoc dest: spec [of _ "Suc j"])
  then show "stack_at m (p + 4) ws" using assms by (simp add: stack_at_def)
qed

definition stacked :: "cpu \<Rightarrow> u32 list \<Rightarrow> bool" where
  "stacked c ws \<longleftrightarrow> stack_at (ram c) (r_esp c) ws"

lemma stacked_Nil [simp]: "stacked c []" by (simp add: stacked_def stack_at_def)

lemma stacked_push: "stacked c ws \<Longrightarrow> length ws < 999 \<Longrightarrow> stacked (push v c) (v # ws)"
  using stack_push by (simp add: stacked_def push_def)

lemma stacked_top: "stacked c (v # ws) \<Longrightarrow> top c = v"
  using stack_pop(1) by (simp add: stacked_def top_def)

lemma stacked_drop: "stacked c (v # ws) \<Longrightarrow> stacked (drop_top c) ws"
  using stack_pop(2) by (simp add: stacked_def drop_top_def)

lemma push_fields [simp]:
  "r_eax (push v c) = r_eax c" "r_ebx (push v c) = r_ebx c" "r_ecx (push v c) = r_ecx c" "r_edx (push v c) = r_edx c"
  "r_esi (push v c) = r_esi c" "r_edi (push v c) = r_edi c" "r_ebp (push v c) = r_ebp c" "r_esp (push v c) = r_esp c - 4"
  "r_ds (push v c) = r_ds c" "r_es (push v c) = r_es c" "r_fs (push v c) = r_fs c" "r_gs (push v c) = r_gs c"
  "r_ss (push v c) = r_ss c" "r_cs (push v c) = r_cs c" "r_eip (push v c) = r_eip c" "r_eflags (push v c) = r_eflags c"
  by (simp_all add: push_def)

lemma stacked_regs [simp]:
  "stacked (c\<lparr>r_eax := w\<rparr>) ws = stacked c ws" "stacked (c\<lparr>r_ebx := w\<rparr>) ws = stacked c ws"
  "stacked (c\<lparr>r_ecx := w\<rparr>) ws = stacked c ws" "stacked (c\<lparr>r_edx := w\<rparr>) ws = stacked c ws"
  "stacked (c\<lparr>r_esi := w\<rparr>) ws = stacked c ws" "stacked (c\<lparr>r_edi := w\<rparr>) ws = stacked c ws"
  "stacked (c\<lparr>r_ebp := w\<rparr>) ws = stacked c ws" "stacked (c\<lparr>r_ds := g\<rparr>) ws = stacked c ws"
  "stacked (c\<lparr>r_es := g\<rparr>) ws = stacked c ws" "stacked (c\<lparr>r_fs := g\<rparr>) ws = stacked c ws"
  "stacked (c\<lparr>r_gs := g\<rparr>) ws = stacked c ws" "stacked (c\<lparr>r_cs := g\<rparr>) ws = stacked c ws"
  "stacked (c\<lparr>r_eip := w\<rparr>) ws = stacked c ws" "stacked (c\<lparr>r_eflags := w\<rparr>) ws = stacked c ws"
  by (simp_all add: stacked_def)

lemma set_ax_low [simp]: "ucast (set_ax v e) = v"
proof (rule bit_word_eqI)
  fix n :: nat assume n: "n < LENGTH(16)"
  have "(0xFFFF0000 :: u32) = push_bit 16 0xFFFF" by simp
  then have "\<not> bit (0xFFFF0000 :: u32) n" using n by (simp only: bit_push_bit_iff) simp
  then show "bit (ucast (set_ax v e) :: u16) n = bit v n" using n by (simp add: set_ax_def bit_simps)
qed

lemma ucast_selector [simp]: "ucast (ucast g :: u32) = (g :: u16)"
  by (rule bit_word_eqI) (simp add: bit_simps)

text \<open>The record that the handler is called with, as words.\<close>

definition frame_words :: "cpu \<Rightarrow> u32 \<Rightarrow> u32 \<Rightarrow> u32 list" where
  "frame_words c no err =
     [set_ax (r_ds c) (r_eax c), r_edi c, r_esi c, r_ebp c, r_esp c - 20, r_ebx c, r_edx c, r_ecx c, r_eax c,
      no, err, r_eip c, ucast (r_cs c), r_eflags c]"

text \<open>The state at the call of the handler.\<close>

definition at_handler :: "u32 \<Rightarrow> u32 \<Rightarrow> u32 \<Rightarrow> cpu \<Rightarrow> cpu" where
  "at_handler gate no err c =
     (fold push (rev (frame_words c no err)) c)
       \<lparr>r_eip := gate, r_eflags := r_eflags c AND NOT 0x200, r_eax := set_ax 0x10 (set_ax (r_ds c) (r_eax c)),
        r_ds := 0x10, r_es := 0x10, r_fs := 0x10, r_gs := 0x10\<rparr>"

lemma stacked_fold: "length ws < 999 \<Longrightarrow> stacked (fold push (rev ws) c) ws"
  by (induction ws) (simp_all add: stacked_push)

lemma at_handler_stacked: "stacked (at_handler gate no err c) (frame_words c no err)"
  unfolding at_handler_def by (simp only: stacked_regs) (rule stacked_fold, simp add: frame_words_def)

lemma stacked_regs_at:
  assumes "stacked c [ds, edi, esi, ebp, sp, ebx, edx, ecx, eax, no, err, ip, code, fl]"
  shows "regs_at (ram c) (r_esp c) = \<lparr>g_ds = ds, g_edi = edi, g_esi = esi, g_ebp = ebp, g_esp = sp, g_ebx = ebx,
    g_edx = edx, g_ecx = ecx, g_eax = eax, int_no = no, err_code = err, g_eip = ip, g_cs = code, g_eflags = fl,
    useresp = load32 (ram c) (r_esp c + 56), g_ss = load32 (ram c) (r_esp c + 60)\<rparr>"
proof -
  have w: "load32 (ram c) (r_esp c + 4 * of_nat i) = [ds, edi, esi, ebp, sp, ebx, edx, ecx, eax, no, err, ip, code, fl] ! i"
    if "i < 14" for i using assms that by (simp add: stacked_def stack_at_def)
  show ?thesis
    using w [of 0] w [of 1] w [of 2] w [of 3] w [of 4] w [of 5] w [of 6] w [of 7] w [of 8] w [of 9] w [of 10]
      w [of 11] w [of 12] w [of 13]
    by (simp add: regs_at_def)
qed

lemma save_context_run:
  assumes "c0 = deliver gate err c"
  shows "forR (exec h) (CLI # (if err = None then [PUSH 0, PUSH no] else [PUSH no]) @ save_context) c0
    = Inr (at_handler gate no (case err of None \<Rightarrow> 0 | Some e \<Rightarrow> e) c)"
  using assms
  by (cases err) (simp_all add: deliver_def Let_def save_context_def pusha_def at_handler_def frame_words_def,
      simp_all add: push_def)


lemma stacked_words:
  assumes "stacked c ws"
  shows "i < length ws \<Longrightarrow> load32 (ram c) (r_esp c + 4 * of_nat i) = ws ! i"
  using assms by (simp add: stacked_def stack_at_def)

text \<open>
  The interrupted program goes on with all its registers, but for the three segment registers that are
  loaded with the data segment; memory is as the handler left it.
\<close>

definition resumed :: "cpu \<Rightarrow> cpu \<Rightarrow> cpu" where
  "resumed c2 c =
     c2\<lparr>r_eax := r_eax c, r_ebx := r_ebx c, r_ecx := r_ecx c, r_edx := r_edx c, r_esi := r_esi c, r_edi := r_edi c,
        r_ebp := r_ebp c, r_esp := r_esp c, r_ds := r_ds c, r_es := r_ds c, r_fs := r_ds c, r_gs := r_ds c,
        r_eip := r_eip c, r_cs := r_cs c, r_eflags := r_eflags c\<rparr>"

lemma restore_run:
  assumes "stacked c2 (frame_words c no err)" and "r_cs c2 = r_cs c" and "r_esp c2 = r_esp c - 56"
  shows "forR (exec h) [POP_EBX, MOV_SEG_BX DS, MOV_SEG_BX ES, MOV_SEG_BX FS, MOV_SEG_BX GS, POPA, ADD_ESP 8, STI, IRET] c2
      = Inr (resumed c2 c)"
    and "forR (exec h) [POP_EAX, MOV_SEG_AX DS, MOV_SEG_AX ES, MOV_SEG_AX FS, MOV_SEG_AX GS, POPA, ADD_ESP 8, STI, IRET] c2
      = Inr (resumed c2 c)"
proof -
  have w: "load32 (ram c2) (4 * of_nat i + r_esp c2) = frame_words c no err ! i" if "i < 14" for i
    using stacked_words [OF assms(1), of i] that by (simp add: frame_words_def add.commute)
  have sp: "r_esp c = r_esp c2 + 56" using assms(3) by simp
  note ws = w [of 0] w [of 1] w [of 2] w [of 3] w [of 5] w [of 6] w [of 7] w [of 8] w [of 11] w [of 12] w [of 13]
  show "forR (exec h) [POP_EBX, MOV_SEG_BX DS, MOV_SEG_BX ES, MOV_SEG_BX FS, MOV_SEG_BX GS, POPA, ADD_ESP 8, STI, IRET] c2
      = Inr (resumed c2 c)"
    using ws assms(2) sp by (simp add: popa_def iret_def drop_top_def top_def Let_def resumed_def frame_words_def add.commute)
  show "forR (exec h) [POP_EAX, MOV_SEG_AX DS, MOV_SEG_AX ES, MOV_SEG_AX FS, MOV_SEG_AX GS, POPA, ADD_ESP 8, STI, IRET] c2
      = Inr (resumed c2 c)"
    using ws assms(2) sp by (simp add: popa_def iret_def drop_top_def top_def Let_def resumed_def frame_words_def add.commute)
qed


lemma stub_run:
  assumes "h (regs_at (ram (at_handler gate no (case err of None \<Rightarrow> 0 | Some e \<Rightarrow> e) c)) (r_esp c - 56))
      (at_handler gate no (case err of None \<Rightarrow> 0 | Some e \<Rightarrow> e) c) = Inr c2"
    and "r_esp c2 = r_esp c - 56" and "r_cs c2 = r_cs c"
    and "stacked c2 (frame_words c no (case err of None \<Rightarrow> 0 | Some e \<Rightarrow> e))"
    and "stub = irq_common_stub \<or> stub = isr_common_stub"
  shows "forR (exec h) (CLI # (if err = None then [PUSH 0, PUSH no] else [PUSH no]) @ stub) (deliver gate err c)
    = Inr (resumed c2 c)"
proof -
  let ?c1 = "at_handler gate no (case err of None \<Rightarrow> 0 | Some e \<Rightarrow> e) c"
  let ?pre = "CLI # (if err = None then [PUSH 0, PUSH no] else [PUSH no]) @ save_context"
  have esp: "r_esp ?c1 = r_esp c - 56" by (simp add: at_handler_def frame_words_def)
  obtain post where post: "CLI # (if err = None then [PUSH 0, PUSH no] else [PUSH no]) @ stub = ?pre @ CALL_HANDLER # post"
    "forR (exec h) post c2 = Inr (resumed c2 c)"
    using assms(5) restore_run [OF assms(4,3,2), of h] by (auto simp: irq_common_stub_def isr_common_stub_def simp del: forR.simps)
  show ?thesis
    unfolding post(1) forR_append save_context_run [OF refl] using assms(1) post(2) esp by simp
qed


text \<open>A handler that returns with the stack pointer, the code segment and the record on the stack as they were.\<close>

definition keeps_frame :: "(registers \<Rightarrow> cpu \<Rightarrow> kerror + cpu) \<Rightarrow> bool" where
  "keeps_frame h \<longleftrightarrow> (\<forall>r c. \<exists>c2. h r c = Inr c2 \<and> r_esp c2 = r_esp c \<and> r_cs c2 = r_cs c
     \<and> (\<forall>i<14. load32 (ram c2) (r_esp c + 4 * of_nat i) = load32 (ram c) (r_esp c + 4 * of_nat i)))"

definition told :: "registers \<Rightarrow> cpu \<Rightarrow> u32 \<Rightarrow> u32 \<Rightarrow> bool" where
  "told r c no err \<longleftrightarrow> int_no r = no \<and> err_code r = err \<and> g_eip r = r_eip c \<and> g_cs r = ucast (r_cs c)
     \<and> g_eflags r = r_eflags c \<and> ucast (g_ds r) = r_ds c \<and> g_eax r = r_eax c \<and> g_ebx r = r_ebx c \<and> g_ecx r = r_ecx c
     \<and> g_edx r = r_edx c \<and> g_esi r = r_esi c \<and> g_edi r = r_edi c \<and> g_ebp r = r_ebp c \<and> g_esp r = r_esp c - 20"

lemma stub_transparent:
  assumes "keeps_frame h" and "stub = irq_common_stub \<or> stub = isr_common_stub"
  shows "\<exists>r c1 c2. told r c no (case err of None \<Rightarrow> 0 | Some e \<Rightarrow> e) \<and> h r c1 = Inr c2
    \<and> forR (exec h) (CLI # (if err = None then [PUSH 0, PUSH no] else [PUSH no]) @ stub) (deliver gate err c)
      = Inr (resumed c2 c)"
proof -
  define e where "e = (case err of None \<Rightarrow> 0 | Some e \<Rightarrow> e)"
  define c1 where "c1 = at_handler gate no e c"
  have st: "stacked c1 (frame_words c no e)" unfolding c1_def by (rule at_handler_stacked)
  have c1: "r_esp c1 = r_esp c - 56" "r_cs c1 = r_cs c" by (simp_all add: c1_def at_handler_def frame_words_def)
  let ?r = "regs_at (ram c1) (r_esp c1)"
  obtain c2 where c2: "h ?r c1 = Inr c2" "r_esp c2 = r_esp c1" "r_cs c2 = r_cs c1"
    "\<forall>i<14. load32 (ram c2) (r_esp c1 + 4 * of_nat i) = load32 (ram c1) (r_esp c1 + 4 * of_nat i)"
    using spec [OF spec [OF assms(1) [unfolded keeps_frame_def], of ?r], of c1] by blast
  then have st2: "stacked c2 (frame_words c no e)"
    using st by (simp add: stacked_def stack_at_def frame_words_def)
  have "told ?r c no e"
    using stacked_regs_at [OF st [unfolded frame_words_def]] by (simp add: told_def)
  moreover have "forR (exec h) (CLI # (if err = None then [PUSH 0, PUSH no] else [PUSH no]) @ stub) (deliver gate err c)
      = Inr (resumed c2 c)"
    by (rule stub_run) (use c2 c1 st2 assms(2) in \<open>simp_all add: c1_def e_def\<close>)
  ultimately show ?thesis using c2(1) unfolding e_def by blast
qed

text \<open>\<^verbatim>\<open>read_eip\<close> goes back to its caller with the return address in \<^verbatim>\<open>eax\<close>, and the stack as before the call.\<close>

lemma read_eip_returns:
  "forR (exec h) read_eip c = Inr (c\<lparr>r_eax := top c, r_eip := top c, r_esp := r_esp c + 4, ram := store32 (ram c) (r_esp c) (top c)\<rparr>)"
  by (simp add: read_eip_def push_def drop_top_def top_def load32_store32_same)

subsection \<open>Properties\<close>

definition demo_cpu :: cpu where
  "demo_cpu = \<lparr>r_eax = 0x11112222, r_ebx = 2, r_ecx = 3, r_edx = 4, r_esi = 5, r_edi = 6, r_ebp = 0x8010, r_esp = 0x8000,
     r_ds = 0x10, r_es = 0x23, r_fs = 0x10, r_gs = 0x10, r_ss = 0x10, r_cs = 8, r_eip = 0x00101234, r_eflags = 0x202,
     ram = (\<lambda>_. 0)\<rparr>"

text \<open>C31: A device interrupt calls the handler with its vector, a zero error code and the registers of the
  interrupted program; when the handler returns and has left this record alone, the program goes on at
  the same instruction with the same registers, except that the extra segments equal the data segment.\<close>

theorem irq_stub_transparent:
  assumes "keeps_frame h"
  shows "\<exists>r c1 c2. told r c (of_nat (n + 32)) 0 \<and> h r c1 = Inr c2
    \<and> forR (exec h) (irq_stub n) (deliver gate None c) = Inr (resumed c2 c)"
  using stub_transparent [OF assms, of irq_common_stub c "of_nat (n + 32)" None gate] by (simp add: irq_stub_def)

lemma irq_stub_transparent_witness:
  "\<exists>r c1. told r demo_cpu 33 0
    \<and> forR (exec (\<lambda>r c. Inr (c\<lparr>r_eax := 0, r_ebx := int_no r\<rparr>))) (irq_stub 1) (deliver 0x00102000 None demo_cpu)
      = Inr (resumed (c1\<lparr>r_eax := 0, r_ebx := 33\<rparr>) demo_cpu)"
proof -
  have "keeps_frame (\<lambda>r c. Inr (c\<lparr>r_eax := 0, r_ebx := int_no r\<rparr>))" by (simp add: keeps_frame_def)
  from irq_stub_transparent [OF this, of demo_cpu 1 "0x00102000"] obtain r c1 where
    r: "told r demo_cpu 33 0" and "forR (exec (\<lambda>r c. Inr (c\<lparr>r_eax := 0, r_ebx := int_no r\<rparr>))) (irq_stub 1)
      (deliver 0x00102000 None demo_cpu) = Inr (resumed (c1\<lparr>r_eax := 0, r_ebx := int_no r\<rparr>) demo_cpu)" by auto
  moreover have "int_no r = 33" using r by (simp add: told_def)
  ultimately show ?thesis by metis
qed



text \<open>From the kernel's privilege level switch_to_user_mode goes on at its label on level 3, with the user's
  segments, the same stack pointer and the same flags.\<close>

theorem switch_to_user_mode_drops_privilege:
  assumes "r_cs c AND 3 = 0"
  shows "\<exists>m. forR (exec h) (switch_to_user_mode label) c
    = Inr (c\<lparr>r_ds := 0x23, r_es := 0x23, r_fs := 0x23, r_gs := 0x23, r_eax := r_esp c, r_ss := 0x23, r_cs := 0x1B,
        r_eip := label, ram := m\<rparr>)"
proof -
  define c0 where "c0 = c\<lparr>r_ds := 0x23, r_es := 0x23, r_fs := 0x23, r_gs := 0x23, r_eax := r_esp c\<rparr>"
  define c1 where "c1 = fold push [0x23, r_esp c, r_eflags c, 0x1B, label] c0"
  have st: "stacked c1 [label, 0x1B, r_eflags c, r_esp c, 0x23]"
    unfolding c1_def using stacked_fold [of "[label, 0x1B, r_eflags c, r_esp c, 0x23]" c0] by simp
  define m where "m = ram c1"
  have c1: "c1 = c0\<lparr>r_esp := r_esp c - 20, ram := m\<rparr>"
    unfolding m_def by (simp add: c1_def push_def) (simp add: c0_def)
  have "load32 m (4 * of_nat i + (r_esp c - 20)) = [label, 0x1B, r_eflags c, r_esp c, 0x23] ! i" if "i < 5" for i
    using stacked_words [OF st, of i] that by (simp add: c1 add.commute)
  note w = this
  have "iret c1 = c0\<lparr>r_ss := 0x23, r_cs := 0x1B, r_eip := label, ram := m\<rparr>"
    using w [of 0] w [of 1] w [of 2] w [of 3] w [of 4] assms
    unfolding c1 by (simp add: iret_def drop_top_def top_def Let_def c0_def)
  moreover have "forR (exec h) (switch_to_user_mode label) c = Inr (iret c1)"
    by (simp add: switch_to_user_mode_def c1_def c0_def)
  ultimately show ?thesis by (auto simp: c0_def)
qed

lemma switch_to_user_mode_drops_privilege_witness:
  "\<exists>c. forR (exec (\<lambda>r. Inr)) (switch_to_user_mode 0x00101300) demo_cpu = Inr c \<and> r_cs c = 0x1B \<and> r_esp c = 0x8000"
  using switch_to_user_mode_drops_privilege [of demo_cpu "\<lambda>r. Inr" "0x00101300"] by (auto simp: demo_cpu_def)

end
