(* ===== verification/Spec2Isabelle.thy ===== *)
theory Spec2Isabelle
  imports Loader KeyLines IntStubs
begin

text \<open>
  This library models \<^verbatim>\<open>kernelcpp\<close>, a 32-bit x86 kernel in C++ with one address space per process:
  a text console, physical and virtual memory, two heaps, threads with a round-robin scheduler,
  messages between threads, a keyboard driver and the interrupt set-up. File names below are relative
  to \<^verbatim>\<open>src/kernelcpp\<close>.

  \<^bold>\<open>The state.\<close> There is one state, a record that the theories extend in the order in which the
  components build on each other: console (\<open>kcon\<close>), processor and ports (\<open>machine\<close>), kernel heap
  (\<open>kmm\<close>), page allocator (\<open>pmm\<close>), paging (\<open>vmm\<close>), process heaps (\<open>kheap\<close>), task manager (\<open>tasks\<close>),
  message queue (\<open>ipc\<close>), processor registers (\<open>sched\<close>), keyboard (\<open>kbd\<close>), descriptor and handler tables
  (\<open>idt\<close>), the objects of \<^verbatim>\<open>kmain\<close> (\<open>kernel\<close>), the segment registers of the start (\<open>boot_state\<close>). An operation takes the state and gives a value of type
  \<open>kerror + result\<close>: \<open>Inl\<close> when it does not return (a null or wild pointer, a page fault, an index
  outside an array, \<^verbatim>\<open>panic\<close>, an endless loop), \<open>Inr\<close> with the new state otherwise.

  \<^bold>\<open>The theories and the code they model.\<close>
  \<^item> \<open>KPrelude\<close>: word types, sequencing (\<open>bindR\<close>), bounded loops (\<open>for_upt\<close>, \<open>forR\<close>), fuel.
  \<^item> \<open>Faults\<close>, \<open>ByteMem\<close>, \<open>CString\<close>: \<^verbatim>\<open>code/mem/common.c\<close> (\<^verbatim>\<open>panic\<close>, \<^verbatim>\<open>memcpy\<close>, \<^verbatim>\<open>memset\<close>, string functions) and the
    \<^verbatim>\<open>strcmp\<close> of \<^verbatim>\<open>kmain.cpp\<close>; \<open>Console\<close>: \<^verbatim>\<open>code/Console.cpp\<close>; \<open>Machine\<close>: \<^verbatim>\<open>code/PortIO.cpp\<close>.
  \<^item> \<open>KMalloc\<close>: \<^verbatim>\<open>code/MemoryManagement.cpp\<close>, the kernel heap in the megabyte from 2 MB on.
  \<^item> \<open>Pmm\<close>: \<^verbatim>\<open>code/mem/pmm.c\<close>, against the specification "a set of free pages" (locale \<open>page_allocator\<close>).
  \<^item> \<open>Vmm\<close>: \<^verbatim>\<open>code/mem/vmm.c\<close> and the page walk of the processor. \<open>Paging\<close> and \<open>MapPage\<close> prove what the
    operations do to an address space, \<open>KernelSpace\<close> what \<^verbatim>\<open>init_vmm\<close> builds, \<open>DataArea\<close> how data that
    is apart from the page tables is read and written under paging.
  \<^item> \<open>KHeap\<close>: \<^verbatim>\<open>code/mem/heap.c\<close>, the heap of a process, every header access byte by byte through the page
    tables. \<open>HeapChunks\<close> and \<open>HeapAlloc\<close> prove first fit, growth, reuse and splitting on lists of chunks.
  \<^item> \<open>LinkedList\<close>: chains of nodes, the interface (locale \<open>linked_list\<close>) of the two queues.
  \<^item> \<open>Tasks\<close>: \<^verbatim>\<open>code/TaskManager.cpp\<close> without the timer; \<open>Scheduler\<close>: the timer event and \<^verbatim>\<open>switch_thread\<close> of
    \<^verbatim>\<open>code/thread_asm.s\<close>, against round robin over a list of threads (\<open>sched_rep\<close>).
  \<^item> \<open>Ipc\<close>: \<^verbatim>\<open>code/IPC.cpp\<close>; \<open>Messages\<close>: the queue as a list of messages (\<open>msg_rep\<close>).
  \<^item> \<open>Creation\<close>: \<^verbatim>\<open>createThread\<close> across \<open>Tasks\<close>, \<open>KHeap\<close>, \<open>KMalloc\<close> and \<open>Scheduler\<close>: the new thread and its first switch.
  \<^item> \<open>ProcessSpace\<close>: the second branch of \<^verbatim>\<open>create_page_directory\<close>, which builds a directory through the page tables
    of the running address space; \<open>NewProcess\<close>: \<^verbatim>\<open>createProcess\<close>, from the new directory to the first switch into it.
  \<^item> \<open>Keyboard\<close>: \<^verbatim>\<open>code/Keyboard.cpp\<close> and \<^verbatim>\<open>code/KeyEvent.cpp\<close>; \<open>KeyLines\<close>: streams of scan codes.
  \<^item> \<open>Pic\<close>, \<open>Idt\<close>, \<open>Isr\<close>, \<open>Tss\<close>: \<^verbatim>\<open>code/PIC.cpp\<close>, \<^verbatim>\<open>code/IDT.cpp\<close>, \<^verbatim>\<open>code/InterruptHandler.cpp\<close>, \<^verbatim>\<open>code/TSS.cpp\<close>.
  \<^item> \<open>IntStubs\<close>: the assembly stubs of \<^verbatim>\<open>code/Interrupts.s\<close> and \<^verbatim>\<open>switch_to_user_mode\<close> of \<^verbatim>\<open>kmain.cpp\<close>, over a
    state of their own (the registers of the processor and its stack).
  \<^item> \<open>KMain\<close>: \<^verbatim>\<open>kmain.cpp\<close>; \<open>KernelLoop\<close>: its endless loops over several rounds, and the launcher;
    \<open>Boot\<close>: \<^verbatim>\<open>kmain\<close> from the hand-over by the boot loader to its endless loop, across all components.
  \<^item> \<open>Loader\<close>: \<^verbatim>\<open>loader.S\<close>, \<^verbatim>\<open>GDT.inc\<close> and the addresses of \<^verbatim>\<open>linker.ld\<close>: the table of segment descriptors, the tables of
    constructors and destructors, and the whole start from the entry by a Multiboot loader.

  \<^bold>\<open>What is proved.\<close> Memory: the kernel heap hands out disjoint blocks and recycles none; the page
  allocator implements a set of free pages; \<^verbatim>\<open>map\<close> and \<^verbatim>\<open>unmap\<close> change one page of an address space, and
  what goes wrong when \<^verbatim>\<open>map\<close> needs a new table; a process heap is first fit, grows by whole pages and
  gives freed chunks out again; the address space of a new process is well formed and shares no table with that of
  its creator. Threads: the timer is a round-robin step that switches registers,
  address space and heap, every waiting thread gets its turn, a created thread starts at \<^verbatim>\<open>thread_start\<close>
  with its program on the stack, so does a created process in its own address space, and a thread that returns brings the scheduler down. Interrupts: the stubs
  tell the handlers the vector and the registers and restore the interrupted code. Messages: the queue is a list, sending appends, receiving takes the first message of
  the running thread. Composition: the start of
  the kernel reaches the loop of \<^verbatim>\<open>kmain\<close> in a state in which all of this holds, and the loop then sends its messages.
  Console, keyboard, strings, descriptors: bounds and functional behaviour. Where
  the code does not do what its comments or its callers expect, the theorem states what it does.

  \<^bold>\<open>Bounds and fuel.\<close> Loops that follow pointers get \<open>loop_fuel = 2 ^ 32\<close> rounds, one for every address,
  so that a chain of distinct nodes always ends before the fuel does (\<open>chain_fuel\<close>); running out is the
  error \<open>Hang\<close>, and every theorem about a result proves that the result is reached.

  \<^bold>\<open>Assumptions.\<close> No translation cache: every access walks the current tables. The bitmap of the page
  allocator and the blocks of the kernel heap are accessed at their physical addresses, which the first
  4 MB of every address space map to themselves. Thread descriptors, list nodes, message nodes and
  \<^verbatim>\<open>Heap\<close> objects are kept in typed stores by address beside the bytes of memory: an object is read as what was
  last written to it, also after it was freed. A member access through a null pointer is the error
  \<open>NullDeref\<close> (on this machine page 0 is mapped, and the access would read the words there). Device answers,
  linker addresses, the names and \<^verbatim>\<open>launch\<close> methods of programs are parameters of the state. \<^verbatim>\<open>map\<close> does not clear
  a table it creates, so the theorems on new address spaces ask for free pages that start with a zero word (\<open>fresh_memory\<close>),
  which holds when memory is zero at power-on. A theorem on an operation takes it as one step: the timer interrupts between
  operations (\<open>sched_run\<close>), not in the middle of \<^verbatim>\<open>createProcess\<close>, which runs with interrupts on
  (\<open>NewProcess\<close> shows what a timer interrupt does there).

  \<^bold>\<open>Not modelled.\<close> The words that calls push on the stack, and the first calls of \<^verbatim>\<open>getInstance\<close> inside the operations (the
  constructors find the values they would set: \<open>power_on\<close>); the binary images of GRUB; code inside comments; declarations
  without code.
\<close>

end
